(* ===== verification/Sleet_Prelude.thy ===== *)
theory Sleet_Prelude
  imports Main "HOL-Library.Word" "HOL-Library.List_Lexorder" "HOL-Library.Char_ord"
    "HOL-Library.Multiset" "HOL-Library.AList"
begin

text \<open>
  Shared vocabulary of the development: the pieces of Rust's standard library that the
  sources use and the generic lemmas about them.

  \<^item> A Rust \<^verbatim>\<open>str\<close> is a list of bytes (\<^typ>\<open>string\<close>, one \<^typ>\<open>char\<close> per byte), so
    \<^verbatim>\<open>len()\<close> is \<^const>\<open>length\<close> and \<^verbatim>\<open>Ord\<close> is the bytewise lexicographic order of
    \<^verbatim>\<open>List_Lexorder\<close> over \<^verbatim>\<open>Char_ord\<close>. Only valid UTF-8 byte lists are strings of the
    program; \<open>utf8_valid\<close> is the check of \<^verbatim>\<open>std::str::from_utf8\<close>.
  \<^item> A \<^verbatim>\<open>BTreeMap\<close> is an association list in strictly ascending key order (\<open>bt_wf\<close>),
    a \<^verbatim>\<open>HashMap\<close> an association list with distinct keys in any order, a \<^verbatim>\<open>BTreeSet\<close> or
    \<^verbatim>\<open>HashSet\<close> a finite set.
  \<^item> \<^verbatim>\<open>sort_by\<close> is the stable insertion sort \<open>sort_by\<close>; the locales \<open>comparator\<close> and
    \<open>linear_comparator\<close> hold what every client of it relies on.
  \<^item> A \<^verbatim>\<open>Duration\<close> is its number of nanoseconds, a \<^verbatim>\<open>DateTime<Utc>\<close> its number of
    nanoseconds since the epoch (\<^typ>\<open>int\<close>), a \<^verbatim>\<open>u64\<close> identifier a \<^typ>\<open>nat\<close> below
    \<open>2 ^ 64\<close> whose additions wrap (\<open>u64_add\<close>), as they do in a release build.
\<close>

named_theorems str_simps \<open>evaluation of the string primitives\<close>
named_theorems bt_simps \<open>BTreeMap operations on well-formed maps\<close>

type_synonym duration = nat
type_synonym datetime = int
type_synonym ('k, 'v) btree = "('k \<times> 'v) list"
type_synonym ('k, 'v) hmap = "('k \<times> 'v) list"

definition from_secs :: "nat \<Rightarrow> duration" where
  "from_secs s = s * 1000000000"

definition u64_add :: "nat \<Rightarrow> nat \<Rightarrow> nat" where
  "u64_add a b = (a + b) mod 2 ^ 64"

lemma u64_add_bound: "u64_add a b < 2 ^ 64"
  by (simp add: u64_add_def)

lemma u64_add_exact [simp]: "a + b < 2 ^ 64 \<Longrightarrow> u64_add a b = a + b"
  by (simp add: u64_add_def)

lemma from_secs_mono [simp]: "from_secs a \<le> from_secs b \<longleftrightarrow> a \<le> b"
  by (simp add: from_secs_def)

lemma from_secs_zero [simp]: "from_secs a = 0 \<longleftrightarrow> a = 0"
  by (simp add: from_secs_def)

lemma from_secs_pos [simp]: "0 < from_secs a \<longleftrightarrow> 0 < a"
  by (simp add: from_secs_def)

subsection \<open>Byte strings\<close>

definition byte_of :: "char \<Rightarrow> nat" where
  "byte_of c = of_char c"

lemma byte_of_bound: "byte_of c < 256"
  by (simp add: byte_of_def)

lemma byte_of_inject [simp]: "byte_of a = byte_of b \<longleftrightarrow> a = b"
  by (simp add: byte_of_def)

lemma char_of_byte_of [simp]: "char_of (byte_of c) = c"
  by (simp add: byte_of_def)

definition between :: "nat \<Rightarrow> nat \<Rightarrow> char \<Rightarrow> bool" where
  "between lo hi c \<longleftrightarrow> lo \<le> byte_of c \<and> byte_of c \<le> hi"

definition is_digit :: "char \<Rightarrow> bool" where
  "is_digit c \<longleftrightarrow> between 48 57 c"

definition is_ascii_uppercase :: "char \<Rightarrow> bool" where
  "is_ascii_uppercase c \<longleftrightarrow> between 65 90 c"

definition is_ascii_alphanumeric :: "char \<Rightarrow> bool" where
  "is_ascii_alphanumeric c \<longleftrightarrow> is_digit c \<or> is_ascii_uppercase c \<or> between 97 122 c"

definition to_ascii_lower :: "char \<Rightarrow> char" where
  "to_ascii_lower c = (if is_ascii_uppercase c then char_of (byte_of c + 32) else c)"

definition to_ascii_lowercase :: "string \<Rightarrow> string" where
  "to_ascii_lowercase s = map to_ascii_lower s"

definition strip_suffix :: "string \<Rightarrow> string \<Rightarrow> string option" where
  "strip_suffix s suf =
     (let n = length s - length suf in
      if length suf \<le> length s \<and> drop n s = suf then Some (take n s) else None)"

definition strip_prefix :: "string \<Rightarrow> string \<Rightarrow> string option" where
  "strip_prefix s pre =
     (if take (length pre) s = pre then Some (drop (length pre) s) else None)"

definition rsplit_once :: "string \<Rightarrow> char \<Rightarrow> (string \<times> string) option" where
  "rsplit_once s c =
     (case dropWhile (\<lambda>x. x \<noteq> c) (rev s) of
        [] \<Rightarrow> None
      | _ # before \<Rightarrow> Some (rev before, rev (takeWhile (\<lambda>x. x \<noteq> c) (rev s))))"

definition trim_end_matches :: "string \<Rightarrow> char \<Rightarrow> string" where
  "trim_end_matches s c = rev (dropWhile (\<lambda>x. x = c) (rev s))"

definition trim_start_matches :: "string \<Rightarrow> char \<Rightarrow> string" where
  "trim_start_matches s c = dropWhile (\<lambda>x. x = c) s"

fun join :: "string \<Rightarrow> string list \<Rightarrow> string" where
  "join sep [] = []"
| "join sep [x] = x"
| "join sep (x # y # ys) = x @ sep @ join sep (y # ys)"

lemma strip_suffix_append [simp]: "strip_suffix (a @ suf) suf = Some a"
  by (simp add: strip_suffix_def)

lemma strip_suffix_SomeD: "strip_suffix s suf = Some a \<Longrightarrow> s = a @ suf"
  by (auto simp: strip_suffix_def Let_def split: if_splits)
     (metis append_take_drop_id)

lemma strip_suffix_iff: "strip_suffix s suf = Some a \<longleftrightarrow> s = a @ suf"
  by (auto dest: strip_suffix_SomeD)

lemma strip_prefix_append [simp]: "strip_prefix (pre @ a) pre = Some a"
  by (simp add: strip_prefix_def)

lemma strip_prefix_SomeD: "strip_prefix s pre = Some a \<Longrightarrow> s = pre @ a"
  by (auto simp: strip_prefix_def split: if_splits) (metis append_take_drop_id)

lemma strip_prefix_iff: "strip_prefix s pre = Some a \<longleftrightarrow> s = pre @ a"
  by (auto dest: strip_prefix_SomeD)

lemma rsplit_once_append:
  assumes "c \<notin> set b"
  shows "rsplit_once (a @ c # b) c = Some (a, b)"
proof -
  have "\<And>x. x \<in> set (rev b) \<Longrightarrow> x \<noteq> c" using assms by auto
  then have "dropWhile (\<lambda>x. x \<noteq> c) (rev b @ c # rev a) = c # rev a"
    and "takeWhile (\<lambda>x. x \<noteq> c) (rev b @ c # rev a) = rev b"
    by (subst dropWhile_append2, simp_all, subst takeWhile_append2, simp_all)
  then show ?thesis by (simp add: rsplit_once_def)
qed

lemma rsplit_once_SomeD:
  assumes "rsplit_once s c = Some (a, b)"
  shows "s = a @ c # b \<and> c \<notin> set b"
proof -
  let ?t = "takeWhile (\<lambda>x. x \<noteq> c) (rev s)"
  obtain d where d: "dropWhile (\<lambda>x. x \<noteq> c) (rev s) = d # rev a" and b: "b = rev ?t"
    using assms by (auto simp: rsplit_once_def split: list.splits)
  have dc: "d = c" using hd_dropWhile [of "\<lambda>x. x \<noteq> c" "rev s"] d by force
  have "rev s = ?t @ c # rev a"
    using takeWhile_dropWhile_id [of "\<lambda>x. x \<noteq> c" "rev s"] d dc by simp
  then have "rev (rev s) = rev (?t @ c # rev a)" by (rule arg_cong)
  moreover have "c \<notin> set ?t" by (auto dest: set_takeWhileD)
  ultimately show ?thesis using b by simp
qed

lemma trim_end_matches_no_end: "trim_end_matches s c = [] \<or> last (trim_end_matches s c) \<noteq> c"
proof (cases "dropWhile (\<lambda>x. x = c) (rev s)")
  case Nil
  then show ?thesis by (simp add: trim_end_matches_def)
next
  case (Cons d ds)
  then have "d \<noteq> c" using hd_dropWhile [of "\<lambda>x. x = c" "rev s"] by force
  with Cons show ?thesis by (simp add: trim_end_matches_def)
qed

lemma trim_end_matches_id: "s = [] \<or> last s \<noteq> c \<Longrightarrow> trim_end_matches s c = s"
  by (cases s rule: rev_cases) (auto simp: trim_end_matches_def)

lemma trim_end_matches_idem [simp]:
  "trim_end_matches (trim_end_matches s c) c = trim_end_matches s c"
  by (rule trim_end_matches_id) (rule trim_end_matches_no_end)

end
