(* ===== verification/Sleet_Collections.thy ===== *)
theory Sleet_Collections
  imports Sleet_Prelude
begin

text \<open>
  The ordered collections of the standard library: the stable \<^verbatim>\<open>sort_by\<close> and \<^verbatim>\<open>BTreeMap\<close>.

  \<open>comparator\<close> and \<open>linear_comparator\<close> are the contract of a comparison closure given to
  \<^verbatim>\<open>sort_by\<close>; their lemmas (the result is a sorted permutation, it commutes with filtering,
  it depends on the multiset of the input only) are proved once and used through the
  interpretations at the closures of the program. \<open>ordered_map\<close> is the contract of a
  \<^verbatim>\<open>BTreeMap\<close>, interpreted on the sorted association lists of the model.
\<close>

subsection \<open>Stable sorting\<close>

fun insort_by :: "('a \<Rightarrow> 'a \<Rightarrow> bool) \<Rightarrow> 'a \<Rightarrow> 'a list \<Rightarrow> 'a list" where
  "insort_by le x [] = [x]"
| "insort_by le x (y # ys) = (if le x y then x # y # ys else y # insort_by le x ys)"

definition sort_by :: "('a \<Rightarrow> 'a \<Rightarrow> bool) \<Rightarrow> 'a list \<Rightarrow> 'a list" where
  "sort_by le xs = foldr (insort_by le) xs []"

lemma sort_by_Nil [simp]: "sort_by le [] = []"
  by (simp add: sort_by_def)

lemma sort_by_Cons [simp]: "sort_by le (x # xs) = insort_by le x (sort_by le xs)"
  by (simp add: sort_by_def)

lemma mset_insort_by [simp]: "mset (insort_by le x xs) = add_mset x (mset xs)"
  by (induction xs) auto

lemma mset_sort_by [simp]: "mset (sort_by le xs) = mset xs"
  by (induction xs) auto

lemma set_sort_by [simp]: "set (sort_by le xs) = set xs"
  by (metis mset_sort_by set_mset_mset)

lemma set_insort_by [simp]: "set (insort_by le x xs) = insert x (set xs)"
  by (metis mset_insort_by set_mset_add_mset_insert set_mset_mset)

lemma length_sort_by [simp]: "length (sort_by le xs) = length xs"
  by (metis mset_sort_by size_mset)

lemma distinct_sort_by [simp]: "distinct (sort_by le xs) \<longleftrightarrow> distinct xs"
  by (metis mset_sort_by mset_eq_imp_distinct_iff)

lemma insort_by_map: "map f (insort_by (\<lambda>a b. le (f a) (f b)) x xs) = insort_by le (f x) (map f xs)"
  by (induction xs) auto

lemma sort_by_map: "map f (sort_by (\<lambda>a b. le (f a) (f b)) xs) = sort_by le (map f xs)"
  by (induction xs) (simp_all add: insort_by_map)

locale comparator =
  fixes le :: "'a \<Rightarrow> 'a \<Rightarrow> bool"
  assumes le_total: "le a b \<or> le b a"
    and le_trans: "le a b \<Longrightarrow> le b c \<Longrightarrow> le a c"
begin

lemma le_refl: "le a a"
  using le_total by blast

lemma sorted_insort_by: "sorted_wrt le xs \<Longrightarrow> sorted_wrt le (insort_by le x xs)"
proof (induction xs)
  case (Cons y ys)
  then show ?case using le_total [of x y] by (auto intro: le_trans)
qed simp

lemma sorted_sort_by: "sorted_wrt le (sort_by le xs)"
  by (induction xs) (auto intro: sorted_insort_by)

lemma insort_by_head: "(\<forall>y \<in> set ys. le x y) \<Longrightarrow> insort_by le x ys = x # ys"
  by (cases ys) auto

lemma filter_insort_by:
  "sorted_wrt le xs \<Longrightarrow>
     filter P (insort_by le x xs) = (if P x then insort_by le x (filter P xs) else filter P xs)"
proof (induction xs)
  case (Cons y ys)
  show ?case
  proof (cases "le x y")
    case True
    then have "\<forall>z \<in> set (filter P (y # ys)). le x z"
      using Cons.prems by (auto intro: le_trans)
    then show ?thesis
      using True insort_by_head [of "filter P (y # ys)" x] by auto
  next
    case False
    then show ?thesis using Cons by auto
  qed
qed auto

lemma filter_sort_by: "filter P (sort_by le xs) = sort_by le (filter P xs)"
  by (induction xs) (auto simp: filter_insort_by sorted_sort_by)

lemma sort_by_sorted_id: "sorted_wrt le xs \<Longrightarrow> sort_by le xs = xs"
  by (induction xs) (auto simp: insort_by_head)

end

locale linear_comparator = comparator +
  assumes le_antisym: "le a b \<Longrightarrow> le b a \<Longrightarrow> a = b"
begin

lemma sorted_perm_unique:
  "sorted_wrt le xs \<Longrightarrow> sorted_wrt le ys \<Longrightarrow> mset xs = mset ys \<Longrightarrow> xs = ys"
proof (induction xs arbitrary: ys)
  case (Cons x xs)
  then obtain y ys' where ys: "ys = y # ys'" by (cases ys) auto
  have "x \<in> set ys" and "y \<in> set (x # xs)"
    using Cons.prems(3) ys by (metis list.set_intros(1) mset_eq_setD)+
  then have "le x y" and "le y x"
    using Cons.prems(1,2) ys le_refl by auto
  then have "x = y" by (rule le_antisym)
  then show ?case using Cons ys by auto
qed simp

lemma sort_by_perm: "mset xs = mset ys \<Longrightarrow> sort_by le xs = sort_by le ys"
  by (rule sorted_perm_unique) (simp_all add: sorted_sort_by)

end

subsection \<open>Prefixes of filtered lists\<close>

lemma take_filter_absent:
  "n \<notin> set (take k xs) \<Longrightarrow> take k (filter (\<lambda>m. m \<noteq> n) xs) = take k xs"
proof (induction k arbitrary: xs)
  case (Suc k)
  then show ?case by (cases xs) auto
qed simp

lemma take_filter_superset: "set (take k xs) \<subseteq> insert n (set (take k (filter (\<lambda>m. m \<noteq> n) xs)))"
proof (induction k arbitrary: xs)
  case (Suc k)
  show ?case
  proof (cases xs)
    case (Cons x ys)
    have "set (take k zs) \<subseteq> set (take (Suc k) zs)" for zs :: "'a list"
      by (rule set_take_subset_set_take) simp
    then show ?thesis using Cons Suc [of ys] by (cases "x = n") (simp_all, blast+)
  qed simp
qed simp

subsection \<open>Ordered maps\<close>

definition bt_wf :: "('k::linorder, 'v) btree \<Rightarrow> bool" where
  "bt_wf m \<longleftrightarrow> sorted_wrt (<) (map fst m)"

definition bt_insert :: "'k::linorder \<Rightarrow> 'v \<Rightarrow> ('k, 'v) btree \<Rightarrow> ('k, 'v) btree" where
  "bt_insert k v m =
     takeWhile (\<lambda>e. fst e < k) m @ (k, v) # dropWhile (\<lambda>e. fst e \<le> k) m"

abbreviation bt_get :: "('k, 'v) btree \<Rightarrow> 'k \<Rightarrow> 'v option" where
  "bt_get m k \<equiv> map_of m k"

definition bt_of_list :: "('k::linorder \<times> 'v) list \<Rightarrow> ('k, 'v) btree" where
  "bt_of_list xs = fold (\<lambda>(k, v) m. bt_insert k v m) xs []"

lemma bt_wf_Nil [simp]: "bt_wf []"
  by (simp add: bt_wf_def)

lemma bt_wf_Cons: "bt_wf (e # m) \<longleftrightarrow> (\<forall>e' \<in> set m. fst e < fst e') \<and> bt_wf m"
  by (auto simp: bt_wf_def)

lemma bt_wf_distinct: "bt_wf m \<Longrightarrow> distinct (map fst m)"
  by (auto simp: bt_wf_def strict_sorted_iff)

lemma bt_insert_Cons:
  "bt_insert k v (e # m) =
     (if fst e < k then e # bt_insert k v m else if fst e = k then (k, v) # dropWhile (\<lambda>e. fst e \<le> k) m
      else (k, v) # e # m)"
  by (auto simp: bt_insert_def)

lemma bt_insert_Nil [simp]: "bt_insert k v [] = [(k, v)]"
  by (simp add: bt_insert_def)

lemma set_bt_insert: "set (bt_insert k v m) \<subseteq> insert (k, v) (set m)"
  unfolding bt_insert_def
  using set_takeWhileD [of _ "\<lambda>e. fst e < k" m] set_dropWhileD [of _ "\<lambda>e. fst e \<le> k" m] by auto

lemma dropWhile_above: "\<forall>e' \<in> set m. (k :: 'k::linorder) < fst e' \<Longrightarrow> dropWhile (\<lambda>e. fst e \<le> k) m = m"
  by (cases m) (auto simp: not_le)

lemma map_of_above: "\<forall>e \<in> set m. (k :: 'k::linorder) < fst e \<Longrightarrow> map_of m k = None"
  by (auto simp: map_of_eq_None_iff)

lemma bt_get_insert: "bt_wf m \<Longrightarrow> bt_get (bt_insert k v m) = (map_of m)(k \<mapsto> v)"
proof (induction m)
  case (Cons e m)
  then show ?case
    by (cases e) (auto simp: bt_insert_Cons bt_wf_Cons fun_eq_iff dropWhile_above)
qed auto

lemma bt_keys_insert: "bt_wf m \<Longrightarrow> set (map fst (bt_insert k v m)) = insert k (set (map fst m))"
  by (induction m) (auto simp: bt_insert_Cons bt_wf_Cons dropWhile_above)

lemma bt_wf_insert: "bt_wf m \<Longrightarrow> bt_wf (bt_insert k v m)"
proof (induction m)
  case (Cons e m)
  then show ?case
  proof (cases "fst e < k")
    case True
    have "\<forall>x \<in> fst ` set (bt_insert k v m). fst e < x"
      using Cons.prems True bt_keys_insert [of m k v] by (auto simp: bt_wf_Cons)
    with Cons True show ?thesis by (auto simp: bt_insert_Cons bt_wf_Cons)
  next
    case False
    with Cons.prems show ?thesis by (fastforce simp: bt_insert_Cons bt_wf_Cons dropWhile_above)
  qed
qed (auto simp: bt_wf_Cons)

lemma bt_wf_map: "bt_wf m \<Longrightarrow> bt_wf (map (\<lambda>(k, v). (k, f k v)) m)"
  by (simp add: bt_wf_def comp_def case_prod_beta)

lemma bt_wf_filter: "bt_wf m \<Longrightarrow> bt_wf (filter P m)"
  by (induction m) (auto simp: bt_wf_Cons)

lemma bt_get_iff: "bt_wf m \<Longrightarrow> bt_get m k = Some v \<longleftrightarrow> (k, v) \<in> set m"
  by (simp add: bt_wf_distinct map_of_eq_Some_iff)

locale ordered_map =
  fixes empty :: 'm
    and ins :: "'k::linorder \<Rightarrow> 'v \<Rightarrow> 'm \<Rightarrow> 'm"
    and get :: "'m \<Rightarrow> 'k \<Rightarrow> 'v option"
    and keys :: "'m \<Rightarrow> 'k list"
    and wf :: "'m \<Rightarrow> bool"
  assumes get_empty: "get empty k = None"
    and wf_empty: "wf empty"
    and get_ins: "wf m \<Longrightarrow> get (ins k v m) = (get m)(k \<mapsto> v)"
    and wf_ins: "wf m \<Longrightarrow> wf (ins k v m)"
    and keys_ordered: "wf m \<Longrightarrow> sorted_wrt (<) (keys m)"
    and keys_dom: "wf m \<Longrightarrow> set (keys m) = dom (get m)"
begin

lemma wf_fold_ins: "wf m \<Longrightarrow> wf (fold (\<lambda>x m. ins (f x) (g x m) m) xs m)"
  by (induction xs arbitrary: m) (auto simp: wf_ins)

lemma wf_fold_cond:
  "wf m \<Longrightarrow> wf (fold (\<lambda>x m. if c x m then m else ins (f x) (g x m) m) xs m)"
  by (induction xs arbitrary: m) (auto simp: wf_ins)

lemma dom_fold_ins:
  "wf m \<Longrightarrow> dom (get (fold (\<lambda>x m. ins (f x) (g x m) m) xs m)) = dom (get m) \<union> f ` set xs"
  by (induction xs arbitrary: m) (auto simp: wf_ins get_ins)

lemma get_fold_other:
  "wf m \<Longrightarrow> k \<notin> f ` set xs \<Longrightarrow> get (fold (\<lambda>x m. ins (f x) (g x m) m) xs m) k = get m k"
  by (induction xs arbitrary: m) (auto simp: wf_ins get_ins)

lemma get_fold_once:
  assumes "wf m" and "distinct (map f xs)" and "x \<in> set xs"
    and local: "\<And>m m' y. get m (f y) = get m' (f y) \<Longrightarrow> g y m = g y m'"
  shows "get (fold (\<lambda>x m. ins (f x) (g x m) m) xs m) (f x) = Some (g x m)"
  using assms(1-3)
proof (induction xs arbitrary: m)
  case (Cons y ys)
  let ?m = "ins (f y) (g y m) m"
  have wf: "wf ?m" using Cons.prems by (simp add: wf_ins)
  show ?case
  proof (cases "x = y")
    case True
    then have "f x \<notin> f ` set ys" using Cons.prems by auto
    then show ?thesis using True wf Cons.prems by (simp add: get_fold_other get_ins)
  next
    case False
    then have x: "x \<in> set ys" using Cons.prems by simp
    then have "f x \<noteq> f y" using Cons.prems by (metis distinct.simps(2) image_eqI list.set_map list.simps(9))
    then have "g x ?m = g x m" using Cons.prems by (intro local) (simp add: get_ins)
    then show ?thesis using Cons.IH [OF wf] Cons.prems x by simp
  qed
qed simp

end

interpretation bt: ordered_map "[]" bt_insert map_of "map fst" bt_wf
proof
  fix m :: "('k::linorder, 'v) btree"
  show "bt_wf m \<Longrightarrow> set (map fst m) = dom (map_of m)" by (simp add: dom_map_of_conv_image_fst)
  show "bt_wf m \<Longrightarrow> sorted_wrt (<) (map fst m)" by (simp add: bt_wf_def)
qed (auto simp: bt_get_insert bt_wf_insert)

lemma bt_of_list_wf: "bt_wf (bt_of_list xs)"
  using bt.wf_fold_ins [of "[]" fst "\<lambda>x _. snd x" xs] by (simp add: bt_of_list_def case_prod_unfold)

subsection \<open>Hash maps\<close>

text \<open>
  A \<^verbatim>\<open>HashMap\<close> filled by inserting pairs: when equal keys carry equal values, the map holds
  exactly the pairs.
\<close>

definition hm_of_pairs :: "('k \<times> 'v) list \<Rightarrow> ('k, 'v) hmap" where
  "hm_of_pairs ps = fold (\<lambda>(k, v) m. AList.update k v m) ps []"

lemma hm_of_pairs_snoc: "hm_of_pairs (ps @ [(k, v)]) = AList.update k v (hm_of_pairs ps)"
  by (simp add: hm_of_pairs_def)

definition functional_pairs :: "('k \<times> 'v) list \<Rightarrow> bool" where
  "functional_pairs ps \<longleftrightarrow> (\<forall>k v w. (k, v) \<in> set ps \<longrightarrow> (k, w) \<in> set ps \<longrightarrow> v = w)"

lemma functional_pairs_snocD:
  assumes "functional_pairs (ps @ [(a, b)])"
  shows "functional_pairs ps" and "(a, v) \<in> set ps \<Longrightarrow> v = b"
proof -
  have sub: "p \<in> set ps \<Longrightarrow> p \<in> set (ps @ [(a, b)])" "(a, b) \<in> set (ps @ [(a, b)])" for p by simp_all
  show "functional_pairs ps" using assms sub(1) unfolding functional_pairs_def by blast
  show "(a, v) \<in> set ps \<Longrightarrow> v = b" using assms sub unfolding functional_pairs_def by blast
qed

lemma hm_of_pairs_get:
  assumes "functional_pairs ps"
  shows "map_of (hm_of_pairs ps) k = Some v \<longleftrightarrow> (k, v) \<in> set ps"
  using assms
proof (induction ps rule: rev_induct)
  case (snoc p ps)
  obtain a b where p: "p = (a, b)" by (cases p)
  note f = functional_pairs_snocD [OF snoc.prems [unfolded p]]
  show ?case using snoc.IH [OF f(1)] f(2) [of v] by (auto simp: p hm_of_pairs_snoc update_conv)
qed (simp add: hm_of_pairs_def)

lemma hm_of_pairs_distinct: "distinct (map fst (hm_of_pairs ps))"
proof (induction ps rule: rev_induct)
  case (snoc p ps)
  then show ?case by (cases p) (simp add: hm_of_pairs_snoc distinct_update)
qed (simp add: hm_of_pairs_def)

end
