(* ===== verification/Sleet_Text.thy ===== *)
theory Sleet_Text
  imports Sleet_Collections
begin

text \<open>
  Text conversions of the standard library: decimal formatting (\<^verbatim>\<open>to_string\<close>, \<^verbatim>\<open>{id:020}\<close>),
  \<^verbatim>\<open>str::parse::<u64>\<close> (an optional \<open>+\<close>, at least one digit, no overflow) and the
  well-formedness check of \<^verbatim>\<open>std::str::from_utf8\<close>.
\<close>

subsection \<open>Decimal numbers\<close>

definition digit_char :: "nat \<Rightarrow> char" where
  "digit_char d = char_of (48 + d)"

definition digit_val :: "char \<Rightarrow> nat" where
  "digit_val c = byte_of c - 48"

fun show_nat :: "nat \<Rightarrow> string" where
  "show_nat n = (if n < 10 then [digit_char n] else show_nat (n div 10) @ [digit_char (n mod 10)])"

declare show_nat.simps [simp del]

definition dec_value :: "string \<Rightarrow> nat" where
  "dec_value s = foldl (\<lambda>a c. a * 10 + digit_val c) 0 s"

definition parse_u64 :: "string \<Rightarrow> nat option" where
  "parse_u64 s =
     (let ds = (case s of [] \<Rightarrow> [] | c # cs \<Rightarrow> if c = CHR ''+'' then cs else s) in
      if ds \<noteq> [] \<and> list_all is_digit ds \<and> dec_value ds < 2 ^ 64 then Some (dec_value ds) else None)"

definition zero_pad :: "nat \<Rightarrow> string \<Rightarrow> string" where
  "zero_pad w s = replicate (w - length s) (CHR ''0'') @ s"

definition fmt_020 :: "nat \<Rightarrow> string" where
  "fmt_020 n = zero_pad 20 (show_nat n)"

lemma byte_of_digit_char: "d < 10 \<Longrightarrow> byte_of (digit_char d) = 48 + d"
  by (simp add: byte_of_def digit_char_def)

lemma is_digit_digit_char [simp]: "d < 10 \<Longrightarrow> is_digit (digit_char d)"
  by (simp add: is_digit_def between_def byte_of_digit_char)

lemma digit_val_digit_char [simp]: "d < 10 \<Longrightarrow> digit_val (digit_char d) = d"
  by (simp add: digit_val_def byte_of_digit_char)

lemma digit_val_bound: "is_digit c \<Longrightarrow> digit_val c < 10"
  by (auto simp: is_digit_def between_def digit_val_def)

lemma zero_is_digit: "is_digit (CHR ''0'')" "digit_val (CHR ''0'') = 0"
  by (simp_all add: is_digit_def between_def digit_val_def byte_of_def)

lemma not_digit_plus: "\<not> is_digit (CHR ''+'')"
  by (simp add: is_digit_def between_def byte_of_def)

lemma dec_value_snoc: "dec_value (s @ [c]) = dec_value s * 10 + digit_val c"
  by (simp add: dec_value_def)

lemma dec_value_Nil [simp]: "dec_value [] = 0"
  by (simp add: dec_value_def)

lemma dec_value_Cons: "dec_value (c # s) = digit_val c * 10 ^ length s + dec_value s"
  by (induction s rule: rev_induct)
     (simp_all add: dec_value_snoc algebra_simps dec_value_def)

lemma dec_value_zeros [simp]: "dec_value (replicate k (CHR ''0'') @ s) = dec_value s"
  by (induction k) (simp_all add: dec_value_Cons zero_is_digit)

lemma show_nat_value: "dec_value (show_nat n) = n"
  by (induction n rule: show_nat.induct) (subst show_nat.simps, simp add: dec_value_snoc dec_value_Cons)

lemma show_nat_digits: "list_all is_digit (show_nat n)"
  by (induction n rule: show_nat.induct) (subst show_nat.simps, simp)

lemma show_nat_nonempty: "show_nat n \<noteq> []"
  by (subst show_nat.simps) simp

lemma parse_u64_digits:
  assumes "ds \<noteq> []" and "list_all is_digit ds" and "dec_value ds < 2 ^ 64"
  shows "parse_u64 ds = Some (dec_value ds)"
proof -
  obtain c cs where ds: "ds = c # cs" using assms(1) by (cases ds) auto
  with assms(2) have "c \<noteq> CHR ''+''" using not_digit_plus by auto
  with assms ds show ?thesis by (simp add: parse_u64_def)
qed

lemma parse_u64_show: "n < 2 ^ 64 \<Longrightarrow> parse_u64 (show_nat n) = Some n"
  using parse_u64_digits [of "show_nat n"] show_nat_nonempty show_nat_digits
  by (simp add: show_nat_value)

lemma parse_u64_bound: "parse_u64 s = Some n \<Longrightarrow> n < 2 ^ 64"
  by (auto simp: parse_u64_def Let_def split: if_splits)

lemma fmt_020_digits: "list_all is_digit (fmt_020 n)" "fmt_020 n \<noteq> []"
  using show_nat_digits [of n] show_nat_nonempty [of n]
  by (auto simp: fmt_020_def zero_pad_def zero_is_digit list_all_iff)

lemma fmt_020_value: "dec_value (fmt_020 n) = n"
  by (simp add: fmt_020_def zero_pad_def show_nat_value)

lemma parse_u64_fmt_020: "n < 2 ^ 64 \<Longrightarrow> parse_u64 (fmt_020 n) = Some n"
  using parse_u64_digits [of "fmt_020 n"] by (simp add: fmt_020_digits fmt_020_value)

lemma fmt_020_inject [simp]: "fmt_020 a = fmt_020 b \<longleftrightarrow> a = b"
  by (metis fmt_020_value)

lemma show_nat_inject [simp]: "show_nat a = show_nat b \<longleftrightarrow> a = b"
  by (metis show_nat_value)

lemma length_show_nat: "0 < k \<Longrightarrow> n < 10 ^ k \<Longrightarrow> length (show_nat n) \<le> k"
proof (induction k arbitrary: n)
  case (Suc k)
  show ?case
  proof (cases "n < 10")
    case True
    then show ?thesis by (subst show_nat.simps) simp
  next
    case False
    then have "0 < k" using Suc.prems by (cases k) auto
    moreover have "n div 10 < 10 ^ k" using Suc.prems by auto
    ultimately have "length (show_nat (n div 10)) \<le> k" by (rule Suc.IH)
    then show ?thesis using False by (subst show_nat.simps) simp
  qed
qed simp

lemma length_fmt_020: "n < 10 ^ 20 \<Longrightarrow> length (fmt_020 n) = 20"
  using length_show_nat [of 20 n] by (simp add: fmt_020_def zero_pad_def)

lemma dec_value_bound: "list_all is_digit s \<Longrightarrow> dec_value s < 10 ^ length s"
proof (induction s rule: rev_induct)
  case (snoc c s)
  then have "dec_value s + 1 \<le> 10 ^ length s" and "digit_val c < 10"
    using digit_val_bound by auto
  then show ?case by (simp add: dec_value_snoc)
qed simp

lemma digit_less: "is_digit c \<Longrightarrow> is_digit d \<Longrightarrow> c < d \<longleftrightarrow> digit_val c < digit_val d"
  by (auto simp: is_digit_def between_def digit_val_def byte_of_def less_char_def)

lemma digit_eq: "is_digit c \<Longrightarrow> is_digit d \<Longrightarrow> c = d \<longleftrightarrow> digit_val c = digit_val d"
  by (metis byte_of_inject digit_val_def is_digit_def between_def le_add_diff_inverse)

lemma place_value_less:
  fixes a b :: nat
  assumes "x < p" and "y < p"
  shows "a * p + x < b * p + y \<longleftrightarrow> a < b \<or> a = b \<and> x < y"
proof -
  have less: "c * p + u < d * p + v" if "c < d" and "u < p" for c d u v :: nat
  proof -
    have "c * p + u < Suc c * p" using that by simp
    also have "\<dots> \<le> d * p" using that by (intro mult_le_mono1) simp
    finally show ?thesis by simp
  qed
  show ?thesis using less [of a b x y] less [of b a y x] assms by (cases a b rule: linorder_cases) auto
qed

lemma digits_less:
  "length s = length t \<Longrightarrow> list_all is_digit s \<Longrightarrow> list_all is_digit t \<Longrightarrow>
     s < t \<longleftrightarrow> dec_value s < dec_value t"
proof (induction s t rule: list_induct2)
  case (Cons c s d t)
  have "dec_value s < 10 ^ length s" "dec_value t < 10 ^ length s"
    using Cons.prems Cons.hyps dec_value_bound [of s] dec_value_bound [of t] by auto
  then show ?case
    using Cons by (simp add: dec_value_Cons place_value_less digit_less digit_eq)
qed simp

lemma fmt_020_less: "a < 10 ^ 20 \<Longrightarrow> b < 10 ^ 20 \<Longrightarrow> fmt_020 a < fmt_020 b \<longleftrightarrow> a < b"
  using digits_less [of "fmt_020 a" "fmt_020 b"]
  by (simp add: length_fmt_020 fmt_020_digits fmt_020_value)

subsection \<open>UTF-8\<close>

abbreviation cont :: "char \<Rightarrow> bool" where
  "cont c \<equiv> between 128 191 c"

fun utf8_valid :: "string \<Rightarrow> bool" where
  "utf8_valid [] = True"
| "utf8_valid (a # s) =
     (if between 0 127 a then utf8_valid s
      else if between 194 223 a then
        (case s of b # s' \<Rightarrow> cont b \<and> utf8_valid s' | _ \<Rightarrow> False)
      else if between 224 239 a then
        (case s of b # c # s' \<Rightarrow>
           (if byte_of a = 224 then between 160 191 b
            else if byte_of a = 237 then between 128 159 b else cont b)
           \<and> cont c \<and> utf8_valid s'
         | _ \<Rightarrow> False)
      else if between 240 244 a then
        (case s of b # c # d # s' \<Rightarrow>
           (if byte_of a = 240 then between 144 191 b
            else if byte_of a = 244 then between 128 143 b else cont b)
           \<and> cont c \<and> cont d \<and> utf8_valid s'
         | _ \<Rightarrow> False)
      else False)"

definition from_utf8 :: "string \<Rightarrow> string option" where
  "from_utf8 b = (if utf8_valid b then Some b else None)"

lemma ascii_utf8_valid: "list_all (between 0 127) s \<Longrightarrow> utf8_valid s"
  by (induction s) auto

end
