(* ===== verification/Registry.thy ===== *)
theory Registry
  imports Sleet_Text
begin

text \<open>
  \<^verbatim>\<open>src/registry.rs\<close>: canonical database URLs and the registry file names they encode to.

  The \<^verbatim>\<open>url\<close> and \<^verbatim>\<open>percent_encoding\<close> crates are parameters, the record \<open>crates\<close>. A
  parsed \<^verbatim>\<open>Url\<close> is represented by its serialization, which is what \<^verbatim>\<open>as_str\<close> returns and
  what \<^verbatim>\<open>Url\<close> equality compares; the other fields are its accessors. What the registry
  relies on is the predicate \<open>percent_documented\<close>, the documented behaviour of percent
  encoding and decoding, and it is met by the reference functions below.
\<close>

record crates =
  url_parse :: "string \<Rightarrow> string + string"
  url_scheme :: "string \<Rightarrow> string"
  url_host_str :: "string \<Rightarrow> string option"
  url_set_host :: "string \<Rightarrow> string \<Rightarrow> string + string"
  pe_non_alphanumeric :: "char \<Rightarrow> bool"
  pe_encode :: "(char \<Rightarrow> bool) \<Rightarrow> string \<Rightarrow> string"
  pe_decode :: "string \<Rightarrow> string"

definition URL_SCHEMES :: "string list" where
  "URL_SCHEMES = [''s3'', ''s3a'', ''gs'', ''az'', ''adl'', ''azure'', ''abfs'', ''abfss'', ''file'',
     ''memory'', ''http'', ''https'']"

definition ENCODE_SET :: "crates \<Rightarrow> char \<Rightarrow> bool" where
  "ENCODE_SET X c \<longleftrightarrow>
     pe_non_alphanumeric X c
     \<and> c \<noteq> CHR ''-'' \<and> c \<noteq> CHR ''.'' \<and> c \<noteq> CHR ''_'' \<and> c \<noteq> CHR ''~''"

definition MAX_FILE_NAME :: nat where
  "MAX_FILE_NAME = 900"

datatype url_error =
    Invalid string string
  | UnsupportedScheme string
  | TooLong nat

definition canonicalize_url :: "crates \<Rightarrow> string \<Rightarrow> url_error + string" where
  "canonicalize_url X url =
     (case url_parse X url of
        Inl source \<Rightarrow> Inl (Invalid url source)
      | Inr parsed \<Rightarrow>
          if url_scheme X parsed \<notin> set URL_SCHEMES
          then Inl (UnsupportedScheme (url_scheme X parsed))
          else
            (case (case url_host_str X parsed of
                     Some host \<Rightarrow>
                       if list_ex is_ascii_uppercase host
                       then (case url_set_host X parsed (to_ascii_lowercase host) of
                               Inl source \<Rightarrow> Inl (Invalid url source)
                             | Inr parsed' \<Rightarrow> Inr parsed')
                       else Inr parsed
                   | None \<Rightarrow> Inr parsed) of
               Inl e \<Rightarrow> Inl e
             | Inr parsed' \<Rightarrow> Inr (trim_end_matches parsed' (CHR ''/''))))"

definition file_name :: "crates \<Rightarrow> string \<Rightarrow> string" where
  "file_name X canonical_url = pe_encode X (ENCODE_SET X) canonical_url @ ''.toml''"

definition canonicalize_database_url :: "crates \<Rightarrow> string \<Rightarrow> url_error + string" where
  "canonicalize_database_url X url =
     (case canonicalize_url X url of
        Inl e \<Rightarrow> Inl e
      | Inr canonical \<Rightarrow>
          (let len = length (file_name X canonical) in
           if MAX_FILE_NAME < len then Inl (TooLong len) else Inr canonical))"

definition parse_file_name :: "crates \<Rightarrow> string \<Rightarrow> string option" where
  "parse_file_name X name =
     (case strip_suffix name ''.toml'' of
        None \<Rightarrow> None
      | Some encoded \<Rightarrow> from_utf8 (pe_decode X encoded))"

subsection \<open>Documented behaviour of percent encoding\<close>

definition hex_digit :: "nat \<Rightarrow> char" where
  "hex_digit n = (if n < 10 then char_of (48 + n) else char_of (55 + n))"

definition hex_val :: "char \<Rightarrow> nat option" where
  "hex_val c =
     (if between 48 57 c then Some (byte_of c - 48)
      else if between 65 70 c then Some (byte_of c - 55)
      else if between 97 102 c then Some (byte_of c - 87) else None)"

definition pct_byte :: "(char \<Rightarrow> bool) \<Rightarrow> char \<Rightarrow> string" where
  "pct_byte S c =
     (if \<not> between 0 127 c \<or> S c
      then [CHR ''%'', hex_digit (byte_of c div 16), hex_digit (byte_of c mod 16)] else [c])"

definition pct_encode :: "(char \<Rightarrow> bool) \<Rightarrow> string \<Rightarrow> string" where
  "pct_encode S s = concat (map (pct_byte S) s)"

fun pct_decode :: "string \<Rightarrow> string" where
  "pct_decode (c # h # l # s) =
     (if c = CHR ''%'' then
        (case (hex_val h, hex_val l) of
           (Some a, Some b) \<Rightarrow> char_of (a * 16 + b) # pct_decode s
         | _ \<Rightarrow> c # pct_decode (h # l # s))
      else c # pct_decode (h # l # s))"
| "pct_decode s = s"

definition percent_documented :: "crates \<Rightarrow> bool" where
  "percent_documented X \<longleftrightarrow>
     (\<forall>c. pe_non_alphanumeric X c \<longleftrightarrow> between 0 127 c \<and> \<not> is_ascii_alphanumeric c)
     \<and> (\<forall>S s. pe_encode X S s = pct_encode S s)
     \<and> (\<forall>s. pe_decode X s = pct_decode s)"

text \<open>A concrete instance of the crates: a small URL splitter and the reference encoders.\<close>

definition demo_crates :: crates where
  "demo_crates =
     \<lparr>url_parse = (\<lambda>s. if s = [] then Inl ''relative URL without a base'' else Inr s),
      url_scheme = takeWhile (\<lambda>c. c \<noteq> CHR '':''),
      url_host_str = (\<lambda>s. case drop 3 (dropWhile (\<lambda>c. c \<noteq> CHR '':'') s) of [] \<Rightarrow> None
         | r \<Rightarrow> Some (takeWhile (\<lambda>c. c \<noteq> CHR ''/'') r)),
      url_set_host = (\<lambda>s h. Inr (takeWhile (\<lambda>c. c \<noteq> CHR '':'') s @ ''://'' @ h @
         dropWhile (\<lambda>c. c \<noteq> CHR ''/'') (drop 3 (dropWhile (\<lambda>c. c \<noteq> CHR '':'') s)))),
      pe_non_alphanumeric = (\<lambda>c. between 0 127 c \<and> \<not> is_ascii_alphanumeric c),
      pe_encode = pct_encode, pe_decode = pct_decode\<rparr>"

lemma demo_crates_documented: "percent_documented demo_crates"
  by (simp add: percent_documented_def demo_crates_def)

subsection \<open>Percent encoding round trip\<close>

lemma hex_val_digit: "n < 16 \<Longrightarrow> hex_val (hex_digit n) = Some n"
  by (auto simp: hex_val_def hex_digit_def between_def byte_of_def)

lemma hex_digit_safe: "n < 16 \<Longrightarrow> is_ascii_alphanumeric (hex_digit n)"
  by (auto simp: is_ascii_alphanumeric_def is_digit_def is_ascii_uppercase_def hex_digit_def
      between_def byte_of_def)

lemma byte_split: "byte_of c div 16 < 16" "byte_of c mod 16 < 16"
  using byte_of_bound [of c] by auto

lemma pct_decode_plain: "c \<noteq> CHR ''%'' \<Longrightarrow> pct_decode (c # s) = c # pct_decode s"
  by (cases s; cases "tl s") auto

lemma pct_decode_byte:
  assumes "S (CHR ''%'')"
  shows "pct_decode (pct_byte S c @ s) = c # pct_decode s"
proof (cases "\<not> between 0 127 c \<or> S c")
  case True
  have "byte_of c div 16 * 16 + byte_of c mod 16 = byte_of c" by simp
  then show ?thesis using True by (simp add: pct_byte_def hex_val_digit byte_split)
next
  case False
  then have "c \<noteq> CHR ''%''" using assms by auto
  with False show ?thesis by (simp add: pct_byte_def pct_decode_plain)
qed

lemma pct_roundtrip: "S (CHR ''%'') \<Longrightarrow> pct_decode (pct_encode S s) = s"
  by (induction s) (simp_all add: pct_encode_def pct_decode_byte)

lemma encode_set_percent: "percent_documented X \<Longrightarrow> ENCODE_SET X (CHR ''%'')"
  by (simp add: percent_documented_def ENCODE_SET_def is_ascii_alphanumeric_def is_digit_def
      is_ascii_uppercase_def between_def byte_of_def)

lemma file_name_eq:
  "percent_documented X \<Longrightarrow> file_name X u = pct_encode (ENCODE_SET X) u @ ''.toml''"
  by (simp add: file_name_def percent_documented_def)

lemma parse_file_name_eq:
  "percent_documented X \<Longrightarrow>
     parse_file_name X name = Option.bind (strip_suffix name ''.toml'') (\<lambda>e. from_utf8 (pct_decode e))"
  by (auto simp: parse_file_name_def percent_documented_def split: option.splits)

lemma pct_byte_unreserved:
  assumes "percent_documented X" and "d \<in> set (pct_byte (ENCODE_SET X) c)"
  shows "is_ascii_alphanumeric d \<or> d \<in> set ''%-._~''"
  using assms hex_digit_safe byte_split
  by (auto simp: pct_byte_def ENCODE_SET_def percent_documented_def split: if_splits)

lemma toml_chars: "c \<in> set ''.toml'' \<Longrightarrow> is_ascii_alphanumeric c \<or> c \<in> set ''%-._~''"
proof -
  have "list_all (\<lambda>c. is_ascii_alphanumeric c \<or> c \<in> set ''%-._~'') ''.toml''"
    by (simp add: is_ascii_alphanumeric_def between_def byte_of_def)
  then show "c \<in> set ''.toml'' \<Longrightarrow> is_ascii_alphanumeric c \<or> c \<in> set ''%-._~''"
    unfolding list_all_iff by blast
qed

lemma file_name_parses:
  assumes "percent_documented X" and "utf8_valid url"
  shows "parse_file_name X (file_name X url) = Some url"
  using assms
  by (simp add: parse_file_name_eq file_name_eq pct_roundtrip encode_set_percent from_utf8_def)

text \<open>
  C36. A registry file name decodes to exactly the URL it was made from, for every URL that is
  a Rust string (valid UTF-8): registering and listing agree on the database's identity.
\<close>

theorem file_name_roundtrip:
  assumes "percent_documented X" and "utf8_valid url"
  shows "parse_file_name X (file_name X url) = Some url"
  by (rule file_name_parses [OF assms])

theorem file_name_roundtrip_witness:
  "parse_file_name demo_crates (file_name demo_crates ''s3://bucket/tenants/acme db'')
     = Some ''s3://bucket/tenants/acme db''"
  by (rule file_name_roundtrip [OF demo_crates_documented])
     (simp add: ascii_utf8_valid between_def byte_of_def)

text \<open>
  Two URLs share a registry file only if they are the same URL, and a registry file name
  consists of letters, digits and the five characters percent, hyphen, dot, underscore and
  tilde: it has no slash, so it is a single object key segment.
\<close>

theorem file_name_safe_and_injective:
  assumes "percent_documented X"
  shows "(utf8_valid a \<and> utf8_valid b \<and> file_name X a = file_name X b \<longrightarrow> a = b)
    \<and> (\<forall>c \<in> set (file_name X a). is_ascii_alphanumeric c \<or> c \<in> set ''%-._~'')
    \<and> CHR ''/'' \<notin> set (file_name X a)"
proof (intro conjI impI ballI)
  assume "utf8_valid a \<and> utf8_valid b \<and> file_name X a = file_name X b"
  then show "a = b"
    using assms pct_roundtrip [where S = "ENCODE_SET X"] encode_set_percent
    by (metis file_name_eq append_same_eq)
next
  have chars: "is_ascii_alphanumeric c \<or> c \<in> set ''%-._~''" if "c \<in> set (file_name X a)" for c
  proof -
    have "(\<exists>b. c \<in> set (pct_byte (ENCODE_SET X) b)) \<or> c \<in> set ''.toml''"
      using that assms by (auto simp: file_name_eq pct_encode_def)
    then show ?thesis using pct_byte_unreserved [OF assms] toml_chars by blast
  qed
  then show "is_ascii_alphanumeric c \<or> c \<in> set ''%-._~''" if "c \<in> set (file_name X a)" for c
    using that .
  show "CHR ''/'' \<notin> set (file_name X a)"
    using chars [of "CHR ''/''"]
    by (auto simp: is_ascii_alphanumeric_def is_digit_def is_ascii_uppercase_def between_def byte_of_def)
qed

theorem file_name_safe_and_injective_witness:
  "CHR ''/'' \<notin> set (file_name demo_crates ''s3://b/db'')"
  using file_name_safe_and_injective [OF demo_crates_documented, of "''s3://b/db''" "''s3://b/db''"]
  by simp

text \<open>
  What \<^verbatim>\<open>canonicalize_database_url\<close> accepts: exactly the URLs that parse, whose scheme is
  one of the object-store schemes, whose upper-case host (if any) can be folded, and whose
  registry file name fits 900 bytes; an accepted URL never ends in a slash.
\<close>

theorem canonicalize_database_url_accepts:
  "canonicalize_database_url X url = Inr c \<longleftrightarrow>
     (\<exists>parsed parsed'. url_parse X url = Inr parsed
        \<and> url_scheme X parsed \<in> set URL_SCHEMES
        \<and> (case url_host_str X parsed of
             Some host \<Rightarrow>
               if \<exists>h \<in> set host. is_ascii_uppercase h
               then url_set_host X parsed (to_ascii_lowercase host) = Inr parsed'
               else parsed' = parsed
           | None \<Rightarrow> parsed' = parsed)
        \<and> c = trim_end_matches parsed' (CHR ''/'')
        \<and> (c = [] \<or> last c \<noteq> CHR ''/'')
        \<and> length (file_name X c) \<le> 900)"
proof -
  have slash: "trim_end_matches p (CHR ''/'') = [] \<or> last (trim_end_matches p (CHR ''/'')) \<noteq> CHR ''/''"
    for p by (rule trim_end_matches_no_end)
  show ?thesis
    using slash
    by (cases "url_parse X url")
       (auto simp: canonicalize_database_url_def canonicalize_url_def MAX_FILE_NAME_def Let_def
         list_ex_iff not_less split: option.splits sum.splits if_splits)
qed

theorem canonicalize_database_url_accepts_witness:
  "canonicalize_database_url demo_crates ''s3://B/db/'' = Inr ''s3://b/db'' \<and> length (file_name demo_crates ''s3://b/db'') \<le> 900"
proof -
  have "canonicalize_database_url demo_crates ''s3://B/db/'' = Inr ''s3://b/db''" by code_simp
  then show ?thesis
    using canonicalize_database_url_accepts [of demo_crates "''s3://B/db/''" "''s3://b/db''"] by blast
qed

end
