(* ===== verification/Config.thy ===== *)
theory Config
  imports Registry
begin

text \<open>
  \<^verbatim>\<open>src/config.rs\<close>, first half: the fleet configuration as it is written in \<^verbatim>\<open>sleet.toml\<close> and
  \<^verbatim>\<open>dbs/<db>.toml\<close> (the \<^verbatim>\<open>*Overrides\<close> records, every field optional), the resolved settings
  (the \<^verbatim>\<open>Resolved*\<close> records) with their built-in defaults, and the layering \<open>resolve\<close>: defaults,
  then \<^verbatim>\<open>[database]\<close>, then the database's own file.

  Field names carry a short prefix per record, since field selectors share one name space. An
  unsigned integer is a \<^typ>\<open>nat\<close>; \<^verbatim>\<open>f32\<close> is a finite \<open>m * 2 ^ e\<close>, an infinity or NaN, all that
  the sources ask of it being its sign and finiteness.
\<close>

datatype service = Gc | CompactorCoordinator | CompactionWorkers | Mirror

fun service_index :: "service \<Rightarrow> nat" where
  "service_index Gc = 0"
| "service_index CompactorCoordinator = 1"
| "service_index CompactionWorkers = 2"
| "service_index Mirror = 3"

lemma service_index_inject: "service_index a = service_index b \<longleftrightarrow> a = b"
  by (cases a; cases b) auto

instantiation service :: linorder
begin

definition less_eq_service :: "service \<Rightarrow> service \<Rightarrow> bool" where
  "less_eq_service a b \<longleftrightarrow> service_index a \<le> service_index b"

definition less_service :: "service \<Rightarrow> service \<Rightarrow> bool" where
  "less_service a b \<longleftrightarrow> service_index a < service_index b"

instance
  by standard (auto simp: less_eq_service_def less_service_def service_index_inject)

end

fun as_str :: "service \<Rightarrow> string" where
  "as_str Gc = ''gc''"
| "as_str CompactorCoordinator = ''compactor-coordinator''"
| "as_str CompactionWorkers = ''compaction-workers''"
| "as_str Mirror = ''mirror''"

fun letter :: "service \<Rightarrow> char" where
  "letter Gc = CHR ''g''"
| "letter CompactorCoordinator = CHR ''c''"
| "letter CompactionWorkers = CHR ''w''"
| "letter Mirror = CHR ''m''"

definition from_letter :: "char \<Rightarrow> service option" where
  "from_letter c =
     (if c = CHR ''g'' then Some Gc
      else if c = CHR ''c'' then Some CompactorCoordinator
      else if c = CHR ''w'' then Some CompactionWorkers
      else if c = CHR ''m'' then Some Mirror
      else None)"

definition ALL_SERVICES :: "service list" where
  "ALL_SERVICES = [Gc, CompactorCoordinator, CompactionWorkers, Mirror]"

lemma from_letter_letter [simp]: "from_letter (letter s) = Some s"
  by (cases s) (simp_all add: from_letter_def)

lemma letter_inject [simp]: "letter a = letter b \<longleftrightarrow> a = b"
  by (metis from_letter_letter option.inject)

lemma as_str_inject [simp]: "as_str a = as_str b \<longleftrightarrow> a = b"
  by (cases a; cases b) auto

lemma ALL_SERVICES_complete: "s \<in> set ALL_SERVICES"
  by (cases s) (simp_all add: ALL_SERVICES_def)

datatype f32 = Finite int int | Infinite | NaN

fun positive_number :: "f32 \<Rightarrow> bool" where
  "positive_number (Finite m e) \<longleftrightarrow> 0 < m"
| "positive_number Infinite \<longleftrightarrow> False"
| "positive_number NaN \<longleftrightarrow> False"

subsection \<open>The written configuration\<close>

record node_config =
  heartbeat_interval :: duration
  heartbeat_timeout :: duration
  config_poll :: duration

definition default_node_config :: node_config where
  "default_node_config =
     \<lparr>heartbeat_interval = from_secs 10, heartbeat_timeout = from_secs 30, config_poll = from_secs 60\<rparr>"

record gc_directory_overrides =
  gdo_enabled :: "bool option"
  gdo_interval :: "duration option"
  gdo_min_age :: "duration option"
  gdo_dry_run :: "bool option"

record gc_detach_overrides =
  gto_enabled :: "bool option"
  gto_interval :: "duration option"

record gc_overrides =
  go_manifest :: "gc_directory_overrides option"
  go_wal :: "gc_directory_overrides option"
  go_wal_fence :: "gc_directory_overrides option"
  go_compacted :: "gc_directory_overrides option"
  go_compactions :: "gc_directory_overrides option"
  go_detach :: "gc_detach_overrides option"

record scheduler_overrides =
  so_min_compaction_sources :: "nat option"
  so_max_compaction_sources :: "nat option"
  so_include_size_threshold :: "f32 option"

record coordinator_overrides =
  co_poll_interval :: "duration option"
  co_manifest_update_timeout :: "duration option"
  co_max_concurrent_compactions :: "nat option"
  co_commit_compacted_interval :: "duration option"
  co_worker_heartbeat_timeout :: "duration option"
  co_scheduler :: "scheduler_overrides option"

datatype compression_codec = Snappy | Zlib | Lz4 | Zstd

record workers_overrides =
  wo_count :: "nat option"
  wo_max_concurrent_compactions :: "nat option"
  wo_compactions_poll_interval :: "duration option"
  wo_heartbeat_bytes :: "nat option"
  wo_heartbeat_min_interval :: "duration option"
  wo_max_sst_size :: "nat option"
  wo_max_fetch_tasks :: "nat option"
  wo_bytes_to_fetch :: "nat option"
  wo_max_subcompactions :: "nat option"
  wo_min_filter_keys :: "nat option"
  wo_compression_codec :: "compression_codec option"

datatype mirror_mode = Continuous | Periodic

datatype copier_kind = Builtin | Rclone | External

record retention_overrides =
  ro_keep :: "duration option"

record mirror_target_overrides =
  mto_url :: "string option"
  mto_source_prefix :: "string option"
  mto_disabled :: "bool option"
  mto_mode :: "mirror_mode option"
  mto_copier :: "copier_kind option"
  mto_poll :: "duration option"
  mto_interval :: "duration option"
  mto_min_age :: "duration option"
  mto_checkpoint_lifetime :: "duration option"
  mto_copy_parallelism :: "nat option"
  mto_retention :: "retention_overrides option"

record mirror_overrides =
  mo_targets :: "(string, mirror_target_overrides) btree"

record database_config =
  dc_services :: "service list option"
  dc_gc :: "gc_overrides option"
  dc_compactor_coordinator :: "coordinator_overrides option"
  dc_compaction_workers :: "workers_overrides option"
  dc_mirror :: "mirror_overrides option"

definition default_database_config :: database_config where
  "default_database_config =
     \<lparr>dc_services = None, dc_gc = None, dc_compactor_coordinator = None,
      dc_compaction_workers = None, dc_mirror = None\<rparr>"

record sleet_config =
  sc_node :: node_config
  sc_database :: database_config

definition default_sleet_config :: sleet_config where
  "default_sleet_config = \<lparr>sc_node = default_node_config, sc_database = default_database_config\<rparr>"

subsection \<open>The resolved configuration and its defaults\<close>

record resolved_gc_directory =
  rgd_enabled :: bool
  rgd_interval :: duration
  rgd_min_age :: duration
  rgd_dry_run :: bool

definition default_resolved_gc_directory :: resolved_gc_directory where
  "default_resolved_gc_directory =
     \<lparr>rgd_enabled = True, rgd_interval = from_secs 60, rgd_min_age = from_secs 300, rgd_dry_run = False\<rparr>"

record resolved_gc_detach =
  rgt_enabled :: bool
  rgt_interval :: duration

definition default_resolved_gc_detach :: resolved_gc_detach where
  "default_resolved_gc_detach = \<lparr>rgt_enabled = True, rgt_interval = from_secs 60\<rparr>"

record resolved_gc =
  rg_manifest :: resolved_gc_directory
  rg_wal :: resolved_gc_directory
  rg_wal_fence :: resolved_gc_directory
  rg_compacted :: resolved_gc_directory
  rg_compactions :: resolved_gc_directory
  rg_detach :: resolved_gc_detach

definition default_resolved_gc :: resolved_gc where
  "default_resolved_gc =
     (let dir = default_resolved_gc_directory in
      \<lparr>rg_manifest = dir, rg_wal = dir, rg_wal_fence = dir\<lparr>rgd_dry_run := True\<rparr>,
       rg_compacted = dir, rg_compactions = dir, rg_detach = default_resolved_gc_detach\<rparr>)"

record resolved_scheduler =
  rs_min_compaction_sources :: nat
  rs_max_compaction_sources :: nat
  rs_include_size_threshold :: f32

definition default_resolved_scheduler :: resolved_scheduler where
  "default_resolved_scheduler =
     \<lparr>rs_min_compaction_sources = 4, rs_max_compaction_sources = 8,
      rs_include_size_threshold = Finite 4 0\<rparr>"

record resolved_coordinator =
  rc_poll_interval :: duration
  rc_manifest_update_timeout :: duration
  rc_max_concurrent_compactions :: nat
  rc_commit_compacted_interval :: duration
  rc_worker_heartbeat_timeout :: duration
  rc_scheduler :: resolved_scheduler

definition default_resolved_coordinator :: resolved_coordinator where
  "default_resolved_coordinator =
     \<lparr>rc_poll_interval = from_secs 5, rc_manifest_update_timeout = from_secs 300,
      rc_max_concurrent_compactions = 4, rc_commit_compacted_interval = from_secs 1,
      rc_worker_heartbeat_timeout = from_secs 30, rc_scheduler = default_resolved_scheduler\<rparr>"

record resolved_workers =
  rw_count :: nat
  rw_max_concurrent_compactions :: nat
  rw_compactions_poll_interval :: duration
  rw_heartbeat_bytes :: nat
  rw_heartbeat_min_interval :: duration
  rw_max_sst_size :: nat
  rw_max_fetch_tasks :: nat
  rw_bytes_to_fetch :: nat
  rw_max_subcompactions :: nat
  rw_min_filter_keys :: nat
  rw_compression_codec :: "compression_codec option"

definition default_resolved_workers :: resolved_workers where
  "default_resolved_workers =
     \<lparr>rw_count = 1, rw_max_concurrent_compactions = 4, rw_compactions_poll_interval = from_secs 5,
      rw_heartbeat_bytes = 5 * 1024 * 1024, rw_heartbeat_min_interval = from_secs 5,
      rw_max_sst_size = 256 * 1024 * 1024, rw_max_fetch_tasks = 4,
      rw_bytes_to_fetch = 2 * 1024 * 1024, rw_max_subcompactions = 4, rw_min_filter_keys = 1000,
      rw_compression_codec = None\<rparr>"

record resolved_mirror_target =
  rt_url :: "string option"
  rt_source_prefix :: "string option"
  rt_disabled :: bool
  rt_mode :: mirror_mode
  rt_copier :: copier_kind
  rt_poll :: duration
  rt_interval :: duration
  rt_min_age :: duration
  rt_checkpoint_lifetime :: duration
  rt_copy_parallelism :: nat
  rt_keep :: "duration option"

definition default_resolved_mirror_target :: resolved_mirror_target where
  "default_resolved_mirror_target =
     \<lparr>rt_url = None, rt_source_prefix = None, rt_disabled = False, rt_mode = Continuous,
      rt_copier = Builtin, rt_poll = from_secs 10, rt_interval = from_secs (24 * 60 * 60),
      rt_min_age = from_secs 300, rt_checkpoint_lifetime = from_secs (15 * 60),
      rt_copy_parallelism = 8, rt_keep = None\<rparr>"

record resolved_mirror =
  rm_targets :: "(string, resolved_mirror_target) btree"

record resolved_services =
  rv_services :: "service list"
  rv_gc :: resolved_gc
  rv_coordinator :: resolved_coordinator
  rv_workers :: resolved_workers
  rv_mirror :: resolved_mirror

definition default_resolved_services :: resolved_services where
  "default_resolved_services =
     \<lparr>rv_services = ALL_SERVICES, rv_gc = default_resolved_gc,
      rv_coordinator = default_resolved_coordinator, rv_workers = default_resolved_workers,
      rv_mirror = \<lparr>rm_targets = []\<rparr>\<rparr>"

end
