(* ===== verification/Config_Resolve.thy ===== *)
theory Config_Resolve
  imports Config
begin

text \<open>
  \<^verbatim>\<open>src/config.rs\<close>, the \<^verbatim>\<open>apply\<close> methods and \<^verbatim>\<open>SleetConfig::resolve\<close>. Each \<^verbatim>\<open>apply\<close> is the
  source's sequence of \<^verbatim>\<open>if let Some(v) = self.f { r.f = v; }\<close>, written with \<open>set_opt\<close>; the
  closed forms (one record expression per \<^verbatim>\<open>apply\<close>) carry the proofs. The two properties
  state the documented precedence of every field.
\<close>

definition set_opt :: "('v \<Rightarrow> 'r \<Rightarrow> 'r) \<Rightarrow> 'v option \<Rightarrow> 'r \<Rightarrow> 'r" where
  "set_opt f x r = (case x of None \<Rightarrow> r | Some v \<Rightarrow> f v r)"

definition unwrap_or :: "'v option \<Rightarrow> 'v \<Rightarrow> 'v" where
  "unwrap_or x d = (case x of None \<Rightarrow> d | Some v \<Rightarrow> v)"

definition opt_or :: "'v option \<Rightarrow> 'v option \<Rightarrow> 'v option" where
  "opt_or x y = (case x of None \<Rightarrow> y | Some v \<Rightarrow> Some v)"

lemma unwrap_or_simps [simp]: "unwrap_or None d = d" "unwrap_or (Some v) d = v"
  by (simp_all add: unwrap_or_def)

lemma opt_or_simps [simp]: "opt_or None y = y" "opt_or (Some v) y = Some v"
  by (simp_all add: opt_or_def)

lemma set_opt_None [simp]: "set_opt f None r = r"
  by (simp add: set_opt_def)

lemma set_opt_Some [simp]: "set_opt f (Some v) r = f v r"
  by (simp add: set_opt_def)

definition gc_directory_apply ::
  "gc_directory_overrides \<Rightarrow> resolved_gc_directory \<Rightarrow> resolved_gc_directory" where
  "gc_directory_apply self r =
     (let r = set_opt (\<lambda>v r. r\<lparr>rgd_enabled := v\<rparr>) (gdo_enabled self) r;
          r = set_opt (\<lambda>v r. r\<lparr>rgd_interval := v\<rparr>) (gdo_interval self) r;
          r = set_opt (\<lambda>v r. r\<lparr>rgd_min_age := v\<rparr>) (gdo_min_age self) r;
          r = set_opt (\<lambda>v r. r\<lparr>rgd_dry_run := v\<rparr>) (gdo_dry_run self) r
      in r)"

definition gc_detach_apply :: "gc_detach_overrides \<Rightarrow> resolved_gc_detach \<Rightarrow> resolved_gc_detach" where
  "gc_detach_apply self r =
     (let r = set_opt (\<lambda>v r. r\<lparr>rgt_enabled := v\<rparr>) (gto_enabled self) r;
          r = set_opt (\<lambda>v r. r\<lparr>rgt_interval := v\<rparr>) (gto_interval self) r
      in r)"

definition gc_apply :: "gc_overrides \<Rightarrow> resolved_gc \<Rightarrow> resolved_gc" where
  "gc_apply self r =
     (let r = set_opt (\<lambda>d r. r\<lparr>rg_manifest := gc_directory_apply d (rg_manifest r)\<rparr>) (go_manifest self) r;
          r = set_opt (\<lambda>d r. r\<lparr>rg_wal := gc_directory_apply d (rg_wal r)\<rparr>) (go_wal self) r;
          r = set_opt (\<lambda>d r. r\<lparr>rg_wal_fence := gc_directory_apply d (rg_wal_fence r)\<rparr>) (go_wal_fence self) r;
          r = set_opt (\<lambda>d r. r\<lparr>rg_compacted := gc_directory_apply d (rg_compacted r)\<rparr>) (go_compacted self) r;
          r = set_opt (\<lambda>d r. r\<lparr>rg_compactions := gc_directory_apply d (rg_compactions r)\<rparr>) (go_compactions self) r;
          r = set_opt (\<lambda>d r. r\<lparr>rg_detach := gc_detach_apply d (rg_detach r)\<rparr>) (go_detach self) r
      in r)"

definition scheduler_apply :: "scheduler_overrides \<Rightarrow> resolved_scheduler \<Rightarrow> resolved_scheduler" where
  "scheduler_apply self r =
     (let r = set_opt (\<lambda>v r. r\<lparr>rs_min_compaction_sources := v\<rparr>) (so_min_compaction_sources self) r;
          r = set_opt (\<lambda>v r. r\<lparr>rs_max_compaction_sources := v\<rparr>) (so_max_compaction_sources self) r;
          r = set_opt (\<lambda>v r. r\<lparr>rs_include_size_threshold := v\<rparr>) (so_include_size_threshold self) r
      in r)"

definition coordinator_apply :: "coordinator_overrides \<Rightarrow> resolved_coordinator \<Rightarrow> resolved_coordinator" where
  "coordinator_apply self r =
     (let r = set_opt (\<lambda>v r. r\<lparr>rc_poll_interval := v\<rparr>) (co_poll_interval self) r;
          r = set_opt (\<lambda>v r. r\<lparr>rc_manifest_update_timeout := v\<rparr>) (co_manifest_update_timeout self) r;
          r = set_opt (\<lambda>v r. r\<lparr>rc_max_concurrent_compactions := v\<rparr>) (co_max_concurrent_compactions self) r;
          r = set_opt (\<lambda>v r. r\<lparr>rc_commit_compacted_interval := v\<rparr>) (co_commit_compacted_interval self) r;
          r = set_opt (\<lambda>v r. r\<lparr>rc_worker_heartbeat_timeout := v\<rparr>) (co_worker_heartbeat_timeout self) r;
          r = set_opt (\<lambda>s r. r\<lparr>rc_scheduler := scheduler_apply s (rc_scheduler r)\<rparr>) (co_scheduler self) r
      in r)"

definition workers_apply :: "workers_overrides \<Rightarrow> resolved_workers \<Rightarrow> resolved_workers" where
  "workers_apply self r =
     (let r = set_opt (\<lambda>v r. r\<lparr>rw_count := v\<rparr>) (wo_count self) r;
          r = set_opt (\<lambda>v r. r\<lparr>rw_max_concurrent_compactions := v\<rparr>) (wo_max_concurrent_compactions self) r;
          r = set_opt (\<lambda>v r. r\<lparr>rw_compactions_poll_interval := v\<rparr>) (wo_compactions_poll_interval self) r;
          r = set_opt (\<lambda>v r. r\<lparr>rw_heartbeat_bytes := v\<rparr>) (wo_heartbeat_bytes self) r;
          r = set_opt (\<lambda>v r. r\<lparr>rw_heartbeat_min_interval := v\<rparr>) (wo_heartbeat_min_interval self) r;
          r = set_opt (\<lambda>v r. r\<lparr>rw_max_sst_size := v\<rparr>) (wo_max_sst_size self) r;
          r = set_opt (\<lambda>v r. r\<lparr>rw_max_fetch_tasks := v\<rparr>) (wo_max_fetch_tasks self) r;
          r = set_opt (\<lambda>v r. r\<lparr>rw_bytes_to_fetch := v\<rparr>) (wo_bytes_to_fetch self) r;
          r = set_opt (\<lambda>v r. r\<lparr>rw_max_subcompactions := v\<rparr>) (wo_max_subcompactions self) r;
          r = set_opt (\<lambda>v r. r\<lparr>rw_min_filter_keys := v\<rparr>) (wo_min_filter_keys self) r;
          r = set_opt (\<lambda>v r. r\<lparr>rw_compression_codec := Some v\<rparr>) (wo_compression_codec self) r
      in r)"

definition mirror_target_apply ::
  "mirror_target_overrides \<Rightarrow> resolved_mirror_target \<Rightarrow> resolved_mirror_target" where
  "mirror_target_apply self r =
     (let r = (if mto_url self \<noteq> None \<or> mto_source_prefix self \<noteq> None
               then r\<lparr>rt_url := mto_url self, rt_source_prefix := mto_source_prefix self\<rparr> else r);
          r = set_opt (\<lambda>v r. r\<lparr>rt_disabled := v\<rparr>) (mto_disabled self) r;
          r = set_opt (\<lambda>v r. r\<lparr>rt_mode := v\<rparr>) (mto_mode self) r;
          r = set_opt (\<lambda>v r. r\<lparr>rt_copier := v\<rparr>) (mto_copier self) r;
          r = set_opt (\<lambda>v r. r\<lparr>rt_poll := v\<rparr>) (mto_poll self) r;
          r = set_opt (\<lambda>v r. r\<lparr>rt_interval := v\<rparr>) (mto_interval self) r;
          r = set_opt (\<lambda>v r. r\<lparr>rt_min_age := v\<rparr>) (mto_min_age self) r;
          r = set_opt (\<lambda>v r. r\<lparr>rt_checkpoint_lifetime := v\<rparr>) (mto_checkpoint_lifetime self) r;
          r = set_opt (\<lambda>v r. r\<lparr>rt_copy_parallelism := v\<rparr>) (mto_copy_parallelism self) r;
          r = set_opt (\<lambda>retention r. set_opt (\<lambda>k r. r\<lparr>rt_keep := Some k\<rparr>) (ro_keep retention) r)
                (mto_retention self) r
      in r)"

definition mirror_apply :: "mirror_overrides \<Rightarrow> resolved_mirror \<Rightarrow> resolved_mirror" where
  "mirror_apply self r =
     r\<lparr>rm_targets :=
        fold (\<lambda>nt m. bt_insert (fst nt)
                (mirror_target_apply (snd nt) (unwrap_or (bt_get m (fst nt)) default_resolved_mirror_target)) m)
          (mo_targets self) (rm_targets r)\<rparr>"

definition database_apply :: "database_config \<Rightarrow> resolved_services \<Rightarrow> resolved_services" where
  "database_apply self r =
     (let r = set_opt (\<lambda>v r. r\<lparr>rv_services := v\<rparr>) (dc_services self) r;
          r = set_opt (\<lambda>g r. r\<lparr>rv_gc := gc_apply g (rv_gc r)\<rparr>) (dc_gc self) r;
          r = set_opt (\<lambda>c r. r\<lparr>rv_coordinator := coordinator_apply c (rv_coordinator r)\<rparr>)
                (dc_compactor_coordinator self) r;
          r = set_opt (\<lambda>w r. r\<lparr>rv_workers := workers_apply w (rv_workers r)\<rparr>)
                (dc_compaction_workers self) r;
          r = set_opt (\<lambda>m r. r\<lparr>rv_mirror := mirror_apply m (rv_mirror r)\<rparr>) (dc_mirror self) r
      in r)"

definition resolve :: "sleet_config \<Rightarrow> database_config option \<Rightarrow> resolved_services" where
  "resolve self db =
     (let r = default_resolved_services;
          r = database_apply (sc_database self) r;
          r = set_opt (\<lambda>db r. database_apply db r) db r
      in r)"

subsection \<open>Closed forms\<close>

named_theorems apply_closed \<open>closed forms of the apply methods\<close>

lemma set_opt_field:
  assumes "\<And>r. upd (get r) r = r"
  shows "set_opt upd x r = upd (unwrap_or x (get r)) r"
  using assms by (simp add: set_opt_def opt_or_def unwrap_or_def split: option.splits)

lemma gc_directory_apply_closed [apply_closed]:
  "gc_directory_apply self r =
     \<lparr>rgd_enabled = unwrap_or (gdo_enabled self) (rgd_enabled r),
      rgd_interval = unwrap_or (gdo_interval self) (rgd_interval r),
      rgd_min_age = unwrap_or (gdo_min_age self) (rgd_min_age r),
      rgd_dry_run = unwrap_or (gdo_dry_run self) (rgd_dry_run r)\<rparr>"
  by (simp add: gc_directory_apply_def set_opt_def unwrap_or_def split: option.split)

lemma gc_detach_apply_closed [apply_closed]:
  "gc_detach_apply self r =
     \<lparr>rgt_enabled = unwrap_or (gto_enabled self) (rgt_enabled r),
      rgt_interval = unwrap_or (gto_interval self) (rgt_interval r)\<rparr>"
  by (simp add: gc_detach_apply_def set_opt_def unwrap_or_def split: option.split)

lemma scheduler_apply_closed [apply_closed]:
  "scheduler_apply self r =
     \<lparr>rs_min_compaction_sources = unwrap_or (so_min_compaction_sources self) (rs_min_compaction_sources r),
      rs_max_compaction_sources = unwrap_or (so_max_compaction_sources self) (rs_max_compaction_sources r),
      rs_include_size_threshold = unwrap_or (so_include_size_threshold self) (rs_include_size_threshold r)\<rparr>"
  by (simp add: scheduler_apply_def set_opt_def unwrap_or_def split: option.split)

lemma set_opt_some_field:
  assumes "\<And>r. upd (get r) r = r"
  shows "set_opt (\<lambda>v. upd (Some v)) x r = upd (opt_or x (get r)) r"
  using assms by (simp add: set_opt_def opt_or_def unwrap_or_def split: option.splits)

lemma set_opt_nested:
  assumes "\<And>r. upd (get r) r = r"
  shows "set_opt (\<lambda>d r. upd (app d (get r)) r) x r = upd (set_opt app x (get r)) r"
  using assms by (simp add: set_opt_def opt_or_def unwrap_or_def split: option.splits)

lemmas gc_apply_fields =
  set_opt_nested [of "\<lambda>v r. r\<lparr>rg_manifest := v\<rparr>" rg_manifest, simplified]
  set_opt_nested [of "\<lambda>v r. r\<lparr>rg_wal := v\<rparr>" rg_wal, simplified]
  set_opt_nested [of "\<lambda>v r. r\<lparr>rg_wal_fence := v\<rparr>" rg_wal_fence, simplified]
  set_opt_nested [of "\<lambda>v r. r\<lparr>rg_compacted := v\<rparr>" rg_compacted, simplified]
  set_opt_nested [of "\<lambda>v r. r\<lparr>rg_compactions := v\<rparr>" rg_compactions, simplified]
  set_opt_nested [of "\<lambda>v r. r\<lparr>rg_detach := v\<rparr>" rg_detach, simplified]

lemma gc_apply_closed [apply_closed]:
  "gc_apply self r =
     \<lparr>rg_manifest = set_opt gc_directory_apply (go_manifest self) (rg_manifest r),
      rg_wal = set_opt gc_directory_apply (go_wal self) (rg_wal r),
      rg_wal_fence = set_opt gc_directory_apply (go_wal_fence self) (rg_wal_fence r),
      rg_compacted = set_opt gc_directory_apply (go_compacted self) (rg_compacted r),
      rg_compactions = set_opt gc_directory_apply (go_compactions self) (rg_compactions r),
      rg_detach = set_opt gc_detach_apply (go_detach self) (rg_detach r)\<rparr>"
  by (simp add: gc_apply_def Let_def gc_apply_fields)

lemmas coordinator_apply_fields =
  set_opt_field [of "\<lambda>v r. r\<lparr>rc_poll_interval := v\<rparr>" rc_poll_interval, simplified]
  set_opt_field [of "\<lambda>v r. r\<lparr>rc_manifest_update_timeout := v\<rparr>" rc_manifest_update_timeout, simplified]
  set_opt_field [of "\<lambda>v r. r\<lparr>rc_max_concurrent_compactions := v\<rparr>" rc_max_concurrent_compactions, simplified]
  set_opt_field [of "\<lambda>v r. r\<lparr>rc_commit_compacted_interval := v\<rparr>" rc_commit_compacted_interval, simplified]
  set_opt_field [of "\<lambda>v r. r\<lparr>rc_worker_heartbeat_timeout := v\<rparr>" rc_worker_heartbeat_timeout, simplified]
  set_opt_nested [of "\<lambda>v r. r\<lparr>rc_scheduler := v\<rparr>" rc_scheduler, simplified]

lemma coordinator_apply_closed [apply_closed]:
  "coordinator_apply self r =
     \<lparr>rc_poll_interval = unwrap_or (co_poll_interval self) (rc_poll_interval r),
      rc_manifest_update_timeout = unwrap_or (co_manifest_update_timeout self) (rc_manifest_update_timeout r),
      rc_max_concurrent_compactions = unwrap_or (co_max_concurrent_compactions self) (rc_max_concurrent_compactions r),
      rc_commit_compacted_interval = unwrap_or (co_commit_compacted_interval self) (rc_commit_compacted_interval r),
      rc_worker_heartbeat_timeout = unwrap_or (co_worker_heartbeat_timeout self) (rc_worker_heartbeat_timeout r),
      rc_scheduler = set_opt scheduler_apply (co_scheduler self) (rc_scheduler r)\<rparr>"
  by (simp add: coordinator_apply_def Let_def coordinator_apply_fields)

lemmas workers_apply_fields =
  set_opt_field [of "\<lambda>v r. r\<lparr>rw_count := v\<rparr>" rw_count, simplified]
  set_opt_field [of "\<lambda>v r. r\<lparr>rw_max_concurrent_compactions := v\<rparr>" rw_max_concurrent_compactions, simplified]
  set_opt_field [of "\<lambda>v r. r\<lparr>rw_compactions_poll_interval := v\<rparr>" rw_compactions_poll_interval, simplified]
  set_opt_field [of "\<lambda>v r. r\<lparr>rw_heartbeat_bytes := v\<rparr>" rw_heartbeat_bytes, simplified]
  set_opt_field [of "\<lambda>v r. r\<lparr>rw_heartbeat_min_interval := v\<rparr>" rw_heartbeat_min_interval, simplified]
  set_opt_field [of "\<lambda>v r. r\<lparr>rw_max_sst_size := v\<rparr>" rw_max_sst_size, simplified]
  set_opt_field [of "\<lambda>v r. r\<lparr>rw_max_fetch_tasks := v\<rparr>" rw_max_fetch_tasks, simplified]
  set_opt_field [of "\<lambda>v r. r\<lparr>rw_bytes_to_fetch := v\<rparr>" rw_bytes_to_fetch, simplified]
  set_opt_field [of "\<lambda>v r. r\<lparr>rw_max_subcompactions := v\<rparr>" rw_max_subcompactions, simplified]
  set_opt_field [of "\<lambda>v r. r\<lparr>rw_min_filter_keys := v\<rparr>" rw_min_filter_keys, simplified]
  set_opt_some_field [of "\<lambda>v r. r\<lparr>rw_compression_codec := v\<rparr>" rw_compression_codec, simplified]

lemma workers_apply_closed [apply_closed]:
  "workers_apply self r =
     \<lparr>rw_count = unwrap_or (wo_count self) (rw_count r),
      rw_max_concurrent_compactions = unwrap_or (wo_max_concurrent_compactions self) (rw_max_concurrent_compactions r),
      rw_compactions_poll_interval = unwrap_or (wo_compactions_poll_interval self) (rw_compactions_poll_interval r),
      rw_heartbeat_bytes = unwrap_or (wo_heartbeat_bytes self) (rw_heartbeat_bytes r),
      rw_heartbeat_min_interval = unwrap_or (wo_heartbeat_min_interval self) (rw_heartbeat_min_interval r),
      rw_max_sst_size = unwrap_or (wo_max_sst_size self) (rw_max_sst_size r),
      rw_max_fetch_tasks = unwrap_or (wo_max_fetch_tasks self) (rw_max_fetch_tasks r),
      rw_bytes_to_fetch = unwrap_or (wo_bytes_to_fetch self) (rw_bytes_to_fetch r),
      rw_max_subcompactions = unwrap_or (wo_max_subcompactions self) (rw_max_subcompactions r),
      rw_min_filter_keys = unwrap_or (wo_min_filter_keys self) (rw_min_filter_keys r),
      rw_compression_codec = (opt_or (wo_compression_codec self) (rw_compression_codec r))\<rparr>"
  by (simp add: workers_apply_def Let_def workers_apply_fields)

lemmas database_apply_fields =
  set_opt_field [of "\<lambda>v r. r\<lparr>rv_services := v\<rparr>" rv_services, simplified]
  set_opt_nested [of "\<lambda>v r. r\<lparr>rv_gc := v\<rparr>" rv_gc, simplified]
  set_opt_nested [of "\<lambda>v r. r\<lparr>rv_coordinator := v\<rparr>" rv_coordinator, simplified]
  set_opt_nested [of "\<lambda>v r. r\<lparr>rv_workers := v\<rparr>" rv_workers, simplified]
  set_opt_nested [of "\<lambda>v r. r\<lparr>rv_mirror := v\<rparr>" rv_mirror, simplified]

lemma database_apply_closed [apply_closed]:
  "database_apply self r =
     \<lparr>rv_services = unwrap_or (dc_services self) (rv_services r),
      rv_gc = set_opt gc_apply (dc_gc self) (rv_gc r),
      rv_coordinator = set_opt coordinator_apply (dc_compactor_coordinator self) (rv_coordinator r),
      rv_workers = set_opt workers_apply (dc_compaction_workers self) (rv_workers r),
      rv_mirror = set_opt mirror_apply (dc_mirror self) (rv_mirror r)\<rparr>"
  by (simp add: database_apply_def Let_def database_apply_fields)

lemmas mirror_target_apply_fields =
  set_opt_field [of "\<lambda>v r. r\<lparr>rt_disabled := v\<rparr>" rt_disabled, simplified]
  set_opt_field [of "\<lambda>v r. r\<lparr>rt_mode := v\<rparr>" rt_mode, simplified]
  set_opt_field [of "\<lambda>v r. r\<lparr>rt_copier := v\<rparr>" rt_copier, simplified]
  set_opt_field [of "\<lambda>v r. r\<lparr>rt_poll := v\<rparr>" rt_poll, simplified]
  set_opt_field [of "\<lambda>v r. r\<lparr>rt_interval := v\<rparr>" rt_interval, simplified]
  set_opt_field [of "\<lambda>v r. r\<lparr>rt_min_age := v\<rparr>" rt_min_age, simplified]
  set_opt_field [of "\<lambda>v r. r\<lparr>rt_checkpoint_lifetime := v\<rparr>" rt_checkpoint_lifetime, simplified]
  set_opt_field [of "\<lambda>v r. r\<lparr>rt_copy_parallelism := v\<rparr>" rt_copy_parallelism, simplified]

definition sets_destination :: "mirror_target_overrides \<Rightarrow> bool" where
  "sets_destination t \<longleftrightarrow> mto_url t \<noteq> None \<or> mto_source_prefix t \<noteq> None"

lemma set_opt_keep:
  "set_opt (\<lambda>retention r. set_opt (\<lambda>k r. r\<lparr>rt_keep := Some k\<rparr>) (ro_keep retention) r) x r =
     r\<lparr>rt_keep := opt_or (Option.bind x ro_keep) (rt_keep r)\<rparr>"
  by (cases x) (simp_all add: set_opt_def opt_or_def split: option.splits)

lemma mirror_target_apply_closed [apply_closed]:
  "mirror_target_apply self r =
     \<lparr>rt_url = (if sets_destination self then mto_url self else rt_url r),
      rt_source_prefix = (if sets_destination self then mto_source_prefix self else rt_source_prefix r),
      rt_disabled = unwrap_or (mto_disabled self) (rt_disabled r),
      rt_mode = unwrap_or (mto_mode self) (rt_mode r),
      rt_copier = unwrap_or (mto_copier self) (rt_copier r),
      rt_poll = unwrap_or (mto_poll self) (rt_poll r),
      rt_interval = unwrap_or (mto_interval self) (rt_interval r),
      rt_min_age = unwrap_or (mto_min_age self) (rt_min_age r),
      rt_checkpoint_lifetime = unwrap_or (mto_checkpoint_lifetime self) (rt_checkpoint_lifetime r),
      rt_copy_parallelism = unwrap_or (mto_copy_parallelism self) (rt_copy_parallelism r),
      rt_keep = opt_or (Option.bind (mto_retention self) ro_keep) (rt_keep r)\<rparr>"
  unfolding mirror_target_apply_def sets_destination_def [symmetric] Let_def
  by (cases "sets_destination self") (simp_all add: mirror_target_apply_fields set_opt_keep)

lemma mirror_apply_get:
  assumes "bt_wf (mo_targets self)" and "bt_wf (rm_targets r)"
  shows "bt_get (rm_targets (mirror_apply self r)) name =
     (case bt_get (mo_targets self) name of
        None \<Rightarrow> bt_get (rm_targets r) name
      | Some t \<Rightarrow> Some (mirror_target_apply t
          (unwrap_or (bt_get (rm_targets r) name) default_resolved_mirror_target)))"
proof (cases "bt_get (mo_targets self) name")
  case None
  then have "name \<notin> fst ` set (mo_targets self)" by (simp add: map_of_eq_None_iff)
  then show ?thesis using None assms(2) by (simp add: mirror_apply_def bt.get_fold_other)
next
  case (Some t)
  then have t: "(name, t) \<in> set (mo_targets self)" by (rule map_of_SomeD)
  let ?g = "\<lambda>nt m. mirror_target_apply (snd nt)
    (unwrap_or (bt_get m (fst nt)) default_resolved_mirror_target)"
  have "bt_get (fold (\<lambda>x m. bt_insert (fst x) (?g x m) m) (mo_targets self) (rm_targets r)) (fst (name, t))
      = Some (?g (name, t) (rm_targets r))"
    by (rule bt.get_fold_once [OF assms(2) bt_wf_distinct [OF assms(1)] t]) simp
  then show ?thesis using Some by (simp add: mirror_apply_def)
qed

lemma mirror_apply_wf: "bt_wf (rm_targets r) \<Longrightarrow> bt_wf (rm_targets (mirror_apply self r))"
  by (simp add: mirror_apply_def bt.wf_fold_ins)

subsection \<open>Layering\<close>

text \<open>
  The documented precedence, as a specification: the layers of a database are its own file and
  then the fleet's \<^verbatim>\<open>[database]\<close> table, and a field takes the first layer that sets it, or its
  default.
\<close>

definition config_layers :: "sleet_config \<Rightarrow> database_config option \<Rightarrow> database_config list" where
  "config_layers cfg db = (case db of None \<Rightarrow> [] | Some d \<Rightarrow> [d]) @ [sc_database cfg]"

fun first_set :: "'v option list \<Rightarrow> 'v \<Rightarrow> 'v" where
  "first_set [] d = d"
| "first_set (x # xs) d = unwrap_or x (first_set xs d)"

definition layered :: "database_config list \<Rightarrow> (database_config \<Rightarrow> 'v option) \<Rightarrow> 'v \<Rightarrow> 'v" where
  "layered ls p d = first_set (map p ls) d"

lemma layered_simps [simp]:
  "layered [] p d = d" "layered (c # ls) p d = unwrap_or (p c) (layered ls p d)"
  by (simp_all add: layered_def)

lemma bind_assoc_option: "Option.bind (Option.bind x f) g = Option.bind x (\<lambda>y. Option.bind (f y) g)"
  by (cases x) auto

definition dir_field :: "(gc_overrides \<Rightarrow> gc_directory_overrides option) \<Rightarrow>
     (gc_directory_overrides \<Rightarrow> 'v option) \<Rightarrow> database_config \<Rightarrow> 'v option" where
  "dir_field sel fld c = Option.bind (dc_gc c) (\<lambda>g. Option.bind (sel g) fld)"

definition layered_dir :: "database_config list \<Rightarrow> (gc_overrides \<Rightarrow> gc_directory_overrides option) \<Rightarrow>
     bool \<Rightarrow> resolved_gc_directory" where
  "layered_dir ls sel dry =
     \<lparr>rgd_enabled = layered ls (dir_field sel gdo_enabled) True,
      rgd_interval = layered ls (dir_field sel gdo_interval) (from_secs 60),
      rgd_min_age = layered ls (dir_field sel gdo_min_age) (from_secs 300),
      rgd_dry_run = layered ls (dir_field sel gdo_dry_run) dry\<rparr>"

definition layered_gc :: "database_config list \<Rightarrow> resolved_gc" where
  "layered_gc ls =
     \<lparr>rg_manifest = layered_dir ls go_manifest False, rg_wal = layered_dir ls go_wal False,
      rg_wal_fence = layered_dir ls go_wal_fence True, rg_compacted = layered_dir ls go_compacted False,
      rg_compactions = layered_dir ls go_compactions False,
      rg_detach =
        \<lparr>rgt_enabled = layered ls (\<lambda>c. Option.bind (dc_gc c) (\<lambda>g. Option.bind (go_detach g) gto_enabled)) True,
         rgt_interval = layered ls (\<lambda>c. Option.bind (dc_gc c) (\<lambda>g. Option.bind (go_detach g) gto_interval))
           (from_secs 60)\<rparr>\<rparr>"

definition coordinator_field :: "(coordinator_overrides \<Rightarrow> 'v option) \<Rightarrow> database_config \<Rightarrow> 'v option" where
  "coordinator_field fld c = Option.bind (dc_compactor_coordinator c) fld"

definition layered_coordinator :: "database_config list \<Rightarrow> resolved_coordinator" where
  "layered_coordinator ls =
     \<lparr>rc_poll_interval = layered ls (coordinator_field co_poll_interval) (from_secs 5),
      rc_manifest_update_timeout = layered ls (coordinator_field co_manifest_update_timeout) (from_secs 300),
      rc_max_concurrent_compactions = layered ls (coordinator_field co_max_concurrent_compactions) 4,
      rc_commit_compacted_interval = layered ls (coordinator_field co_commit_compacted_interval) (from_secs 1),
      rc_worker_heartbeat_timeout = layered ls (coordinator_field co_worker_heartbeat_timeout) (from_secs 30),
      rc_scheduler =
        \<lparr>rs_min_compaction_sources = layered ls
           (coordinator_field (\<lambda>c. Option.bind (co_scheduler c) so_min_compaction_sources)) 4,
         rs_max_compaction_sources = layered ls
           (coordinator_field (\<lambda>c. Option.bind (co_scheduler c) so_max_compaction_sources)) 8,
         rs_include_size_threshold = layered ls
           (coordinator_field (\<lambda>c. Option.bind (co_scheduler c) so_include_size_threshold)) (Finite 4 0)\<rparr>\<rparr>"

definition workers_field :: "(workers_overrides \<Rightarrow> 'v option) \<Rightarrow> database_config \<Rightarrow> 'v option" where
  "workers_field fld c = Option.bind (dc_compaction_workers c) fld"

definition layered_workers :: "database_config list \<Rightarrow> resolved_workers" where
  "layered_workers ls =
     \<lparr>rw_count = layered ls (workers_field wo_count) 1,
      rw_max_concurrent_compactions = layered ls (workers_field wo_max_concurrent_compactions) 4,
      rw_compactions_poll_interval = layered ls (workers_field wo_compactions_poll_interval) (from_secs 5),
      rw_heartbeat_bytes = layered ls (workers_field wo_heartbeat_bytes) (5 * 1024 * 1024),
      rw_heartbeat_min_interval = layered ls (workers_field wo_heartbeat_min_interval) (from_secs 5),
      rw_max_sst_size = layered ls (workers_field wo_max_sst_size) (256 * 1024 * 1024),
      rw_max_fetch_tasks = layered ls (workers_field wo_max_fetch_tasks) 4,
      rw_bytes_to_fetch = layered ls (workers_field wo_bytes_to_fetch) (2 * 1024 * 1024),
      rw_max_subcompactions = layered ls (workers_field wo_max_subcompactions) 4,
      rw_min_filter_keys = layered ls (workers_field wo_min_filter_keys) 1000,
      rw_compression_codec = layered ls (\<lambda>c. map_option Some (workers_field wo_compression_codec c)) None\<rparr>"


lemma set_opt_gc_directory:
  "set_opt gc_directory_apply x r =
     \<lparr>rgd_enabled = unwrap_or (Option.bind x gdo_enabled) (rgd_enabled r),
      rgd_interval = unwrap_or (Option.bind x gdo_interval) (rgd_interval r),
      rgd_min_age = unwrap_or (Option.bind x gdo_min_age) (rgd_min_age r),
      rgd_dry_run = unwrap_or (Option.bind x gdo_dry_run) (rgd_dry_run r)\<rparr>"
  by (cases x) (simp_all add: gc_directory_apply_closed)

lemma set_opt_gc_detach:
  "set_opt gc_detach_apply x r =
     \<lparr>rgt_enabled = unwrap_or (Option.bind x gto_enabled) (rgt_enabled r),
      rgt_interval = unwrap_or (Option.bind x gto_interval) (rgt_interval r)\<rparr>"
  by (cases x) (simp_all add: gc_detach_apply_closed)

lemma set_opt_scheduler:
  "set_opt scheduler_apply x r =
     \<lparr>rs_min_compaction_sources = unwrap_or (Option.bind x so_min_compaction_sources) (rs_min_compaction_sources r),
      rs_max_compaction_sources = unwrap_or (Option.bind x so_max_compaction_sources) (rs_max_compaction_sources r),
      rs_include_size_threshold = unwrap_or (Option.bind x so_include_size_threshold) (rs_include_size_threshold r)\<rparr>"
  by (cases x) (simp_all add: scheduler_apply_closed)

lemma layered_gc_layer: "layered_gc (c # ls) = set_opt gc_apply (dc_gc c) (layered_gc ls)"
  by (cases "dc_gc c")
     (simp_all add: layered_gc_def layered_dir_def dir_field_def gc_apply_closed
       set_opt_gc_directory set_opt_gc_detach)

lemma layered_gc_default: "layered_gc [] = default_resolved_gc"
  by (simp add: layered_gc_def layered_dir_def default_resolved_gc_def Let_def
      default_resolved_gc_directory_def default_resolved_gc_detach_def)

lemma layered_coordinator_layer:
  "layered_coordinator (c # ls) =
     set_opt coordinator_apply (dc_compactor_coordinator c) (layered_coordinator ls)"
  by (cases "dc_compactor_coordinator c")
     (simp_all add: layered_coordinator_def coordinator_field_def coordinator_apply_closed
       set_opt_scheduler)

lemma layered_coordinator_default: "layered_coordinator [] = default_resolved_coordinator"
  by (simp add: layered_coordinator_def default_resolved_coordinator_def default_resolved_scheduler_def)

lemma layered_workers_layer:
  "layered_workers (c # ls) = set_opt workers_apply (dc_compaction_workers c) (layered_workers ls)"
proof (cases "dc_compaction_workers c")
  case (Some w)
  then show ?thesis
    by (cases "wo_compression_codec w")
       (simp_all add: layered_workers_def workers_field_def workers_apply_closed)
qed (simp add: layered_workers_def workers_field_def)

lemma layered_workers_default: "layered_workers [] = default_resolved_workers"
  by (simp add: layered_workers_def default_resolved_workers_def)

lemmas layered_layers =
  layered_gc_layer layered_gc_default layered_coordinator_layer layered_coordinator_default
  layered_workers_layer layered_workers_default

lemma resolve_layers: "resolve cfg db = foldr database_apply (config_layers cfg db) default_resolved_services"
  by (cases db) (simp_all add: resolve_def config_layers_def)

lemma foldr_database_apply:
  "rv_services (foldr database_apply ls default_resolved_services) = layered ls dc_services ALL_SERVICES
   \<and> rv_gc (foldr database_apply ls default_resolved_services) = layered_gc ls
   \<and> rv_coordinator (foldr database_apply ls default_resolved_services) = layered_coordinator ls
   \<and> rv_workers (foldr database_apply ls default_resolved_services) = layered_workers ls"
proof (induction ls)
  case Nil
  show ?case by (simp add: default_resolved_services_def layered_layers)
next
  case (Cons c ls)
  then show ?case by (simp add: database_apply_closed layered_layers)
qed

text \<open>
  C24. Precedence of every setting outside the mirror table: after \<^verbatim>\<open>resolve\<close>, the services and
  each field of the garbage-collection, coordinator and worker settings is the value of the
  first layer that sets it (the database's file, then the fleet's \<^verbatim>\<open>[database]\<close>), or its
  built-in default, and no field disturbs another.
\<close>

theorem resolve_layering:
  "rv_services (resolve cfg db) = layered (config_layers cfg db) dc_services ALL_SERVICES
    \<and> rv_gc (resolve cfg db) = layered_gc (config_layers cfg db)
    \<and> rv_coordinator (resolve cfg db) = layered_coordinator (config_layers cfg db)
    \<and> rv_workers (resolve cfg db) = layered_workers (config_layers cfg db)"
  by (simp add: resolve_layers foldr_database_apply)

subsection \<open>Layering of mirror targets\<close>

definition mirror_layer :: "string \<Rightarrow> database_config \<Rightarrow> mirror_target_overrides option" where
  "mirror_layer name c = Option.bind (dc_mirror c) (\<lambda>m. bt_get (mo_targets m) name)"

definition target_layers :: "database_config list \<Rightarrow> string \<Rightarrow> mirror_target_overrides list" where
  "target_layers ls name = List.map_filter (mirror_layer name) ls"

definition target_field :: "mirror_target_overrides list \<Rightarrow> (mirror_target_overrides \<Rightarrow> 'v option) \<Rightarrow> 'v \<Rightarrow> 'v" where
  "target_field ts p d = first_set (map p ts) d"

definition destination_pair :: "mirror_target_overrides list \<Rightarrow> string option \<times> string option" where
  "destination_pair ts =
     (case filter sets_destination ts of
        [] \<Rightarrow> (None, None)
      | t # _ \<Rightarrow> (mto_url t, mto_source_prefix t))"

definition layered_target :: "mirror_target_overrides list \<Rightarrow> resolved_mirror_target" where
  "layered_target ts =
     \<lparr>rt_url = fst (destination_pair ts), rt_source_prefix = snd (destination_pair ts),
      rt_disabled = target_field ts mto_disabled False,
      rt_mode = target_field ts mto_mode Continuous,
      rt_copier = target_field ts mto_copier Builtin,
      rt_poll = target_field ts mto_poll (from_secs 10),
      rt_interval = target_field ts mto_interval (from_secs (24 * 60 * 60)),
      rt_min_age = target_field ts mto_min_age (from_secs 300),
      rt_checkpoint_lifetime = target_field ts mto_checkpoint_lifetime (from_secs (15 * 60)),
      rt_copy_parallelism = target_field ts mto_copy_parallelism 8,
      rt_keep = target_field ts (\<lambda>t. map_option Some (Option.bind (mto_retention t) ro_keep)) None\<rparr>"

definition config_wf :: "database_config \<Rightarrow> bool" where
  "config_wf c \<longleftrightarrow> (case dc_mirror c of None \<Rightarrow> True | Some m \<Rightarrow> bt_wf (mo_targets m))"

lemma target_field_simps [simp]:
  "target_field [] p d = d" "target_field (t # ts) p d = unwrap_or (p t) (target_field ts p d)"
  by (simp_all add: target_field_def)

lemma destination_pair_simps [simp]:
  "destination_pair [] = (None, None)"
  "destination_pair (t # ts) =
     (if sets_destination t then (mto_url t, mto_source_prefix t) else destination_pair ts)"
  by (simp_all add: destination_pair_def)

lemma unwrap_or_map_Some: "unwrap_or (map_option Some x) y = opt_or x y"
  by (cases x) auto

lemma layered_target_layer: "layered_target (t # ts) = mirror_target_apply t (layered_target ts)"
  by (simp add: layered_target_def mirror_target_apply_closed unwrap_or_map_Some)

lemma layered_target_default: "layered_target [] = default_resolved_mirror_target"
  by (simp add: layered_target_def default_resolved_mirror_target_def)

lemma target_layers_simps [simp]:
  "target_layers [] name = []"
  "target_layers (c # ls) name =
     (case mirror_layer name c of None \<Rightarrow> target_layers ls name | Some t \<Rightarrow> t # target_layers ls name)"
  by (simp_all add: target_layers_def List.map_filter_def split: option.splits)

lemma foldr_mirror_targets:
  assumes "\<forall>c \<in> set ls. config_wf c"
  defines "m \<equiv> rm_targets (rv_mirror (foldr database_apply ls default_resolved_services))"
  shows "bt_wf m \<and> bt_get m name =
     (if target_layers ls name = [] then None else Some (layered_target (target_layers ls name)))"
  unfolding m_def using assms(1)
proof (induction ls)
  case Nil
  show ?case by (simp add: default_resolved_services_def)
next
  case (Cons c ls)
  let ?r = "foldr database_apply ls default_resolved_services"
  have IH: "bt_wf (rm_targets (rv_mirror ?r))"
    "bt_get (rm_targets (rv_mirror ?r)) name =
       (if target_layers ls name = [] then None else Some (layered_target (target_layers ls name)))"
    using Cons by auto
  have eq: "rv_mirror (foldr database_apply (c # ls) default_resolved_services) =
      set_opt mirror_apply (dc_mirror c) (rv_mirror ?r)"
    by (simp add: database_apply_closed)
  show ?case
  proof (cases "dc_mirror c")
    case None
    then show ?thesis unfolding eq using IH by (simp add: mirror_layer_def)
  next
    case (Some m)
    then have wf: "bt_wf (mo_targets m)" using Cons.prems by (simp add: config_wf_def)
    show ?thesis
      unfolding eq using Some IH
      by (auto simp: mirror_apply_wf mirror_apply_get [OF wf] mirror_layer_def layered_target_layer
          layered_target_default [symmetric] split: option.splits)
  qed
qed

text \<open>
  C25. Precedence of mirror targets: a resolved target exists exactly for the names some layer
  defines, each of its fields is taken from the first layer that sets it, and \<^verbatim>\<open>url\<close> and
  \<^verbatim>\<open>source_prefix\<close> are taken together from the first layer that sets either, so a layer with a
  plain \<^verbatim>\<open>url\<close> clears an inherited prefix. The layers are BTreeMaps (\<open>config_wf\<close>).
\<close>

theorem resolve_mirror_targets:
  assumes "config_wf (sc_database cfg)" and "\<And>d. db = Some d \<Longrightarrow> config_wf d"
  shows "bt_get (rm_targets (rv_mirror (resolve cfg db))) name =
     (let ts = target_layers (config_layers cfg db) name in
      if ts = [] then None else Some (layered_target ts))"
  using assms foldr_mirror_targets [of "config_layers cfg db" name]
  by (cases db) (simp_all add: resolve_layers Let_def config_layers_def)

definition demo_target :: "string option \<Rightarrow> string option \<Rightarrow> mirror_target_overrides" where
  "demo_target url pre =
     \<lparr>mto_url = url, mto_source_prefix = pre, mto_disabled = None, mto_mode = None, mto_copier = None,
      mto_poll = None, mto_interval = None, mto_min_age = None, mto_checkpoint_lifetime = None,
      mto_copy_parallelism = None, mto_retention = None\<rparr>"

definition demo_mirror_config :: "string option \<Rightarrow> string option \<Rightarrow> database_config" where
  "demo_mirror_config url pre =
     default_database_config\<lparr>dc_mirror := Some \<lparr>mo_targets = [(''dr'', demo_target url pre)]\<rparr>\<rparr>"

theorem resolve_mirror_targets_witness:
  "map_option rt_source_prefix
     (bt_get (rm_targets (rv_mirror (resolve
        \<lparr>sc_node = default_node_config,
         sc_database = demo_mirror_config (Some ''s3://dr'') (Some ''s3://data'')\<rparr>
        (Some (demo_mirror_config (Some ''s3://other'') None))))) ''dr'') = Some None"
  by (subst resolve_mirror_targets)
     (simp_all add: config_wf_def demo_mirror_config_def default_database_config_def bt_wf_def
       config_layers_def mirror_layer_def layered_target_def sets_destination_def demo_target_def)

end
