(* ===== verification/Config_Validate.thy ===== *)
theory Config_Validate
  imports Config_Resolve
begin

text \<open>
  \<^verbatim>\<open>src/config.rs\<close>, validation and parsing. A validation message is a constructor of
  \<open>issue\<close> (one per \<^verbatim>\<open>errs.push\<close> of the source, carrying the location and the values the
  message prints); the lists of issues are in the order of the pushes. The TOML parser is a
  parameter, the record \<open>toml_crate\<close>.

  The property of this theory is what a node may rely on after both files were accepted:
  \<open>settings_ok\<close> of the resolved settings.
\<close>

datatype issue =
    HeartbeatIntervalZero
  | IntervalNotBelowTimeout duration duration
  | ConfigPollZero
  | DuplicateService string service
  | MustBePositive string
  | MustBeAtLeastOne string
  | CountAtLeastOne string
  | MustBePositiveNumber string
  | MinExceedsMax string nat nat
  | UrlRequired string
  | BadUrl string url_error
  | BadSourcePrefix string url_error
  | BadTargetName string

definition loc :: "string \<Rightarrow> string \<Rightarrow> string" where
  "loc tbl field = (if tbl = [] then field else tbl @ ''.'' @ field)"

definition push_if :: "bool \<Rightarrow> issue \<Rightarrow> issue list" where
  "push_if b i = (if b then [i] else [])"

definition is_zero :: "duration option \<Rightarrow> bool" where
  "is_zero d \<longleftrightarrow> (case d of None \<Rightarrow> False | Some v \<Rightarrow> v = 0)"

definition validate_target_name :: "string \<Rightarrow> bool" where
  "validate_target_name name \<longleftrightarrow>
     name \<noteq> [] \<and> length name \<le> 128
     \<and> list_all (\<lambda>c. is_ascii_alphanumeric c \<or> c = CHR ''_'' \<or> c = CHR ''-'') name"

definition check_resolved_target :: "crates \<Rightarrow> string \<Rightarrow> string \<times> resolved_mirror_target \<Rightarrow> issue list" where
  "check_resolved_target X tbl e =
     (let name = fst e; target = snd e in
      if rt_disabled target then []
      else
        (let table = loc tbl (''mirror.targets.'' @ name) in
         (case rt_url target of
            None \<Rightarrow> [UrlRequired table]
          | Some url \<Rightarrow>
              (case canonicalize_url X url of Inl e \<Rightarrow> [BadUrl table e] | Inr _ \<Rightarrow> []))
         @ (case rt_source_prefix target of
              None \<Rightarrow> []
            | Some prefix \<Rightarrow>
                (case canonicalize_url X prefix of Inl e \<Rightarrow> [BadSourcePrefix table e] | Inr _ \<Rightarrow> []))))"

definition check_resolved :: "crates \<Rightarrow> resolved_services \<Rightarrow> string \<Rightarrow> issue list" where
  "check_resolved X r tbl =
     (let s = rc_scheduler (rv_coordinator r) in
      push_if (rs_max_compaction_sources s < rs_min_compaction_sources s)
        (MinExceedsMax (loc tbl ''compactor-coordinator.scheduler'')
           (rs_min_compaction_sources s) (rs_max_compaction_sources s))
      @ concat (map (check_resolved_target X tbl) (rm_targets (rv_mirror r))))"

fun check_services :: "string \<Rightarrow> service set \<Rightarrow> service list \<Rightarrow> issue list" where
  "check_services tbl seen [] = []"
| "check_services tbl seen (s # ss) =
     push_if (s \<in> seen) (DuplicateService (loc tbl ''services'') s) @ check_services tbl (insert s seen) ss"

definition check_gc :: "string \<Rightarrow> gc_overrides \<Rightarrow> issue list" where
  "check_gc tbl gc =
     concat (map (\<lambda>(name, dir).
        (case dir of None \<Rightarrow> []
         | Some d \<Rightarrow> push_if (is_zero (gdo_interval d)) (MustBePositive (loc tbl (''gc.'' @ name @ ''.interval'')))))
       [(''manifest'', go_manifest gc), (''wal'', go_wal gc), (''wal_fence'', go_wal_fence gc),
        (''compacted'', go_compacted gc), (''compactions'', go_compactions gc)])
     @ (case go_detach gc of None \<Rightarrow> []
        | Some d \<Rightarrow> push_if (is_zero (gto_interval d)) (MustBePositive (loc tbl ''gc.detach.interval'')))"

definition check_scheduler :: "string \<Rightarrow> scheduler_overrides \<Rightarrow> issue list" where
  "check_scheduler tbl s =
     (let f = (\<lambda>name. loc tbl (''compactor-coordinator.scheduler.'' @ name)) in
      push_if (so_min_compaction_sources s = Some 0) (MustBeAtLeastOne (f ''min_compaction_sources''))
      @ push_if (so_max_compaction_sources s = Some 0) (MustBeAtLeastOne (f ''max_compaction_sources''))
      @ push_if (case so_include_size_threshold s of None \<Rightarrow> False | Some t \<Rightarrow> \<not> positive_number t)
          (MustBePositiveNumber (f ''include_size_threshold'')))"

definition check_coordinator :: "string \<Rightarrow> coordinator_overrides \<Rightarrow> issue list" where
  "check_coordinator tbl c =
     concat (map (\<lambda>(name, d). push_if (is_zero d) (MustBePositive (loc tbl (''compactor-coordinator.'' @ name))))
       [(''poll_interval'', co_poll_interval c),
        (''manifest_update_timeout'', co_manifest_update_timeout c),
        (''commit_compacted_interval'', co_commit_compacted_interval c),
        (''worker_heartbeat_timeout'', co_worker_heartbeat_timeout c)])
     @ push_if (co_max_concurrent_compactions c = Some 0)
         (MustBeAtLeastOne (loc tbl ''compactor-coordinator.max_concurrent_compactions''))
     @ (case co_scheduler c of None \<Rightarrow> [] | Some s \<Rightarrow> check_scheduler tbl s)"

definition check_target :: "string \<Rightarrow> string \<times> mirror_target_overrides \<Rightarrow> issue list" where
  "check_target tbl e =
     (let name = fst e; t = snd e; table = ''mirror.targets.'' @ name;
          f = (\<lambda>field. loc tbl (table @ ''.'' @ field)) in
      push_if (\<not> validate_target_name name) (BadTargetName (loc tbl table))
      @ concat (map (\<lambda>(field, d). push_if (is_zero d) (MustBePositive (f field)))
          [(''poll'', mto_poll t), (''interval'', mto_interval t), (''min_age'', mto_min_age t),
           (''checkpoint_lifetime'', mto_checkpoint_lifetime t)])
      @ push_if (mto_copy_parallelism t = Some 0) (MustBeAtLeastOne (f ''copy_parallelism''))
      @ (case mto_retention t of None \<Rightarrow> []
         | Some r \<Rightarrow> push_if (is_zero (ro_keep r)) (MustBePositive (f ''retention.keep''))))"

definition check_workers :: "string \<Rightarrow> workers_overrides \<Rightarrow> issue list" where
  "check_workers tbl w =
     (let f = (\<lambda>name. loc tbl (''compaction-workers.'' @ name)) in
      push_if (wo_count w = Some 0) (CountAtLeastOne (f ''count''))
      @ push_if (wo_max_concurrent_compactions w = Some 0) (MustBeAtLeastOne (f ''max_concurrent_compactions''))
      @ push_if (is_zero (wo_compactions_poll_interval w)) (MustBePositive (f ''compactions_poll_interval''))
      @ push_if (wo_max_fetch_tasks w = Some 0) (MustBeAtLeastOne (f ''max_fetch_tasks''))
      @ concat (map (\<lambda>(name, v). push_if (v = Some 0) (MustBePositive (f name)))
          [(''max_sst_size'', wo_max_sst_size w), (''bytes_to_fetch'', wo_bytes_to_fetch w)]))"

definition check_database :: "database_config \<Rightarrow> string \<Rightarrow> issue list" where
  "check_database d tbl =
     (case dc_services d of None \<Rightarrow> [] | Some ss \<Rightarrow> check_services tbl {} ss)
     @ (case dc_gc d of None \<Rightarrow> [] | Some gc \<Rightarrow> check_gc tbl gc)
     @ (case dc_compactor_coordinator d of None \<Rightarrow> [] | Some c \<Rightarrow> check_coordinator tbl c)
     @ (case dc_mirror d of None \<Rightarrow> [] | Some m \<Rightarrow> concat (map (check_target tbl) (mo_targets m)))
     @ (case dc_compaction_workers d of None \<Rightarrow> [] | Some w \<Rightarrow> check_workers tbl w)"

definition validate :: "crates \<Rightarrow> sleet_config \<Rightarrow> issue list + unit" where
  "validate X self =
     (let n = sc_node self;
          errs = push_if (heartbeat_interval n = 0) HeartbeatIntervalZero
            @ push_if (heartbeat_timeout n \<le> heartbeat_interval n)
                (IntervalNotBelowTimeout (heartbeat_interval n) (heartbeat_timeout n))
            @ push_if (config_poll n = 0) ConfigPollZero
            @ check_database (sc_database self) ''database''
            @ check_resolved X (resolve self None) ''database''
      in if errs = [] then Inr () else Inl errs)"

definition validate_database :: "crates \<Rightarrow> sleet_config \<Rightarrow> database_config \<Rightarrow> issue list + unit" where
  "validate_database X self db =
     (let errs = check_database db [] @ check_resolved X (resolve self (Some db)) ''resolved''
      in if errs = [] then Inr () else Inl errs)"

datatype parse_error = TomlError string | InvalidConfig "issue list"

record toml_crate =
  toml_config :: "string \<Rightarrow> string + sleet_config"
  toml_database :: "string \<Rightarrow> string + database_config"

definition parse_config :: "crates \<Rightarrow> toml_crate \<Rightarrow> string \<Rightarrow> parse_error + sleet_config" where
  "parse_config X T toml =
     (case toml_config T toml of
        Inl e \<Rightarrow> Inl (TomlError e)
      | Inr config \<Rightarrow>
          (case validate X config of Inl es \<Rightarrow> Inl (InvalidConfig es) | Inr _ \<Rightarrow> Inr config))"

definition parse_database ::
  "crates \<Rightarrow> toml_crate \<Rightarrow> sleet_config \<Rightarrow> string \<Rightarrow> parse_error + database_config" where
  "parse_database X T fleet toml =
     (case toml_database T toml of
        Inl e \<Rightarrow> Inl (TomlError e)
      | Inr db \<Rightarrow>
          (case validate_database X fleet db of Inl es \<Rightarrow> Inl (InvalidConfig es) | Inr _ \<Rightarrow> Inr db))"

subsection \<open>What accepted files guarantee\<close>

definition target_ok :: "crates \<Rightarrow> string \<Rightarrow> resolved_mirror_target \<Rightarrow> bool" where
  "target_ok X name t \<longleftrightarrow>
     validate_target_name name
     \<and> 0 < rt_poll t \<and> 0 < rt_interval t \<and> 0 < rt_min_age t \<and> 0 < rt_checkpoint_lifetime t
     \<and> 1 \<le> rt_copy_parallelism t \<and> rt_keep t \<noteq> Some 0
     \<and> (rt_disabled t
        \<or> (\<exists>url c. rt_url t = Some url \<and> canonicalize_url X url = Inr c)
          \<and> (rt_source_prefix t = None
             \<or> (\<exists>p c. rt_source_prefix t = Some p \<and> canonicalize_url X p = Inr c)))"

definition gc_ok :: "resolved_gc \<Rightarrow> bool" where
  "gc_ok g \<longleftrightarrow>
     0 < rgd_interval (rg_manifest g) \<and> 0 < rgd_interval (rg_wal g) \<and> 0 < rgd_interval (rg_wal_fence g)
     \<and> 0 < rgd_interval (rg_compacted g) \<and> 0 < rgd_interval (rg_compactions g)
     \<and> 0 < rgt_interval (rg_detach g)"

definition coordinator_ok :: "resolved_coordinator \<Rightarrow> bool" where
  "coordinator_ok c \<longleftrightarrow>
     0 < rc_poll_interval c \<and> 0 < rc_manifest_update_timeout c \<and> 0 < rc_commit_compacted_interval c
     \<and> 0 < rc_worker_heartbeat_timeout c \<and> 1 \<le> rc_max_concurrent_compactions c
     \<and> 1 \<le> rs_min_compaction_sources (rc_scheduler c)
     \<and> 1 \<le> rs_max_compaction_sources (rc_scheduler c)
     \<and> positive_number (rs_include_size_threshold (rc_scheduler c))"

definition workers_ok :: "resolved_workers \<Rightarrow> bool" where
  "workers_ok w \<longleftrightarrow>
     1 \<le> rw_count w \<and> 1 \<le> rw_max_concurrent_compactions w \<and> 0 < rw_compactions_poll_interval w
     \<and> 1 \<le> rw_max_fetch_tasks w \<and> 0 < rw_max_sst_size w \<and> 0 < rw_bytes_to_fetch w"

definition settings_ok :: "crates \<Rightarrow> resolved_services \<Rightarrow> bool" where
  "settings_ok X r \<longleftrightarrow>
     distinct (rv_services r) \<and> gc_ok (rv_gc r) \<and> coordinator_ok (rv_coordinator r)
     \<and> rs_min_compaction_sources (rc_scheduler (rv_coordinator r))
         \<le> rs_max_compaction_sources (rc_scheduler (rv_coordinator r))
     \<and> workers_ok (rv_workers r)
     \<and> list_all (\<lambda>(name, t). target_ok X name t) (rm_targets (rv_mirror r))"

lemma push_if_Nil [simp]: "push_if b i = [] \<longleftrightarrow> \<not> b"
  by (simp add: push_if_def)

lemma is_zero_iff [simp]: "is_zero d \<longleftrightarrow> d = Some 0"
  by (cases d) (auto simp: is_zero_def)

lemma nonzero_unwrap: "d \<noteq> Some 0 \<Longrightarrow> 0 < v \<Longrightarrow> 0 < unwrap_or d (v :: nat)"
  by (cases d) auto

lemma nonzero_unwrap_Suc: "d \<noteq> Some 0 \<Longrightarrow> Suc 0 \<le> v \<Longrightarrow> Suc 0 \<le> unwrap_or d v"
  by (cases d) auto

lemmas unwrap_pos = nonzero_unwrap nonzero_unwrap_Suc

lemma check_services_distinct:
  "check_services tbl seen ss = [] \<longleftrightarrow> distinct ss \<and> set ss \<inter> seen = {}"
  by (induction ss arbitrary: seen) auto

lemma gc_apply_ok: "check_gc tbl g = [] \<Longrightarrow> gc_ok r \<Longrightarrow> gc_ok (gc_apply g r)"
  by (auto simp: check_gc_def gc_ok_def gc_apply_closed set_opt_def gc_directory_apply_closed
      gc_detach_apply_closed intro!: unwrap_pos split: option.splits)

lemma scheduler_ok_apply:
  assumes "check_scheduler tbl s = []"
  shows "Suc 0 \<le> rs_min_compaction_sources r \<Longrightarrow> Suc 0 \<le> rs_min_compaction_sources (scheduler_apply s r)"
    and "Suc 0 \<le> rs_max_compaction_sources r \<Longrightarrow> Suc 0 \<le> rs_max_compaction_sources (scheduler_apply s r)"
    and "positive_number (rs_include_size_threshold r) \<Longrightarrow>
      positive_number (rs_include_size_threshold (scheduler_apply s r))"
  using assms
  by (auto simp: check_scheduler_def Let_def scheduler_apply_closed unwrap_or_def split: option.splits)

lemma coordinator_apply_ok:
  "check_coordinator tbl c = [] \<Longrightarrow> coordinator_ok r \<Longrightarrow> coordinator_ok (coordinator_apply c r)"
  using scheduler_ok_apply [of tbl]
  by (auto simp: check_coordinator_def coordinator_ok_def coordinator_apply_closed set_opt_def
      intro!: unwrap_pos split: option.splits)

lemma workers_apply_ok: "check_workers tbl w = [] \<Longrightarrow> workers_ok r \<Longrightarrow> workers_ok (workers_apply w r)"
  by (auto simp: check_workers_def workers_ok_def workers_apply_closed Let_def intro!: unwrap_pos)

definition cadence_ok :: "resolved_mirror_target \<Rightarrow> bool" where
  "cadence_ok t \<longleftrightarrow>
     0 < rt_poll t \<and> 0 < rt_interval t \<and> 0 < rt_min_age t \<and> 0 < rt_checkpoint_lifetime t
     \<and> 1 \<le> rt_copy_parallelism t \<and> rt_keep t \<noteq> Some 0"

lemma cadence_ok_default: "cadence_ok default_resolved_mirror_target"
  by (simp add: cadence_ok_def default_resolved_mirror_target_def)

lemma mirror_target_apply_ok:
  "check_target tbl (name, t) = [] \<Longrightarrow> cadence_ok r \<Longrightarrow> cadence_ok (mirror_target_apply t r)"
  by (cases "mto_retention t"; cases "Option.bind (mto_retention t) ro_keep")
     (auto simp: check_target_def Let_def cadence_ok_def mirror_target_apply_closed intro!: unwrap_pos)

lemma mirror_fold_ok:
  assumes "\<forall>e \<in> set ts. check_target tbl e = []"
    and "bt_wf m" and "\<forall>e \<in> set m. validate_target_name (fst e) \<and> cadence_ok (snd e)"
  shows "\<forall>e \<in> set (fold (\<lambda>nt m. bt_insert (fst nt)
                (mirror_target_apply (snd nt) (unwrap_or (bt_get m (fst nt)) default_resolved_mirror_target)) m)
          ts m). validate_target_name (fst e) \<and> cadence_ok (snd e)"
  using assms
proof (induction ts arbitrary: m)
  case (Cons nt ts)
  let ?t = "mirror_target_apply (snd nt) (unwrap_or (bt_get m (fst nt)) default_resolved_mirror_target)"
  have name: "validate_target_name (fst nt)"
    using Cons.prems(1) by (cases nt) (simp add: check_target_def Let_def)
  have old: "cadence_ok (unwrap_or (bt_get m (fst nt)) default_resolved_mirror_target)"
    using Cons.prems(3) cadence_ok_default
    by (cases "bt_get m (fst nt)") (auto dest!: map_of_SomeD)
  have "cadence_ok ?t"
    using Cons.prems(1) old mirror_target_apply_ok [of tbl "fst nt" "snd nt"] by simp
  then have new: "\<forall>e \<in> set (bt_insert (fst nt) ?t m). validate_target_name (fst e) \<and> cadence_ok (snd e)"
    using name Cons.prems(3) set_bt_insert [of "fst nt" ?t m] by fastforce
  have "\<forall>e \<in> set ts. check_target tbl e = []" using Cons.prems(1) by simp
  from Cons.IH [OF this bt_wf_insert [OF Cons.prems(2)] new] show ?case by simp
qed simp

lemma mirror_apply_ok:
  assumes "\<forall>e \<in> set (mo_targets m). check_target tbl e = []" and "bt_wf (rm_targets r)"
    and "\<forall>e \<in> set (rm_targets r). validate_target_name (fst e) \<and> cadence_ok (snd e)"
  shows "\<forall>e \<in> set (rm_targets (mirror_apply m r)). validate_target_name (fst e) \<and> cadence_ok (snd e)"
  using mirror_fold_ok [OF assms] by (simp add: mirror_apply_def)

definition layer_ok :: "resolved_services \<Rightarrow> bool" where
  "layer_ok r \<longleftrightarrow>
     distinct (rv_services r) \<and> gc_ok (rv_gc r) \<and> coordinator_ok (rv_coordinator r)
     \<and> workers_ok (rv_workers r) \<and> bt_wf (rm_targets (rv_mirror r))
     \<and> (\<forall>e \<in> set (rm_targets (rv_mirror r)). validate_target_name (fst e) \<and> cadence_ok (snd e))"

lemma layer_ok_default: "layer_ok default_resolved_services"
  by (simp add: layer_ok_def default_resolved_services_def ALL_SERVICES_def gc_ok_def coordinator_ok_def
      workers_ok_def default_resolved_gc_def default_resolved_gc_directory_def Let_def
      default_resolved_gc_detach_def default_resolved_coordinator_def default_resolved_scheduler_def
      default_resolved_workers_def)

lemma layer_ok_apply:
  assumes "check_database d tbl = []" and "layer_ok r"
  shows "layer_ok (database_apply d r)"
proof -
  have "distinct (unwrap_or (dc_services d) (rv_services r))"
    using assms by (cases "dc_services d") (auto simp: layer_ok_def check_database_def check_services_distinct)
  moreover have "gc_ok (set_opt gc_apply (dc_gc d) (rv_gc r))"
    using assms gc_apply_ok by (cases "dc_gc d") (auto simp: layer_ok_def check_database_def)
  moreover have "coordinator_ok (set_opt coordinator_apply (dc_compactor_coordinator d) (rv_coordinator r))"
    using assms coordinator_apply_ok
    by (cases "dc_compactor_coordinator d") (auto simp: layer_ok_def check_database_def)
  moreover have "workers_ok (set_opt workers_apply (dc_compaction_workers d) (rv_workers r))"
    using assms workers_apply_ok
    by (cases "dc_compaction_workers d") (auto simp: layer_ok_def check_database_def)
  moreover have "bt_wf (rm_targets (set_opt mirror_apply (dc_mirror d) (rv_mirror r)))"
    using assms mirror_apply_wf by (cases "dc_mirror d") (auto simp: layer_ok_def)
  moreover have "\<forall>e \<in> set (rm_targets (set_opt mirror_apply (dc_mirror d) (rv_mirror r))).
      validate_target_name (fst e) \<and> cadence_ok (snd e)"
    using assms mirror_apply_ok [of _ tbl "rv_mirror r"]
    by (cases "dc_mirror d") (auto simp: layer_ok_def check_database_def)
  ultimately show ?thesis by (simp add: layer_ok_def database_apply_closed)
qed

lemma check_resolved_target_ok:
  assumes "check_resolved_target X tbl (name, t) = []" and "validate_target_name name" and "cadence_ok t"
  shows "target_ok X name t"
  using assms
  by (cases "rt_disabled t")
     (auto simp: check_resolved_target_def Let_def target_ok_def cadence_ok_def
       split: option.splits sum.splits)

lemma resolved_settings_ok:
  assumes "check_resolved X r tbl = []" and "layer_ok r"
  shows "settings_ok X r"
  using assms check_resolved_target_ok [of X tbl]
  by (auto simp: settings_ok_def layer_ok_def check_resolved_def Let_def list_all_iff not_less)

lemma validate_layer: "validate X cfg = Inr () \<Longrightarrow> check_database (sc_database cfg) ''database'' = []"
  by (auto simp: validate_def Let_def split: if_splits)

lemma validated_settings:
  assumes v: "validate X cfg = Inr ()"
  shows "settings_ok X (resolve cfg None) \<and> 0 < heartbeat_interval (sc_node cfg)
    \<and> heartbeat_interval (sc_node cfg) < heartbeat_timeout (sc_node cfg) \<and> 0 < config_poll (sc_node cfg)"
proof -
  have fleet: "layer_ok (resolve cfg None)"
    using layer_ok_apply [OF validate_layer [OF v] layer_ok_default] by (simp add: resolve_def)
  have "settings_ok X (resolve cfg None)"
    using v fleet
    by (intro resolved_settings_ok [where tbl = "''database''"])
       (auto simp: validate_def Let_def resolve_def split: if_splits)
  then show ?thesis using v by (auto simp: validate_def Let_def split: if_splits)
qed

lemma validated_database_settings:
  assumes v: "validate X cfg = Inr ()" and d: "validate_database X cfg db = Inr ()"
  shows "settings_ok X (resolve cfg (Some db))"
proof -
  have d': "check_database db [] = []" "check_resolved X (resolve cfg (Some db)) ''resolved'' = []"
    using d by (auto simp: validate_database_def Let_def split: if_splits)
  have fleet: "layer_ok (database_apply (sc_database cfg) default_resolved_services)"
    by (rule layer_ok_apply [OF validate_layer [OF v] layer_ok_default])
  have "layer_ok (resolve cfg (Some db))"
    using layer_ok_apply [OF d'(1) fleet] by (simp add: resolve_def)
  with d'(2) show ?thesis by (rule resolved_settings_ok)
qed

lemma default_config_valid: "validate X default_sleet_config = Inr ()"
  by (simp add: validate_def Let_def default_sleet_config_def
      default_node_config_def check_database_def default_database_config_def check_resolved_def
      resolve_def database_apply_closed default_resolved_services_def default_resolved_coordinator_def
      default_resolved_scheduler_def push_if_def from_secs_def)

text \<open>
  C26. Configuration soundness: if a node accepted the fleet's \<^verbatim>\<open>sleet.toml\<close> and, layered on it, a
  database's file, then the resolved settings it runs with are usable: no service twice, every
  interval that paces a loop positive, at least one worker, compaction and fetch slot, a
  scheduler with 1 at most min at most max and a positive threshold, and every mirror target
  well named, with positive cadence and, unless disabled, with a URL (and prefix) that
  canonicalizes. The same holds for a database without a file of its own.
\<close>

theorem accepted_config_ok:
  assumes "parse_config X T toml = Inr cfg"
  shows "settings_ok X (resolve cfg None)
    \<and> (\<forall>dbtoml db. parse_database X T cfg dbtoml = Inr db \<longrightarrow> settings_ok X (resolve cfg (Some db)))
    \<and> 0 < heartbeat_interval (sc_node cfg)
    \<and> heartbeat_interval (sc_node cfg) < heartbeat_timeout (sc_node cfg)
    \<and> 0 < config_poll (sc_node cfg)"
proof -
  have v: "validate X cfg = Inr ()"
    using assms by (auto simp: parse_config_def split: sum.splits)
  have "validate_database X cfg db = Inr ()" if "parse_database X T cfg dbtoml = Inr db" for dbtoml db
    using that by (auto simp: parse_database_def split: sum.splits)
  then show ?thesis using validated_settings [OF v] validated_database_settings [OF v] by blast
qed

definition demo_toml :: toml_crate where
  "demo_toml =
     \<lparr>toml_config = (\<lambda>s. if s = [] then Inr default_sleet_config else Inl ''unsupported''),
      toml_database = (\<lambda>s. if s = [] then Inr default_database_config
         else if s = ''off'' then Inr (default_database_config\<lparr>dc_services := Some []\<rparr>)
         else Inl ''unsupported'')\<rparr>"

lemma default_config_accepted: "parse_config demo_crates demo_toml [] = Inr default_sleet_config"
  by (simp add: parse_config_def demo_toml_def default_config_valid)

theorem accepted_config_ok_witness: "settings_ok demo_crates (resolve default_sleet_config None)"
  using accepted_config_ok [OF default_config_accepted] by simp

end
