(* ===== verification/Heartbeat.thy ===== *)
theory Heartbeat
  imports Config
begin

text \<open>
  \<^verbatim>\<open>src/heartbeat.rs\<close>: node ids, heartbeat object names and the heartbeat body. Placement reads
  names only, so what matters is that a name determines its node and its services: the round
  trip of \<open>object_name\<close> and \<open>parse_object_name\<close>.
\<close>

definition HEARTBEAT_VERSION :: nat where
  "HEARTBEAT_VERSION = 1"

definition validate_node_id :: "string \<Rightarrow> string + string" where
  "validate_node_id node_id =
     (if node_id \<noteq> [] \<and> length node_id \<le> 128
         \<and> list_all (\<lambda>c. is_ascii_alphanumeric c \<or> c = CHR ''_'' \<or> c = CHR ''-'') node_id
      then Inr node_id
      else Inl ''node ids are 1-128 chars of [A-Za-z0-9_-]'')"

definition object_name :: "string \<Rightarrow> service list \<Rightarrow> string" where
  "object_name node_id services =
     (let letters = map letter services;
          letters = sort letters;
          letters = remdups_adj letters
      in node_id @ ''.'' @ letters @ ''.json'')"

definition parse_object_name :: "string \<Rightarrow> (string \<times> service list) option" where
  "parse_object_name name =
     (case strip_suffix name ''.json'' of
        None \<Rightarrow> None
      | Some stem \<Rightarrow>
          (case rsplit_once stem (CHR ''.'') of
             None \<Rightarrow> None
           | Some (node_id, letters) \<Rightarrow>
               if node_id = [] then None
               else Some (node_id, sort (List.map_filter from_letter letters))))"

record service_summary =
  ss_service :: service
  ss_running :: nat
  ss_backoff :: nat

definition empty_summary :: "service \<Rightarrow> service_summary" where
  "empty_summary s = \<lparr>ss_service = s, ss_running = 0, ss_backoff = 0\<rparr>"

record heartbeat =
  hb_version :: nat
  hb_node_id :: string
  hb_sleet_version :: string
  hb_slatedb_version :: string
  hb_services :: "service_summary list"

definition new_heartbeat :: "string \<Rightarrow> string \<Rightarrow> string \<Rightarrow> service_summary list \<Rightarrow> heartbeat" where
  "new_heartbeat sleet_version node_id slatedb_version services =
     \<lparr>hb_version = HEARTBEAT_VERSION, hb_node_id = node_id, hb_sleet_version = sleet_version,
      hb_slatedb_version = slatedb_version, hb_services = services\<rparr>"

subsection \<open>Letters\<close>

lemma letter_chars: "letter s \<noteq> CHR ''.'' \<and> letter s \<noteq> CHR ''/''"
  by (cases s) auto

lemma letters_chars: "\<forall>c \<in> set (remdups_adj (sort (map letter ss))). c \<noteq> CHR ''.'' \<and> c \<noteq> CHR ''/''"
  by (simp add: letter_chars)

lemma distinct_remdups_adj_sort: "distinct (remdups_adj (sort (xs :: 'a::linorder list)))"
proof -
  have "sorted ys \<Longrightarrow> distinct (remdups_adj ys)" for ys :: "'a list"
    by (induction ys rule: remdups_adj.induct) (auto simp: less_le)
  then show ?thesis by simp
qed

lemma map_filter_letters:
  "set ls \<subseteq> range letter \<Longrightarrow>
     set (List.map_filter from_letter ls) = {s. letter s \<in> set ls}
     \<and> (distinct ls \<longrightarrow> distinct (List.map_filter from_letter ls))"
proof (induction ls)
  case (Cons c ls)
  then obtain s where c: "c = letter s" by auto
  with Cons show ?case by (auto simp: List.map_filter_simps)
qed (simp add: List.map_filter_simps)

lemma letters_decode:
  "sort (List.map_filter from_letter (remdups_adj (sort (map letter ss)))) = sorted_list_of_set (set ss)"
proof -
  let ?l = "remdups_adj (sort (map letter ss))"
  have l: "set ?l = letter ` set ss" by simp
  then have "set ?l \<subseteq> range letter" by auto
  from map_filter_letters [OF this] l
  have "set (List.map_filter from_letter ?l) = set ss" "distinct (List.map_filter from_letter ?l)"
    by (auto simp: distinct_remdups_adj_sort)
  then show ?thesis by (simp add: sorted_list_of_set_sort_remdups distinct_remdups_id flip: \<open>_ = set ss\<close>)
qed

lemma id_char: "\<not> (is_ascii_alphanumeric c \<or> c = CHR ''_'' \<or> c = CHR ''-'')"
  if "c = CHR ''.'' \<or> c = CHR ''/''" for c
  using that
  by (elim disjE) (simp_all add: is_ascii_alphanumeric_def is_digit_def is_ascii_uppercase_def
      between_def byte_of_def)

lemma node_id_chars:
  assumes "validate_node_id a = Inr a'"
  shows "\<forall>c \<in> set a. c \<noteq> CHR ''.'' \<and> c \<noteq> CHR ''/''"
proof -
  have "list_all (\<lambda>c. is_ascii_alphanumeric c \<or> c = CHR ''_'' \<or> c = CHR ''-'') a"
    using assms by (simp add: validate_node_id_def split: if_splits)
  then show ?thesis unfolding list_all_iff using id_char by blast
qed

lemma parse_written_name:
  "parse_object_name (object_name node_id services) =
     (if node_id = [] then None else Some (node_id, sorted_list_of_set (set services)))"
proof -
  let ?l = "remdups_adj (sort (map letter services))"
  have dot: "CHR ''.'' \<notin> set ?l" using letters_chars [of services] by blast
  have "strip_suffix (object_name node_id services) ''.json'' = Some (node_id @ CHR ''.'' # ?l)"
    using strip_suffix_append [of "node_id @ CHR ''.'' # ?l" "''.json''"] by (simp add: object_name_def)
  then show ?thesis
    using rsplit_once_append [OF dot, of node_id] by (simp add: parse_object_name_def letters_decode)
qed

text \<open>
  C35. Heartbeat names round-trip: parsing the name a node writes gives back its id and exactly
  the services it offers, without repetition and in canonical order. The id may even contain
  dots; only an empty one is rejected.
\<close>

theorem heartbeat_name_roundtrip:
  "parse_object_name (object_name node_id services) =
     (if node_id = [] then None else Some (node_id, sorted_list_of_set (set services)))"
  by (rule parse_written_name)

text \<open>
  A heartbeat name identifies its node: two accepted node ids with the same object name are
  equal and offer the same services, and the name has exactly two dots and no slash, so it is
  one key under \<^verbatim>\<open>nodes/\<close>.
\<close>

theorem heartbeat_name_identifies:
  assumes "validate_node_id a = Inr a'" and "validate_node_id b = Inr b'"
  shows "(object_name a ss = object_name b ts \<longleftrightarrow> a = b \<and> set ss = set ts)
    \<and> count_list (object_name a ss) (CHR ''.'') = 2 \<and> CHR ''/'' \<notin> set (object_name a ss)"
proof (intro conjI iffI)
  have ne: "a \<noteq> []" "b \<noteq> []" using assms by (auto simp: validate_node_id_def split: if_splits)
  assume eq: "object_name a ss = object_name b ts"
  have "(a, sorted_list_of_set (set ss)) = (b, sorted_list_of_set (set ts))"
    using parse_written_name [of a ss] parse_written_name [of b ts] eq ne by simp
  then show "a = b" and "set ss = set ts"
    by (auto dest: arg_cong [where f = set])
next
  show "object_name a ss = object_name b ts" if "a = b \<and> set ss = set ts"
  proof -
    have "remdups_adj (sort (map letter ss)) = remdups_adj (sort (map letter ts))"
      using that by (intro sorted_distinct_set_unique) (simp_all add: distinct_remdups_adj_sort)
    then show ?thesis using that by (simp add: object_name_def)
  qed
next
  have chars: "\<forall>c \<in> set a. c \<noteq> CHR ''.'' \<and> c \<noteq> CHR ''/''"
    using assms(1) by (rule node_id_chars)
  let ?l = "remdups_adj (sort (map letter ss))"
  have l: "\<forall>c \<in> set ?l. c \<noteq> CHR ''.'' \<and> c \<noteq> CHR ''/''" by (rule letters_chars)
  from chars l have "count_list a (CHR ''.'') = 0" "count_list ?l (CHR ''.'') = 0"
    unfolding count_list_0_iff by blast+
  then show "count_list (object_name a ss) (CHR ''.'') = 2" by (simp add: object_name_def)
  from chars l have "CHR ''/'' \<notin> set a" "CHR ''/'' \<notin> set ?l" by blast+
  then show "CHR ''/'' \<notin> set (object_name a ss)" by (simp add: object_name_def)
qed

theorem heartbeat_name_identifies_witness:
  "object_name ''sleet-1'' [Gc, Mirror] \<noteq> object_name ''sleet-2'' [Gc, Mirror]"
  using heartbeat_name_identifies [of "''sleet-1''" "''sleet-1''" "''sleet-2''" "''sleet-2''"
      "[Gc, Mirror]" "[Gc, Mirror]"]
  by (simp add: validate_node_id_def is_ascii_alphanumeric_def is_digit_def is_ascii_uppercase_def
      between_def byte_of_def)

end
