(* ===== verification/Fleet_Root.thy ===== *)
theory Fleet_Root
  imports Config_Validate Heartbeat
begin

text \<open>
  \<^verbatim>\<open>src/root.rs\<close>: the fleet root and the reads every node performs against it.

  A read is answered by the object store, a third party: one poll or one tick sees an
  arbitrary answer per request, the record \<open>store_view\<close> (a LIST answer per prefix, a GET
  answer per path, each possibly an error, and the body of a GET possibly failing later).
  Since every theorem quantifies over the view, any interleaving with writers, any stale
  listing and any fault is covered. Paths are strings with \<open>/\<close> between segments, which is
  what \<^verbatim>\<open>object_store::path::Path\<close> joins for segments made of the characters registry files
  and heartbeats use. Warnings are constructors, one per \<^verbatim>\<open>warnings.push\<close>.
\<close>

datatype store_error = NotFound | AlreadyExists | OtherError string

datatype open_error = RootUrl url_error | RootStore store_error

record object_meta =
  om_location :: string
  om_last_modified :: datetime
  om_size :: nat
  om_e_tag :: "string option"

record get_answer =
  ga_e_tag :: "string option"
  ga_bytes :: "store_error + string"

record store_view =
  sv_list :: "string \<Rightarrow> store_error + object_meta list"
  sv_get :: "string \<Rightarrow> store_error + get_answer"

definition path_join :: "string \<Rightarrow> string \<Rightarrow> string" where
  "path_join p seg = (if p = [] then seg else p @ ''/'' @ seg)"

definition filename :: "string \<Rightarrow> string option" where
  "filename p =
     (case rsplit_once p (CHR ''/'') of
        Some (_, f) \<Rightarrow> Some f
      | None \<Rightarrow> if p = [] then None else Some p)"

record fleet_root =
  fr_prefix :: string
  fr_url :: string

definition config_path :: "fleet_root \<Rightarrow> string" where
  "config_path root = path_join (fr_prefix root) ''sleet.toml''"

definition dbs_prefix :: "fleet_root \<Rightarrow> string" where
  "dbs_prefix root = path_join (fr_prefix root) ''dbs''"

definition nodes_prefix :: "fleet_root \<Rightarrow> string" where
  "nodes_prefix root = path_join (fr_prefix root) ''nodes''"

definition database_path :: "crates \<Rightarrow> fleet_root \<Rightarrow> string \<Rightarrow> string" where
  "database_path X root canonical_url = dbs_prefix root @ ''/'' @ file_name X canonical_url"

definition node_path :: "fleet_root \<Rightarrow> string \<Rightarrow> string" where
  "node_path root name = path_join (nodes_prefix root) name"

definition root_list :: "store_view \<Rightarrow> string \<Rightarrow> store_error + object_meta list" where
  "root_list V pre =
     (case sv_list V pre of
        Inr metas \<Rightarrow> Inr metas
      | Inl NotFound \<Rightarrow> Inr []
      | Inl e \<Rightarrow> Inl e)"

subsection \<open>Heartbeats and the live set\<close>

record heartbeat_entry =
  he_node_id :: string
  he_services :: "service list"
  he_age :: duration
  he_location :: string

definition heartbeat_entry_of :: "datetime \<Rightarrow> object_meta \<Rightarrow> heartbeat_entry option" where
  "heartbeat_entry_of now meta =
     (case filename (om_location meta) of
        None \<Rightarrow> None
      | Some name \<Rightarrow>
          (case parse_object_name name of
             None \<Rightarrow> None
           | Some (node_id, services) \<Rightarrow>
               Some \<lparr>he_node_id = node_id, he_services = services,
                     he_age = nat (now - om_last_modified meta), he_location = om_location meta\<rparr>))"

definition list_heartbeats ::
  "fleet_root \<Rightarrow> store_view \<Rightarrow> datetime \<Rightarrow> store_error + heartbeat_entry list" where
  "list_heartbeats root V now =
     (case root_list V (nodes_prefix root) of
        Inl e \<Rightarrow> Inl e
      | Inr metas \<Rightarrow> Inr (List.map_filter (heartbeat_entry_of now) metas))"

record node_view_entry =
  nv_node_id :: string
  nv_services :: "service list"
  nv_age :: duration

definition keep_youngest ::
  "heartbeat_entry \<Rightarrow> (string, heartbeat_entry) btree \<Rightarrow> (string, heartbeat_entry) btree" where
  "keep_youngest entry by_id =
     (case bt_get by_id (he_node_id entry) of
        Some existing \<Rightarrow>
          if he_age existing \<le> he_age entry then by_id else bt_insert (he_node_id entry) entry by_id
      | None \<Rightarrow> bt_insert (he_node_id entry) entry by_id)"

definition youngest_per_node :: "heartbeat_entry list \<Rightarrow> (string, heartbeat_entry) btree" where
  "youngest_per_node entries = fold keep_youngest entries []"

definition node_view :: "heartbeat_entry list \<Rightarrow> duration \<Rightarrow> node_view_entry list" where
  "node_view entries timeout =
     map (\<lambda>e. \<lparr>nv_node_id = he_node_id e, nv_services = he_services e, nv_age = he_age e\<rparr>)
       (filter (\<lambda>e. he_age e < timeout) (map snd (youngest_per_node entries)))"

text \<open>The youngest heartbeat of a node, the first of them when ages tie.\<close>

definition is_youngest :: "heartbeat_entry list \<Rightarrow> heartbeat_entry \<Rightarrow> bool" where
  "is_youngest entries e \<longleftrightarrow>
     (\<exists>older newer. entries = older @ e # newer
        \<and> (\<forall>x \<in> set older. he_node_id x = he_node_id e \<longrightarrow> he_age e < he_age x)
        \<and> (\<forall>x \<in> set newer. he_node_id x = he_node_id e \<longrightarrow> he_age e \<le> he_age x))"

lemma is_youngest_in: "is_youngest es e \<Longrightarrow> e \<in> set es"
  by (auto simp: is_youngest_def)

lemma is_youngest_snoc_keep:
  "is_youngest es e \<Longrightarrow> (he_node_id x = he_node_id e \<longrightarrow> he_age e \<le> he_age x) \<Longrightarrow>
     is_youngest (es @ [x]) e"
proof -
  assume "is_youngest es e" and x: "he_node_id x = he_node_id e \<longrightarrow> he_age e \<le> he_age x"
  then obtain older newer where "es = older @ e # newer"
      "\<forall>y \<in> set older. he_node_id y = he_node_id e \<longrightarrow> he_age e < he_age y"
      "\<forall>y \<in> set newer. he_node_id y = he_node_id e \<longrightarrow> he_age e \<le> he_age y"
    unfolding is_youngest_def by blast
  then show "is_youngest (es @ [x]) e"
    unfolding is_youngest_def using x
    by (intro exI [of _ older] exI [of _ "newer @ [x]"]) auto
qed

lemma is_youngest_snoc_new:
  "\<forall>y \<in> set es. he_node_id y = he_node_id x \<longrightarrow> he_age x < he_age y \<Longrightarrow> is_youngest (es @ [x]) x"
  unfolding is_youngest_def by (rule exI [of _ es], rule exI [of _ "[]"]) auto

lemma is_youngest_min:
  "is_youngest es e \<Longrightarrow> x \<in> set es \<Longrightarrow> he_node_id x = he_node_id e \<Longrightarrow> he_age e \<le> he_age x"
  by (auto simp: is_youngest_def less_imp_le)

lemma is_youngestI:
  assumes "e \<in> set es" and "\<And>x. x \<in> set es \<Longrightarrow> he_node_id x = he_node_id e \<Longrightarrow> x = e \<or> he_age e < he_age x"
  shows "is_youngest es e"
proof -
  obtain older newer where es: "es = older @ e # newer" and "e \<notin> set older" using split_list_first [OF assms(1)] by blast
  then show ?thesis
    unfolding is_youngest_def using assms(2) by (intro exI [of _ older] exI [of _ newer]) force
qed

definition youngest_map :: "heartbeat_entry list \<Rightarrow> (string, heartbeat_entry) btree \<Rightarrow> bool" where
  "youngest_map es m \<longleftrightarrow>
     bt_wf m \<and> (\<forall>k. case bt_get m k of
        None \<Rightarrow> \<forall>x \<in> set es. he_node_id x \<noteq> k
      | Some e \<Rightarrow> he_node_id e = k \<and> is_youngest es e)"

lemma youngest_map_step:
  assumes "youngest_map es m"
  shows "youngest_map (es @ [x]) (keep_youngest x m)"
proof -
  have wf: "bt_wf m" and get: "\<And>k. case bt_get m k of
        None \<Rightarrow> \<forall>x \<in> set es. he_node_id x \<noteq> k
      | Some e \<Rightarrow> he_node_id e = k \<and> is_youngest es e"
    using assms by (simp_all add: youngest_map_def)
  let ?i = "he_node_id x"
  show ?thesis
  proof (cases "\<exists>e. bt_get m ?i = Some e \<and> he_age e \<le> he_age x")
    case True
    then have eq: "keep_youngest x m = m" by (auto simp: keep_youngest_def)
    show ?thesis unfolding youngest_map_def eq
    proof (intro conjI allI)
      fix k
      show "case bt_get m k of None \<Rightarrow> \<forall>x' \<in> set (es @ [x]). he_node_id x' \<noteq> k
          | Some e \<Rightarrow> he_node_id e = k \<and> is_youngest (es @ [x]) e"
        using get [of k] True by (auto split: option.splits intro: is_youngest_snoc_keep)
    qed (rule wf)
  next
    case False
    then have eq: "keep_youngest x m = bt_insert ?i x m"
      by (auto simp: keep_youngest_def split: option.splits)
    have new: "is_youngest (es @ [x]) x"
    proof (rule is_youngest_snoc_new, intro ballI impI)
      fix y assume "y \<in> set es" "he_node_id y = ?i"
      then show "he_age x < he_age y"
        using get [of ?i] False is_youngest_min [of es _ y] by (fastforce split: option.splits)
    qed
    show ?thesis unfolding youngest_map_def eq
    proof (intro conjI allI)
      fix k
      show "case bt_get (bt_insert ?i x m) k of None \<Rightarrow> \<forall>x' \<in> set (es @ [x]). he_node_id x' \<noteq> k
          | Some e \<Rightarrow> he_node_id e = k \<and> is_youngest (es @ [x]) e"
        using get [of k] new wf
        by (auto simp: bt_get_insert split: option.splits intro: is_youngest_snoc_keep)
    qed (rule bt_wf_insert [OF wf])
  qed
qed

lemma youngest_per_node_map: "youngest_map es (youngest_per_node es)"
proof (induction es rule: rev_induct)
  case Nil
  show ?case by (simp add: youngest_map_def youngest_per_node_def)
next
  case (snoc x es)
  then show ?case using youngest_map_step [of es _ x] by (simp add: youngest_per_node_def)
qed

lemma youngest_per_node_wf: "bt_wf (youngest_per_node es)"
  using youngest_per_node_map [of es] by (simp add: youngest_map_def)

lemma youngest_per_node_get:
  "bt_get (youngest_per_node es) k = Some e \<Longrightarrow> he_node_id e = k \<and> is_youngest es e"
  using youngest_per_node_map [of es] by (auto simp: youngest_map_def split: option.splits)

lemma youngest_per_node_dom:
  "bt_get (youngest_per_node es) k = None \<longleftrightarrow> (\<forall>e \<in> set es. he_node_id e \<noteq> k)"
proof (cases "bt_get (youngest_per_node es) k")
  case None
  have "case bt_get (youngest_per_node es) k of
      None \<Rightarrow> \<forall>x \<in> set es. he_node_id x \<noteq> k | Some e \<Rightarrow> he_node_id e = k \<and> is_youngest es e"
    using youngest_per_node_map [of es] unfolding youngest_map_def by blast
  with None show ?thesis by simp
next
  case (Some e)
  then show ?thesis using youngest_per_node_get [OF Some] is_youngest_in [of es e] by auto
qed

lemma is_youngest_unique:
  assumes "is_youngest es a" and "is_youngest es b" and "he_node_id a = he_node_id b"
  shows "a = b"
proof -
  obtain o1 n1 where es1: "es = o1 @ a # n1"
    and 1: "\<forall>x \<in> set o1. he_node_id x = he_node_id a \<longrightarrow> he_age a < he_age x"
    using assms(1) unfolding is_youngest_def by blast
  obtain o2 n2 where es2: "es = o2 @ b # n2"
    and 2: "\<forall>x \<in> set o2. he_node_id x = he_node_id b \<longrightarrow> he_age b < he_age x"
    using assms(2) unfolding is_youngest_def by blast
  have ages: "he_age a \<le> he_age b" "he_age b \<le> he_age a"
    using assms is_youngest_min is_youngest_in by metis+
  have "a \<notin> set o2" "b \<notin> set o1" using 1 2 ages assms(3) by auto
  then show ?thesis
    using es1 es2 by (auto simp: append_eq_append_conv2 append_eq_Cons_conv Cons_eq_append_conv)
qed

lemma youngest_per_node_iff:
  "(k, e) \<in> set (youngest_per_node es) \<longleftrightarrow> he_node_id e = k \<and> is_youngest es e"
proof
  assume "(k, e) \<in> set (youngest_per_node es)"
  then have "bt_get (youngest_per_node es) k = Some e"
    by (simp add: bt_get_iff youngest_per_node_wf)
  then show "he_node_id e = k \<and> is_youngest es e" by (rule youngest_per_node_get)
next
  assume e: "he_node_id e = k \<and> is_youngest es e"
  then have "e \<in> set es" by (auto dest: is_youngest_in)
  then obtain e' where e': "bt_get (youngest_per_node es) k = Some e'"
    using e youngest_per_node_dom [of es k] by (cases "bt_get (youngest_per_node es) k") auto
  then have "e' = e" using e youngest_per_node_get [OF e'] is_youngest_unique by blast
  then show "(k, e) \<in> set (youngest_per_node es)" using e' by (simp add: map_of_SomeD)
qed

lemma node_view_ids_sorted: "sorted_wrt (<) (map nv_node_id (node_view es timeout))"
proof -
  have "\<forall>p \<in> set (youngest_per_node es). he_node_id (snd p) = fst p"
    by (auto simp: youngest_per_node_iff)
  then have *: "map nv_node_id (node_view es timeout)
      = map fst (filter (\<lambda>p. he_age (snd p) < timeout) (youngest_per_node es))"
    by (simp add: node_view_def filter_map comp_def)
  have "bt_wf (filter (\<lambda>p. he_age (snd p) < timeout) (youngest_per_node es))"
    by (rule bt_wf_filter [OF youngest_per_node_wf])
  then show ?thesis unfolding * bt_wf_def .
qed

lemma node_view_ids_distinct: "distinct (map nv_node_id (node_view es timeout))"
  using node_view_ids_sorted strict_sorted_iff by blast

lemma node_view_iff:
  "v \<in> set (node_view es timeout) \<longleftrightarrow>
     (\<exists>e. is_youngest es e \<and> he_age e < timeout
        \<and> v = \<lparr>nv_node_id = he_node_id e, nv_services = he_services e, nv_age = he_age e\<rparr>)"
proof -
  have "e \<in> snd ` set (youngest_per_node es) \<longleftrightarrow> is_youngest es e" for e
    by (auto simp: image_iff Bex_def youngest_per_node_iff)
  then show ?thesis by (auto simp: node_view_def)
qed

text \<open>
  C23. The live set: a node is in \<^verbatim>\<open>node_view\<close> exactly when its youngest heartbeat is younger
  than the timeout, with the services and age of that heartbeat; the view lists each node once,
  in ascending id order. So a role change (two names for a moment) resolves to the newest name
  and a dead node is never a candidate.
\<close>

theorem node_view_correct:
  "(v \<in> set (node_view es timeout) \<longleftrightarrow>
      (\<exists>e. is_youngest es e \<and> he_age e < timeout
         \<and> v = \<lparr>nv_node_id = he_node_id e, nv_services = he_services e, nv_age = he_age e\<rparr>))
   \<and> sorted_wrt (<) (map nv_node_id (node_view es timeout))"
  by (intro conjI node_view_iff node_view_ids_sorted)

end
