(* ===== verification/Config_Poller.thy ===== *)
theory Config_Poller
  imports Fleet_Root
begin

text \<open>
  \<^verbatim>\<open>src/root.rs\<close>, \<^verbatim>\<open>ConfigPoller\<close>: the read of the fleet's intent, with the last-good config and
  the ETag cache of registry files as its state. One poll is a function of the poller and of
  the answers \<open>store_view\<close> the object store gives during it. Warnings are constructors, one per
  \<^verbatim>\<open>warnings.push\<close>.
\<close>

datatype read_error = StoreFailed store_error | NotUtf8 string | Rejected parse_error

datatype warning =
    ConfigUnreadable string store_error
  | ConfigRejected string read_error
  | RegistryUnlisted store_error
  | NonRegistryObject string
  | NotCanonical string string string
  | IgnoredEntry string url_error
  | Aliased string string string
  | EntryKept string read_error
  | EntryDisabled string read_error

record cached_file =
  cf_etag :: "string option"
  cf_config :: "database_config option"

record config_poller =
  cp_config_etag :: "string option"
  cp_config :: sleet_config
  cp_files :: "(string, cached_file) hmap"
  cp_databases :: "(string, database_config) btree"

definition default_config_poller :: config_poller where
  "default_config_poller =
     \<lparr>cp_config_etag = None, cp_config = default_sleet_config, cp_files = [], cp_databases = []\<rparr>"

record fleet_state =
  fs_config :: sleet_config
  fs_databases :: "(string, database_config) btree"
  fs_warnings :: "warning list"

subsection \<open>The policy file\<close>

definition read_config :: "crates \<Rightarrow> toml_crate \<Rightarrow> string \<Rightarrow> read_error + sleet_config" where
  "read_config X T body =
     (case from_utf8 body of
        None \<Rightarrow> Inl (NotUtf8 body)
      | Some s \<Rightarrow> (case parse_config X T s of Inl e \<Rightarrow> Inl (Rejected e) | Inr c \<Rightarrow> Inr c))"

definition poll_config ::
  "crates \<Rightarrow> toml_crate \<Rightarrow> fleet_root \<Rightarrow> store_view \<Rightarrow> config_poller \<Rightarrow> config_poller \<times> warning list" where
  "poll_config X T root V p =
     (let path = config_path root in
      case sv_get V path of
        Inl NotFound \<Rightarrow> (p\<lparr>cp_config_etag := None, cp_config := default_sleet_config\<rparr>, [])
      | Inl e \<Rightarrow> (p, [ConfigUnreadable path e])
      | Inr get \<Rightarrow>
          (let etag = ga_e_tag get in
           if etag \<noteq> None \<and> etag = cp_config_etag p then (p, [])
           else
             (case ga_bytes get of
                Inl e \<Rightarrow> (p, [ConfigUnreadable path e])
              | Inr body \<Rightarrow>
                  (case read_config X T body of
                     Inr config \<Rightarrow> (p\<lparr>cp_config := config, cp_config_etag := etag\<rparr>, [])
                   | Inl e \<Rightarrow> (p, [ConfigRejected path e])))))"

subsection \<open>One registry file\<close>

definition disabled_database :: database_config where
  "disabled_database = default_database_config\<lparr>dc_services := Some []\<rparr>"

definition cached_hit :: "(string, cached_file) hmap \<Rightarrow> object_meta \<Rightarrow> string \<Rightarrow> database_config option" where
  "cached_hit files meta name =
     (case map_of files name of
        None \<Rightarrow> None
      | Some cached \<Rightarrow>
          if cf_etag cached \<noteq> None \<and> cf_etag cached = om_e_tag meta then cf_config cached else None)"

definition last_good :: "(string, cached_file) hmap \<Rightarrow> string \<Rightarrow> database_config option" where
  "last_good files name = Option.bind (map_of files name) cf_config"

definition read_database ::
  "crates \<Rightarrow> toml_crate \<Rightarrow> store_view \<Rightarrow> sleet_config \<Rightarrow> object_meta \<Rightarrow> read_error + database_config" where
  "read_database X T V fleet meta =
     (case (case sv_get V (om_location meta) of Inl e \<Rightarrow> Inl e | Inr get \<Rightarrow> ga_bytes get) of
        Inl e \<Rightarrow> Inl (StoreFailed e)
      | Inr body \<Rightarrow>
          (case from_utf8 body of
             None \<Rightarrow> Inl (NotUtf8 body)
           | Some s \<Rightarrow> (case parse_database X T fleet s of Inl e \<Rightarrow> Inl (Rejected e) | Inr db \<Rightarrow> Inr db)))"

definition file_config ::
  "crates \<Rightarrow> toml_crate \<Rightarrow> store_view \<Rightarrow> sleet_config \<Rightarrow> object_meta \<Rightarrow> string \<Rightarrow> (string, cached_file) hmap
     \<Rightarrow> database_config \<times> (string, cached_file) hmap \<times> warning list" where
  "file_config X T V fleet meta name files =
     (if om_size meta = 0 then (default_database_config, files, [])
      else
        (case cached_hit files meta name of
           Some config \<Rightarrow> (config, files, [])
         | None \<Rightarrow>
             (case read_database X T V fleet meta of
                Inr db \<Rightarrow> (db, AList.update name \<lparr>cf_etag = om_e_tag meta, cf_config = Some db\<rparr> files, [])
              | Inl e \<Rightarrow>
                  (case last_good files name of
                     Some config \<Rightarrow> (config, files, [EntryKept name e])
                   | None \<Rightarrow> (disabled_database, files, [EntryDisabled name e])))))"

subsection \<open>The registry listing\<close>

record registry_entry =
  re_noncanonical :: bool
  re_name :: string
  re_url :: string
  re_meta :: object_meta

definition decode_entry :: "crates \<Rightarrow> object_meta \<Rightarrow> registry_entry option \<times> warning list" where
  "decode_entry X meta =
     (case filename (om_location meta) of
        None \<Rightarrow> (None, [])
      | Some name \<Rightarrow>
          (case parse_file_name X name of
             None \<Rightarrow> (None, [NonRegistryObject (om_location meta)])
           | Some decoded \<Rightarrow>
               (case canonicalize_database_url X decoded of
                  Inl e \<Rightarrow> (None, [IgnoredEntry name e])
                | Inr canonical \<Rightarrow>
                    (Some \<lparr>re_noncanonical = (canonical \<noteq> decoded), re_name = name, re_url = canonical,
                           re_meta = meta\<rparr>,
                     if canonical \<noteq> decoded then [NotCanonical name decoded canonical] else []))))"

definition entry_le :: "registry_entry \<Rightarrow> registry_entry \<Rightarrow> bool" where
  "entry_le a b \<longleftrightarrow>
     re_noncanonical a < re_noncanonical b
     \<or> re_noncanonical a = re_noncanonical b \<and> re_name a \<le> re_name b"

definition decode_entries :: "crates \<Rightarrow> object_meta list \<Rightarrow> registry_entry list" where
  "decode_entries X metas = List.map_filter (\<lambda>m. fst (decode_entry X m)) metas"

record registry_scan =
  scan_files :: "(string, cached_file) hmap"
  scan_databases :: "(string, database_config) btree"
  scan_seen :: "(string, string) hmap"
  scan_warnings :: "warning list"

definition registry_step ::
  "crates \<Rightarrow> toml_crate \<Rightarrow> store_view \<Rightarrow> sleet_config \<Rightarrow> registry_entry \<Rightarrow> registry_scan \<Rightarrow> registry_scan" where
  "registry_step X T V fleet e s =
     (case map_of (scan_seen s) (re_url e) of
        Some winner \<Rightarrow> s\<lparr>scan_warnings := scan_warnings s @ [Aliased winner (re_name e) (re_url e)]\<rparr>
      | None \<Rightarrow>
          (case file_config X T V fleet (re_meta e) (re_name e) (scan_files s) of
             (db, files, ws) \<Rightarrow>
               \<lparr>scan_files = files, scan_databases = bt_insert (re_url e) db (scan_databases s),
                scan_seen = AList.update (re_url e) (re_name e) (scan_seen s),
                scan_warnings = scan_warnings s @ ws\<rparr>))"

definition scan_entries ::
  "crates \<Rightarrow> toml_crate \<Rightarrow> store_view \<Rightarrow> sleet_config \<Rightarrow> (string, cached_file) hmap \<Rightarrow> warning list
     \<Rightarrow> registry_entry list \<Rightarrow> registry_scan" where
  "scan_entries X T V fleet files ws es =
     fold (registry_step X T V fleet) es
       \<lparr>scan_files = files, scan_databases = [], scan_seen = [], scan_warnings = ws\<rparr>"

definition poll_registry ::
  "crates \<Rightarrow> toml_crate \<Rightarrow> fleet_root \<Rightarrow> store_view \<Rightarrow> config_poller
     \<Rightarrow> config_poller \<times> (string, database_config) btree \<times> warning list" where
  "poll_registry X T root V p =
     (case root_list V (dbs_prefix root) of
        Inl e \<Rightarrow> (p, cp_databases p, [RegistryUnlisted e])
      | Inr metas \<Rightarrow>
          (let s = scan_entries X T V (cp_config p) (cp_files p)
                 (concat (map (\<lambda>m. snd (decode_entry X m)) metas))
                 (sort_by entry_le (decode_entries X metas))
           in (p\<lparr>cp_files := filter (\<lambda>f. fst f \<in> snd ` set (scan_seen s)) (scan_files s),
                 cp_databases := scan_databases s\<rparr>,
               scan_databases s, scan_warnings s)))"

definition poll ::
  "crates \<Rightarrow> toml_crate \<Rightarrow> fleet_root \<Rightarrow> store_view \<Rightarrow> config_poller \<Rightarrow> config_poller \<times> fleet_state" where
  "poll X T root V p =
     (let (p1, ws1) = poll_config X T root V p;
          (p2, databases, ws2) = poll_registry X T root V p1
      in (p2, \<lparr>fs_config = cp_config p2, fs_databases = databases, fs_warnings = ws1 @ ws2\<rparr>))"

subsection \<open>The outcome of a scan\<close>

interpretation entry_order: comparator entry_le
  by unfold_locales (auto simp: entry_le_def)

definition first_for :: "registry_entry list \<Rightarrow> string \<Rightarrow> registry_entry option" where
  "first_for es u = List.find (\<lambda>e. re_url e = u) es"

lemma first_for_Nil [simp]: "first_for [] u = None"
  by (simp add: first_for_def)

lemma first_for_snoc:
  "first_for (es @ [e]) u =
     (case first_for es u of Some w \<Rightarrow> Some w | None \<Rightarrow> if re_url e = u then Some e else None)"
  unfolding first_for_def by (induction es) auto

lemma first_for_None: "first_for es u = None \<longleftrightarrow> (\<forall>e \<in> set es. re_url e \<noteq> u)"
  unfolding first_for_def by (auto simp: find_None_iff)

lemma first_for_sorted:
  assumes "sorted_wrt le es" and "\<And>a. le a a" and "first_for es u = Some w"
  shows "w \<in> set es \<and> re_url w = u \<and> (\<forall>e \<in> set es. re_url e = u \<longrightarrow> le w e)"
  using assms(1,3) unfolding first_for_def
proof (induction es)
  case (Cons e es)
  then show ?case by (cases "re_url e = u") (auto intro: assms(2))
qed simp

definition file_value ::
  "crates \<Rightarrow> toml_crate \<Rightarrow> store_view \<Rightarrow> sleet_config \<Rightarrow> (string, cached_file) hmap \<Rightarrow> registry_entry
     \<Rightarrow> database_config" where
  "file_value X T V fleet files e = fst (file_config X T V fleet (re_meta e) (re_name e) files)"

lemma file_value_local:
  "map_of files (re_name e) = map_of files' (re_name e) \<Longrightarrow>
     file_value X T V fleet files e = file_value X T V fleet files' e"
  by (simp add: file_value_def file_config_def cached_hit_def last_good_def split: option.splits sum.splits)

lemma file_config_files_other:
  "n \<noteq> name \<Longrightarrow> map_of (fst (snd (file_config X T V fleet meta name files))) n = map_of files n"
  by (auto simp: file_config_def update_conv split: option.splits sum.splits)

lemma file_config_files_distinct:
  "distinct (map fst files) \<Longrightarrow> distinct (map fst (fst (snd (file_config X T V fleet meta name files))))"
  by (auto simp: file_config_def distinct_update split: option.splits sum.splits)

definition names_ok :: "registry_entry list \<Rightarrow> bool" where
  "names_ok es \<longleftrightarrow> (\<forall>a \<in> set es. \<forall>b \<in> set es. re_name a = re_name b \<longrightarrow> re_url a = re_url b)"

lemma names_ok_subset: "names_ok es \<Longrightarrow> set fs \<subseteq> set es \<Longrightarrow> names_ok fs"
  unfolding names_ok_def by blast

lemma names_ok_fresh:
  "names_ok (es @ [e]) \<Longrightarrow> first_for es (re_url e) = None \<Longrightarrow> re_name e \<notin> re_name ` set es"
proof
  assume ok: "names_ok (es @ [e])" and new: "first_for es (re_url e) = None"
    and "re_name e \<in> re_name ` set es"
  then obtain a where a: "a \<in> set es" "re_name a = re_name e" by (metis imageE)
  then have "re_url a = re_url e"
    using ok [unfolded names_ok_def, rule_format, of a e] by simp
  then show False using new a(1) unfolding first_for_None by blast
qed

lemma registry_fold:
  assumes "names_ok es" and s: "s = scan_entries X T V fleet files ws es"
  shows "bt_wf (scan_databases s)
    \<and> (\<forall>u. map_of (scan_seen s) u = map_option re_name (first_for es u))
    \<and> (\<forall>u. bt_get (scan_databases s) u = map_option (file_value X T V fleet files) (first_for es u))
    \<and> (\<forall>n. n \<notin> re_name ` set es \<longrightarrow> map_of (scan_files s) n = map_of files n)"
  using assms(1) unfolding s
proof (induction es rule: rev_induct)
  case (snoc e es)
  let ?s = "scan_entries X T V fleet files ws es"
  have fold: "scan_entries X T V fleet files ws (es @ [e]) = registry_step X T V fleet e ?s"
    by (simp add: scan_entries_def)
  have "names_ok es" by (rule names_ok_subset [OF snoc.prems]) auto
  note IH = snoc.IH [OF this]
  have wf: "bt_wf (scan_databases ?s)"
    and seen: "\<And>u. map_of (scan_seen ?s) u = map_option re_name (first_for es u)"
    and dbs: "\<And>u. bt_get (scan_databases ?s) u = map_option (file_value X T V fleet files) (first_for es u)"
    and other: "\<And>n. n \<notin> re_name ` set es \<Longrightarrow> map_of (scan_files ?s) n = map_of files n"
    using IH by blast+
  show ?case
  proof (cases "first_for es (re_url e)")
    case (Some w)
    then have "registry_step X T V fleet e ?s
        = ?s\<lparr>scan_warnings := scan_warnings ?s @ [Aliased (re_name w) (re_name e) (re_url e)]\<rparr>"
      by (simp add: registry_step_def seen)
    then show ?thesis
      using Some wf by (auto simp: fold seen dbs other first_for_snoc split: option.splits)
  next
    case None
    have fresh: "re_name e \<notin> re_name ` set es" by (rule names_ok_fresh [OF snoc.prems None])
    obtain db fs w where fc: "file_config X T V fleet (re_meta e) (re_name e) (scan_files ?s) = (db, fs, w)"
      by (metis prod_cases3)
    have db: "db = file_value X T V fleet files e"
      using file_value_local [of "scan_files ?s" e files X T V fleet] fc other [OF fresh] by (simp add: file_value_def)
    have fs: "n \<noteq> re_name e \<Longrightarrow> map_of fs n = map_of (scan_files ?s) n" for n
      using file_config_files_other [of n "re_name e" X T V fleet "re_meta e" "scan_files ?s"] fc by simp
    have step: "registry_step X T V fleet e ?s =
        \<lparr>scan_files = fs, scan_databases = bt_insert (re_url e) db (scan_databases ?s),
         scan_seen = AList.update (re_url e) (re_name e) (scan_seen ?s), scan_warnings = scan_warnings ?s @ w\<rparr>"
      using None by (simp add: registry_step_def seen fc)
    show ?thesis
      using None wf fs
      by (auto simp: fold step bt_wf_insert bt_get_insert update_conv seen dbs other first_for_snoc db
          split: option.splits)
  qed
qed (simp add: scan_entries_def)

lemma decode_entry_SomeD:
  assumes "fst (decode_entry X m) = Some e"
  shows "re_meta e = m \<and> filename (om_location m) = Some (re_name e)
    \<and> (\<exists>decoded. parse_file_name X (re_name e) = Some decoded
         \<and> canonicalize_database_url X decoded = Inr (re_url e)
         \<and> (re_noncanonical e \<longleftrightarrow> re_url e \<noteq> decoded))"
  using assms by (auto simp: decode_entry_def split: option.splits sum.splits)

lemma set_decode_entries: "e \<in> set (decode_entries X metas) \<longleftrightarrow> (\<exists>m \<in> set metas. fst (decode_entry X m) = Some e)"
  by (force simp: decode_entries_def List.map_filter_def)

lemma names_ok_decoded: "names_ok (sort_by entry_le (decode_entries X metas))"
  unfolding names_ok_def
proof (intro ballI impI)
  fix a b assume *: "a \<in> set (sort_by entry_le (decode_entries X metas))"
    "b \<in> set (sort_by entry_le (decode_entries X metas))" "re_name a = re_name b"
  have "a \<in> set (decode_entries X metas)" and "b \<in> set (decode_entries X metas)"
    using *(1,2) by simp_all
  then show "re_url a = re_url b"
    using *(3) by (auto simp: set_decode_entries dest!: decode_entry_SomeD)
qed

lemma poll_registry_scan:
  assumes "root_list V (dbs_prefix root) = Inr metas" and "poll_registry X T root V p = (p', dbs, ws)"
  obtains s where "s = scan_entries X T V (cp_config p) (cp_files p)
      (concat (map (\<lambda>m. snd (decode_entry X m)) metas)) (sort_by entry_le (decode_entries X metas))"
    and "dbs = scan_databases s" and "ws = scan_warnings s"
    and "p' = p\<lparr>cp_files := filter (\<lambda>f. fst f \<in> snd ` set (scan_seen s)) (scan_files s), cp_databases := dbs\<rparr>"
  using assms by (auto simp: poll_registry_def Let_def)

lemma poll_registry_databases:
  assumes "root_list V (dbs_prefix root) = Inr metas" and "poll_registry X T root V p = (p', dbs, ws)"
  shows "cp_databases p' = dbs \<and> bt_wf dbs
    \<and> fst ` set dbs = re_url ` set (decode_entries X metas)
    \<and> (\<forall>e \<in> set (decode_entries X metas). \<exists>w \<in> set (decode_entries X metas).
         re_url w = re_url e \<and> entry_le w e \<and> (re_noncanonical w \<longrightarrow> re_noncanonical e)
         \<and> bt_get dbs (re_url e) = Some (file_value X T V (cp_config p) (cp_files p) w))"
proof -
  let ?es = "sort_by entry_le (decode_entries X metas)"
  obtain s where s: "s = scan_entries X T V (cp_config p) (cp_files p)
      (concat (map (\<lambda>m. snd (decode_entry X m)) metas)) ?es"
    and p': "dbs = scan_databases s" "cp_databases p' = dbs"
    by (rule poll_registry_scan [OF assms]) simp
  have wf: "bt_wf dbs"
    and get: "\<And>u. bt_get dbs u = map_option (file_value X T V (cp_config p) (cp_files p)) (first_for ?es u)"
    using registry_fold [OF names_ok_decoded s] p'(1) by blast+
  have "u \<in> fst ` set dbs \<longleftrightarrow> u \<in> re_url ` set (decode_entries X metas)" for u
  proof -
    have "u \<in> fst ` set dbs \<longleftrightarrow> bt_get dbs u \<noteq> None" by (simp add: map_of_eq_None_iff)
    also have "\<dots> \<longleftrightarrow> (\<exists>e \<in> set ?es. re_url e = u)" by (simp add: get first_for_None)
    finally show ?thesis by auto
  qed
  moreover have "\<exists>w \<in> set (decode_entries X metas). re_url w = re_url e \<and> entry_le w e
      \<and> (re_noncanonical w \<longrightarrow> re_noncanonical e)
      \<and> bt_get dbs (re_url e) = Some (file_value X T V (cp_config p) (cp_files p) w)"
    if e: "e \<in> set (decode_entries X metas)" for e
  proof -
    obtain w where w: "first_for ?es (re_url e) = Some w"
      using e first_for_None [of ?es "re_url e"] by (cases "first_for ?es (re_url e)") auto
    have "w \<in> set ?es \<and> re_url w = re_url e \<and> (\<forall>e' \<in> set ?es. re_url e' = re_url e \<longrightarrow> entry_le w e')"
      by (rule first_for_sorted [OF entry_order.sorted_sort_by entry_order.le_refl w])
    then have "w \<in> set (decode_entries X metas)" "re_url w = re_url e" "entry_le w e"
      using e by simp_all
    then show ?thesis using w get [of "re_url e"] by (auto simp: entry_le_def)
  qed
  ultimately show ?thesis using wf p'(2) by blast
qed

text \<open>
  C20. The registry read: after a successful LIST the databases are exactly the canonical URLs
  the registry's file names decode to, each once. Of several names for one URL the winner is the
  least by (not canonical, name), so a canonical spelling is never shadowed by an alias, and the
  database's config is that of the winner's file.
\<close>

theorem poll_registry_correct:
  assumes "root_list V (dbs_prefix root) = Inr metas" and "poll_registry X T root V p = (p', dbs, ws)"
  shows "cp_databases p' = dbs \<and> bt_wf dbs
    \<and> fst ` set dbs = re_url ` set (decode_entries X metas)
    \<and> (\<forall>e \<in> set (decode_entries X metas). \<exists>w \<in> set (decode_entries X metas).
         re_url w = re_url e \<and> entry_le w e \<and> (re_noncanonical w \<longrightarrow> re_noncanonical e)
         \<and> bt_get dbs (re_url e) = Some (file_value X T V (cp_config p) (cp_files p) w))"
  by (rule poll_registry_databases [OF assms])

text \<open>
  C21. Failed reads keep the last good state: a registry LIST that fails leaves the databases and
  the file cache as they were and returns the last good registry; a \<^verbatim>\<open>sleet.toml\<close> that cannot be
  read, or that is not an accepted config, leaves the config in force; and a registry file that
  cannot be read or is not accepted keeps its own last good version.
\<close>

theorem last_good_kept:
  "(\<forall>e. root_list V (dbs_prefix root) = Inl e \<longrightarrow>
      poll_registry X T root V p = (p, cp_databases p, [RegistryUnlisted e]))
   \<and> (\<forall>e. sv_get V (config_path root) = Inl e \<and> e \<noteq> NotFound \<longrightarrow>
      fst (poll_config X T root V p) = p)
   \<and> (\<forall>get. sv_get V (config_path root) = Inr get
        \<and> (\<forall>body cfg. ga_bytes get = Inr body \<longrightarrow> read_config X T body \<noteq> Inr cfg) \<longrightarrow>
      fst (poll_config X T root V p) = p)
   \<and> (\<forall>meta name c e. last_good files name = Some c \<and> om_size meta \<noteq> 0
        \<and> read_database X T V fleet meta = Inl e \<longrightarrow>
      fst (file_config X T V fleet meta name files) = c
      \<and> fst (snd (file_config X T V fleet meta name files)) = files)"
  by (auto simp: poll_registry_def poll_config_def file_config_def Let_def cached_hit_def last_good_def
      split: store_error.splits sum.splits option.splits Option.bind_splits)

subsection \<open>Reads that need no GET\<close>

definition needs_get :: "(string, cached_file) hmap \<Rightarrow> registry_entry \<Rightarrow> bool" where
  "needs_get files e \<longleftrightarrow> om_size (re_meta e) \<noteq> 0 \<and> cached_hit files (re_meta e) (re_name e) = None"

definition same_answer :: "store_view \<Rightarrow> store_view \<Rightarrow> string \<Rightarrow> bool" where
  "same_answer V V' path \<longleftrightarrow> sv_get V path = sv_get V' path"

lemma file_config_view:
  assumes "om_size meta \<noteq> 0 \<and> cached_hit files meta name = None \<longrightarrow> same_answer V V' (om_location meta)"
  shows "file_config X T V fleet meta name files = file_config X T V' fleet meta name files"
  using assms by (auto simp: file_config_def read_database_def same_answer_def split: option.splits)

lemma scan_entries_view:
  assumes "names_ok es" and "\<forall>e \<in> set es. needs_get files e \<longrightarrow> same_answer V V' (om_location (re_meta e))"
  shows "scan_entries X T V fleet files ws es = scan_entries X T V' fleet files ws es"
  using assms
proof (induction es rule: rev_induct)
  case (snoc e es)
  let ?s = "scan_entries X T V fleet files ws es"
  have ok: "names_ok es" by (rule names_ok_subset [OF snoc.prems(1)]) auto
  have IH: "?s = scan_entries X T V' fleet files ws es"
    using snoc.IH [OF ok] snoc.prems(2) by simp
  have fold: "map_of (scan_seen ?s) (re_url e) = map_option re_name (first_for es (re_url e))"
    "re_name e \<notin> re_name ` set es \<longrightarrow> map_of (scan_files ?s) (re_name e) = map_of files (re_name e)"
    using registry_fold [OF ok refl, of X T V fleet files ws] by blast+
  have "registry_step X T V fleet e ?s = registry_step X T V' fleet e ?s"
  proof (cases "first_for es (re_url e)")
    case None
    have "cached_hit (scan_files ?s) (re_meta e) (re_name e) = cached_hit files (re_meta e) (re_name e)"
      using fold(2) names_ok_fresh [OF snoc.prems(1) None] by (simp add: cached_hit_def)
    then have "file_config X T V fleet (re_meta e) (re_name e) (scan_files ?s)
        = file_config X T V' fleet (re_meta e) (re_name e) (scan_files ?s)"
      using snoc.prems(2) by (intro file_config_view) (simp add: needs_get_def)
    then show ?thesis using None by (simp add: registry_step_def fold(1))
  qed (simp add: registry_step_def fold(1))
  then show ?case using IH by (simp add: scan_entries_def)
qed (simp add: scan_entries_def)

text \<open>
  The poll's economy: which bodies it reads. Two polls whose LIST and \<^verbatim>\<open>sleet.toml\<close> answers
  agree give the same state and warnings as soon as they agree on the files that are neither
  empty nor cached under the listed ETag; so empty files are never fetched and an unchanged ETag
  reuses the cache.
\<close>

theorem unchanged_files_need_no_get:
  assumes "sv_list V = sv_list V'" and "same_answer V V' (config_path root)"
    and "\<forall>metas. root_list V (dbs_prefix root) = Inr metas \<longrightarrow>
      (\<forall>e \<in> set (decode_entries X metas). needs_get (cp_files p) e \<longrightarrow>
         same_answer V V' (om_location (re_meta e)))"
  shows "poll X T root V p = poll X T root V' p"
proof -
  have config: "poll_config X T root V p = poll_config X T root V' p"
    using assms(2) by (simp add: poll_config_def same_answer_def)
  have files: "cp_files (fst (poll_config X T root V p)) = cp_files p"
    by (auto simp: poll_config_def Let_def split: sum.splits store_error.splits)
  have list: "root_list V = root_list V'"
    using assms(1) by (simp add: root_list_def fun_eq_iff)
  have "poll_registry X T root V q = poll_registry X T root V' q" if "cp_files q = cp_files p" for q
  proof (cases "root_list V (dbs_prefix root)")
    case (Inr metas)
    have "scan_entries X T V (cp_config q) (cp_files q) ws (sort_by entry_le (decode_entries X metas))
        = scan_entries X T V' (cp_config q) (cp_files q) ws (sort_by entry_le (decode_entries X metas))" for ws
      using assms(3) Inr that by (intro scan_entries_view names_ok_decoded) simp
    then show ?thesis using Inr list by (simp add: poll_registry_def)
  qed (use list in \<open>simp add: poll_registry_def\<close>)
  then show ?thesis using config files by (simp add: poll_def case_prod_unfold Let_def)
qed

subsection \<open>Every poller state\<close>

inductive polled :: "crates \<Rightarrow> toml_crate \<Rightarrow> fleet_root \<Rightarrow> config_poller \<Rightarrow> bool"
  for X :: crates and T :: toml_crate and root :: fleet_root
where
  start: "polled X T root default_config_poller"
| poll: "polled X T root p \<Longrightarrow> polled X T root (fst (Config_Poller.poll X T root V p))"

definition accepted_db :: "crates \<Rightarrow> database_config \<Rightarrow> bool" where
  "accepted_db X d \<longleftrightarrow> (\<exists>cfg. validate X cfg = Inr () \<and> validate_database X cfg d = Inr ())"

definition cache_ok :: "crates \<Rightarrow> (string, cached_file) hmap \<Rightarrow> bool" where
  "cache_ok X files \<longleftrightarrow> (\<forall>n d. last_good files n = Some d \<longrightarrow> accepted_db X d)"

definition poller_ok :: "crates \<Rightarrow> config_poller \<Rightarrow> bool" where
  "poller_ok X p \<longleftrightarrow>
     validate X (cp_config p) = Inr () \<and> cache_ok X (cp_files p) \<and> bt_wf (cp_databases p)
     \<and> (\<forall>u d. bt_get (cp_databases p) u = Some d \<longrightarrow>
          accepted_db X d \<and> (\<exists>decoded. canonicalize_database_url X decoded = Inr u))"

lemma default_db_accepted: "accepted_db X default_database_config"
  unfolding accepted_db_def
  by (rule exI [of _ default_sleet_config])
     (simp add: default_config_valid, simp add: validate_database_def check_database_def Let_def
      default_sleet_config_def default_node_config_def default_database_config_def check_resolved_def
      resolve_def database_apply_closed default_resolved_services_def default_resolved_coordinator_def
      default_resolved_scheduler_def push_if_def from_secs_def)

lemma disabled_db_accepted: "accepted_db X disabled_database"
  unfolding accepted_db_def
  by (rule exI [of _ default_sleet_config])
     (simp add: default_config_valid, simp add: validate_database_def check_database_def Let_def disabled_database_def
      default_sleet_config_def default_node_config_def default_database_config_def check_resolved_def
      resolve_def database_apply_closed default_resolved_services_def default_resolved_coordinator_def
      default_resolved_scheduler_def push_if_def from_secs_def)

lemma read_database_accepted:
  "read_database X T V fleet meta = Inr d \<Longrightarrow> validate X fleet = Inr () \<Longrightarrow> accepted_db X d"
  by (auto simp: read_database_def parse_database_def accepted_db_def split: sum.splits option.splits)

lemma cached_hit_last_good: "cached_hit files meta name = Some d \<Longrightarrow> last_good files name = Some d"
  by (auto simp: cached_hit_def last_good_def split: option.splits if_splits)

lemma cache_ok_update:
  assumes "cache_ok X files" and "accepted_db X d"
  shows "cache_ok X (AList.update n \<lparr>cf_etag = t, cf_config = Some d\<rparr> files)"
  using assms by (auto simp: cache_ok_def last_good_def update_conv)

lemma cache_ok_retain:
  assumes "cache_ok X files"
  shows "cache_ok X (filter (\<lambda>f. fst f \<in> S) files)"
proof -
  have "map_of (filter (\<lambda>f. fst f \<in> S) files) n = (if n \<in> S then map_of files n else None)" for n
    by (induction files) auto
  then show ?thesis using assms by (auto simp: cache_ok_def last_good_def)
qed

lemma file_config_accepted:
  assumes v: "validate X fleet = Inr ()" and c: "cache_ok X files"
    and fc: "file_config X T V fleet meta name files = (db, files', ws)"
  shows "accepted_db X db \<and> cache_ok X files'"
proof -
  show ?thesis
  proof (cases "om_size meta = 0")
    case True
    then show ?thesis using fc c by (simp add: file_config_def default_db_accepted)
  next
    case size: False
    show ?thesis
    proof (cases "cached_hit files meta name")
      case hit: None
      show ?thesis
      proof (cases "read_database X T V fleet meta")
        case (Inl e)
        then show ?thesis
          using fc size hit c disabled_db_accepted [of X]
          by (cases "last_good files name") (auto simp: file_config_def cache_ok_def)
      next
        case (Inr d)
        then show ?thesis
          using fc size hit read_database_accepted [OF Inr v] cache_ok_update [OF c] by (auto simp: file_config_def)
      qed
    next
      case (Some d)
      then show ?thesis
        using fc size c cached_hit_last_good [OF Some] by (auto simp: file_config_def cache_ok_def)
    qed
  qed
qed

definition scan_ok :: "crates \<Rightarrow> registry_scan \<Rightarrow> bool" where
  "scan_ok X s \<longleftrightarrow>
     cache_ok X (scan_files s) \<and> bt_wf (scan_databases s)
     \<and> (\<forall>u d. bt_get (scan_databases s) u = Some d \<longrightarrow>
          accepted_db X d \<and> (\<exists>decoded. canonicalize_database_url X decoded = Inr u))"

lemma scan_ok_step:
  assumes "validate X fleet = Inr ()" and "scan_ok X s"
    and "\<exists>decoded. canonicalize_database_url X decoded = Inr (re_url e)"
  shows "scan_ok X (registry_step X T V fleet e s)"
proof (cases "map_of (scan_seen s) (re_url e)")
  case None
  obtain db fs ws where fc: "file_config X T V fleet (re_meta e) (re_name e) (scan_files s) = (db, fs, ws)"
    by (metis prod_cases3)
  have "accepted_db X db \<and> cache_ok X fs"
    using assms(2) by (intro file_config_accepted [OF assms(1) _ fc]) (simp add: scan_ok_def)
  then show ?thesis
    using assms(2,3) None fc by (auto simp: scan_ok_def registry_step_def bt_get_insert bt_wf_insert)
qed (use assms(2) in \<open>simp add: scan_ok_def registry_step_def\<close>)

lemma scan_ok_entries:
  assumes "validate X fleet = Inr ()" and "cache_ok X files"
    and "\<forall>e \<in> set es. \<exists>decoded. canonicalize_database_url X decoded = Inr (re_url e)"
  shows "scan_ok X (scan_entries X T V fleet files ws es)"
  using assms(3)
proof (induction es rule: rev_induct)
  case Nil
  show ?case using assms(2) by (simp add: scan_entries_def scan_ok_def)
next
  case (snoc e es)
  then show ?case using scan_ok_step [OF assms(1)] by (simp add: scan_entries_def)
qed

lemma decode_entries_canonical:
  assumes "e \<in> set (decode_entries X metas)"
  shows "\<exists>decoded. canonicalize_database_url X decoded = Inr (re_url e)"
  using assms by (auto simp: set_decode_entries dest!: decode_entry_SomeD)

lemma poll_config_ok: "poller_ok X p \<Longrightarrow> poller_ok X (fst (poll_config X T root V p))"
  by (auto simp: poller_ok_def poll_config_def Let_def read_config_def parse_config_def default_config_valid
      split: sum.splits store_error.splits option.splits)

lemma poll_registry_ok: "poller_ok X p \<Longrightarrow> poller_ok X (fst (poll_registry X T root V p))"
proof (cases "root_list V (dbs_prefix root)")
  case (Inr metas)
  assume p: "poller_ok X p"
  have "scan_ok X (scan_entries X T V (cp_config p) (cp_files p)
      (concat (map (\<lambda>m. snd (decode_entry X m)) metas)) (sort_by entry_le (decode_entries X metas)))"
    using p by (intro scan_ok_entries) (auto simp: poller_ok_def intro: decode_entries_canonical)
  then show ?thesis
    using p Inr cache_ok_retain by (simp add: poll_registry_def Let_def poller_ok_def scan_ok_def)
qed (simp add: poll_registry_def)

lemma polled_ok: "polled X T root p \<Longrightarrow> poller_ok X p"
proof (induction rule: polled.induct)
  case start
  show ?case
    by (simp add: default_config_poller_def poller_ok_def default_config_valid cache_ok_def last_good_def)
next
  case (poll p V)
  then show ?case
    using poll_registry_ok [OF poll_config_ok] by (simp add: Config_Poller.poll_def case_prod_unfold Let_def)
qed


subsection \<open>Concrete runs\<close>

definition demo_root :: fleet_root where
  "demo_root = \<lparr>fr_prefix = ''fleet'', fr_url = ''memory:///fleet''\<rparr>"

definition demo_meta :: object_meta where
  "demo_meta =
     \<lparr>om_location = ''fleet/dbs/s3%3A%2F%2Fb%2Fdb.toml'', om_last_modified = 0, om_size = 2, om_e_tag = Some ''t''\<rparr>"

definition demo_view :: "(store_error + get_answer) \<Rightarrow> (store_error + object_meta list) \<Rightarrow> string \<Rightarrow> store_view" where
  "demo_view config listing body =
     \<lparr>sv_list = (\<lambda>_. listing),
      sv_get = (\<lambda>path. if path = ''fleet/sleet.toml'' then config
         else Inr \<lparr>ga_e_tag = Some ''t'', ga_bytes = Inr body\<rparr>)\<rparr>"

definition served :: "string \<Rightarrow> string \<Rightarrow> store_error + get_answer" where
  "served etag body = Inr \<lparr>ga_e_tag = Some etag, ga_bytes = Inr body\<rparr>"

definition scheduler_layer :: "nat option \<Rightarrow> nat option \<Rightarrow> database_config" where
  "scheduler_layer lo hi =
     default_database_config\<lparr>dc_compactor_coordinator :=
       Some \<lparr>co_poll_interval = None, co_manifest_update_timeout = None, co_max_concurrent_compactions = None,
             co_commit_compacted_interval = None, co_worker_heartbeat_timeout = None,
             co_scheduler = Some \<lparr>so_min_compaction_sources = lo, so_max_compaction_sources = hi,
               so_include_size_threshold = None\<rparr>\<rparr>\<rparr>"

definition sched_toml :: toml_crate where
  "sched_toml =
     \<lparr>toml_config = (\<lambda>s. if s = ''v1'' then Inr (default_sleet_config\<lparr>sc_database := scheduler_layer (Some 2) None\<rparr>)
         else if s = [] then Inr default_sleet_config else Inl ''unsupported''),
      toml_database = (\<lambda>s. if s = ''db'' then Inr (scheduler_layer None (Some 3)) else Inl ''unsupported'')\<rparr>"

definition run_v1 :: config_poller where
  "run_v1 = fst (poll demo_crates sched_toml demo_root (demo_view (served ''a'' ''v1'') (Inr [demo_meta]) ''db'')
     default_config_poller)"

definition run_v2 :: config_poller where
  "run_v2 = fst (poll demo_crates sched_toml demo_root (demo_view (served ''b'' []) (Inr [demo_meta]) ''db'') run_v1)"

definition demo_entry :: registry_entry where
  "demo_entry =
     \<lparr>re_noncanonical = False, re_name = ''s3%3A%2F%2Fb%2Fdb.toml'', re_url = ''s3://b/db'', re_meta = demo_meta\<rparr>"

lemma demo_meta_sel [simp]:
  "om_location demo_meta = ''fleet/dbs/s3%3A%2F%2Fb%2Fdb.toml''" "om_size demo_meta = 2" "om_e_tag demo_meta = Some ''t''"
  by (simp_all add: demo_meta_def)

lemma demo_filename: "filename ''fleet/dbs/s3%3A%2F%2Fb%2Fdb.toml'' = Some ''s3%3A%2F%2Fb%2Fdb.toml''"
  by code_simp

lemma demo_parse_name: "parse_file_name demo_crates ''s3%3A%2F%2Fb%2Fdb.toml'' = Some ''s3://b/db''"
  by code_simp

lemma demo_canonical: "canonicalize_database_url demo_crates ''s3://b/db'' = Inr ''s3://b/db''"
  by code_simp

lemma demo_decode: "decode_entry demo_crates demo_meta = (Some demo_entry, [])"
  by (simp add: decode_entry_def demo_filename demo_parse_name demo_canonical demo_entry_def)

lemma demo_entries: "decode_entries demo_crates [demo_meta] = [demo_entry]"
  by (simp add: decode_entries_def demo_decode)

lemma demo_paths [simp]: "config_path demo_root = ''fleet/sleet.toml''" "dbs_prefix demo_root = ''fleet/dbs''"
  by (simp_all add: config_path_def dbs_prefix_def demo_root_def path_join_def)

lemma demo_utf8: "from_utf8 ''v1'' = Some ''v1''" "from_utf8 ''db'' = Some ''db''" "from_utf8 [] = Some []"
  by code_simp+

lemmas settings_eval = check_database_def check_coordinator_def check_scheduler_def check_resolved_def push_if_def Let_def
  scheduler_layer_def resolve_def database_apply_closed coordinator_apply_closed scheduler_apply_closed
  default_sleet_config_def default_database_config_def default_node_config_def default_resolved_services_def
  default_resolved_coordinator_def default_resolved_scheduler_def from_secs_def set_opt_def

lemma sched_v1: "read_config demo_crates sched_toml ''v1'' = Inr (default_sleet_config\<lparr>sc_database := scheduler_layer (Some 2) None\<rparr>)"
  by (simp add: read_config_def demo_utf8 parse_config_def sched_toml_def validate_def settings_eval)

lemma sched_v2: "read_config demo_crates sched_toml [] = Inr default_sleet_config"
  by (simp add: read_config_def demo_utf8 parse_config_def sched_toml_def default_config_valid)

lemma sched_db:
  "parse_database demo_crates sched_toml (default_sleet_config\<lparr>sc_database := scheduler_layer (Some 2) None\<rparr>) ''db''
     = Inr (scheduler_layer None (Some 3))"
  by (simp add: parse_database_def sched_toml_def validate_database_def settings_eval)

lemma run_v1_eq:
  "run_v1 =
     \<lparr>cp_config_etag = Some ''a'', cp_config = default_sleet_config\<lparr>sc_database := scheduler_layer (Some 2) None\<rparr>,
      cp_files = [(''s3%3A%2F%2Fb%2Fdb.toml'', \<lparr>cf_etag = Some ''t'', cf_config = Some (scheduler_layer None (Some 3))\<rparr>)],
      cp_databases = [(''s3://b/db'', scheduler_layer None (Some 3))]\<rparr>"
  by (simp add: run_v1_def poll_def poll_config_def demo_view_def served_def default_config_poller_def sched_v1
      poll_registry_def root_list_def demo_entries demo_decode scan_entries_def registry_step_def demo_entry_def
      file_config_def Let_def cached_hit_def read_database_def demo_utf8 sched_db)

lemma run_v2_eq:
  "run_v2 = run_v1\<lparr>cp_config_etag := Some ''b'', cp_config := default_sleet_config\<rparr>"
  by (simp add: run_v2_def run_v1_eq poll_def poll_config_def demo_view_def served_def sched_v2
      poll_registry_def root_list_def demo_entries demo_decode scan_entries_def registry_step_def demo_entry_def
      file_config_def Let_def cached_hit_def)

lemma run_v2_polled: "polled demo_crates sched_toml demo_root run_v2"
  unfolding run_v2_def run_v1_def by (intro polled.poll polled.start)

theorem poll_registry_correct_witness:
  "\<exists>w \<in> set (decode_entries demo_crates [demo_meta]). re_url w = ''s3://b/db'' \<and> \<not> re_noncanonical w"
proof -
  let ?V = "demo_view (served ''b'' []) (Inr [demo_meta]) ''db''"
  have list: "root_list ?V (dbs_prefix demo_root) = Inr [demo_meta]"
    by (simp add: root_list_def demo_view_def)
  obtain p' dbs ws where poll: "poll_registry demo_crates sched_toml demo_root ?V run_v1 = (p', dbs, ws)"
    by (metis prod_cases3)
  have "demo_entry \<in> set (decode_entries demo_crates [demo_meta])" by (simp add: demo_entries)
  then show ?thesis
    using poll_registry_correct [OF list poll] by (force simp: demo_entries demo_entry_def)
qed

theorem last_good_kept_witness:
  "poll_registry demo_crates sched_toml demo_root (demo_view (Inl NotFound) (Inl (OtherError ''503'')) ''db'') run_v2
     = (run_v2, [(''s3://b/db'', scheduler_layer None (Some 3))], [RegistryUnlisted (OtherError ''503'')])"
  using last_good_kept [of "demo_view (Inl NotFound) (Inl (OtherError ''503'')) ''db''" demo_root demo_crates
      sched_toml run_v2 "[]" default_sleet_config]
  by (simp add: root_list_def demo_view_def run_v2_eq run_v1_eq)

theorem unchanged_files_need_no_get_witness:
  "poll demo_crates sched_toml demo_root (demo_view (served ''b'' []) (Inr [demo_meta]) ''db'') run_v1
     = poll demo_crates sched_toml demo_root (demo_view (served ''b'' []) (Inr [demo_meta]) ''garbage'') run_v1"
  by (rule unchanged_files_need_no_get)
     (simp_all add: demo_view_def same_answer_def root_list_def demo_entries needs_get_def demo_entry_def
       run_v1_eq cached_hit_def)


text \<open>
  The validation of a database's file is against the policy it was read under, and a cached file
  is not validated again when the policy changes: here the file (at most 3 sources) was accepted
  under a policy with a minimum of 2, the policy then went back to the default minimum of 4, and
  the node keeps running settings that \<open>parse_database\<close> would reject.
\<close>

lemma stale_override_survives:
  "polled demo_crates sched_toml demo_root run_v2
   \<and> bt_get (cp_databases run_v2) ''s3://b/db'' = Some (scheduler_layer None (Some 3))
   \<and> \<not> settings_ok demo_crates (resolve (cp_config run_v2) (Some (scheduler_layer None (Some 3))))
   \<and> validate_database demo_crates (cp_config run_v2) (scheduler_layer None (Some 3)) \<noteq> Inr ()"
  using run_v2_polled
  by (simp add: run_v2_eq run_v1_eq settings_ok_def validate_database_def settings_eval)

end
