(* ===== verification/Mirror_Target.thy ===== *)
theory Mirror_Target
  imports Config_Validate
begin

text \<open>
  \<^verbatim>\<open>src/mirror/mod.rs\<close>, target mapping: which mirror targets apply to a database and where each
  sends it. The daemon's placement, the operator commands and the mirror task all go through
  \<open>applied_targets\<close>.
\<close>

record applied_target =
  at_name :: string
  at_destination :: string
  at_settings :: resolved_mirror_target

definition mapped_destination :: "crates \<Rightarrow> string \<Rightarrow> string \<Rightarrow> string option \<Rightarrow> string option" where
  "mapped_destination X db_url url source_prefix =
     (case source_prefix of
        None \<Rightarrow> Some url
      | Some pre \<Rightarrow>
          (case canonicalize_url X pre of
             Inl _ \<Rightarrow> None
           | Inr canonical \<Rightarrow>
               (case strip_prefix db_url canonical of
                  None \<Rightarrow> None
                | Some rest \<Rightarrow>
                    if rest \<noteq> [] \<and> strip_prefix rest ''/'' = None then None else Some (url @ rest))))"

definition destination_for :: "crates \<Rightarrow> string \<Rightarrow> resolved_mirror_target \<Rightarrow> string option" where
  "destination_for X db_url settings =
     (if rt_disabled settings then None
      else
        (case rt_url settings of
           None \<Rightarrow> None
         | Some u \<Rightarrow>
             (case canonicalize_url X u of
                Inl _ \<Rightarrow> None
              | Inr url \<Rightarrow>
                  (case mapped_destination X db_url url (rt_source_prefix settings) of
                     None \<Rightarrow> None
                   | Some destination \<Rightarrow> if destination \<noteq> db_url then Some destination else None))))"

definition applied_targets :: "crates \<Rightarrow> string \<Rightarrow> resolved_mirror \<Rightarrow> applied_target list" where
  "applied_targets X db_url mirror =
     List.map_filter
       (\<lambda>(name, settings).
          (case destination_for X db_url settings of
             None \<Rightarrow> None
           | Some destination \<Rightarrow>
               Some \<lparr>at_name = name, at_destination = destination, at_settings = settings\<rparr>))
       (rm_targets mirror)"

subsection \<open>Destinations\<close>

lemma destination_for_iff:
  "destination_for X db t = Some d \<longleftrightarrow>
     \<not> rt_disabled t \<and> d \<noteq> db
     \<and> (\<exists>u url. rt_url t = Some u \<and> canonicalize_url X u = Inr url
          \<and> (case rt_source_prefix t of
               None \<Rightarrow> d = url
             | Some p \<Rightarrow> (\<exists>pre rest. canonicalize_url X p = Inr pre \<and> db = pre @ rest \<and> d = url @ rest
                 \<and> (rest = [] \<or> (\<exists>r. rest = CHR ''/'' # r)))))"
proof (cases "rt_disabled t \<or> rt_url t = None \<or> (\<exists>e. canonicalize_url X (the (rt_url t)) = Inl e)")
  case True
  then show ?thesis by (cases "rt_url t") (auto simp: destination_for_def)
next
  case False
  then obtain u url where u: "rt_url t = Some u" "canonicalize_url X u = Inr url" "\<not> rt_disabled t"
    by (cases "rt_url t"; cases "canonicalize_url X (the (rt_url t))") auto
  have m: "mapped_destination X db url (rt_source_prefix t) = Some d \<longleftrightarrow>
      (case rt_source_prefix t of
         None \<Rightarrow> d = url
       | Some p \<Rightarrow> (\<exists>pre rest. canonicalize_url X p = Inr pre \<and> db = pre @ rest \<and> d = url @ rest
           \<and> (rest = [] \<or> (\<exists>r. rest = CHR ''/'' # r))))" (is "_ \<longleftrightarrow> ?r")
  proof (cases "rt_source_prefix t")
    case (Some p)
    show ?thesis
    proof (cases "canonicalize_url X p")
      case (Inr pre)
      show ?thesis
      proof (cases "strip_prefix db pre")
        case None
        then have "\<nexists>rest. db = pre @ rest" by (metis option.distinct(1) strip_prefix_append)
        then show ?thesis using Some Inr None by (simp add: mapped_destination_def)
      next
        case s: (Some rest)
        then have "db = pre @ rest" by (rule strip_prefix_SomeD)
        moreover have "strip_prefix rest ''/'' = None \<longleftrightarrow> \<not> (\<exists>r. rest = CHR ''/'' # r)"
          using strip_prefix_iff [of rest "''/''"] by (cases "strip_prefix rest ''/''") force+
        ultimately show ?thesis using Some Inr s by (auto simp: mapped_destination_def)
      qed
    qed (use Some in \<open>simp add: mapped_destination_def\<close>)
  qed (auto simp: mapped_destination_def)
  have "destination_for X db t = Some d \<longleftrightarrow>
      mapped_destination X db url (rt_source_prefix t) = Some d \<and> d \<noteq> db"
    using u by (auto simp: destination_for_def split: option.splits)
  then show ?thesis unfolding m using u by auto
qed

lemma applied_targets_iff:
  "a \<in> set (applied_targets X db m) \<longleftrightarrow>
     (\<exists>name t d. (name, t) \<in> set (rm_targets m) \<and> destination_for X db t = Some d
        \<and> a = \<lparr>at_name = name, at_destination = d, at_settings = t\<rparr>)"
  by (force simp: applied_targets_def List.map_filter_def split: option.splits prod.splits)

lemma applied_targets_names:
  "map at_name (applied_targets X db m)
     = map fst (filter (\<lambda>nt. destination_for X db (snd nt) \<noteq> None) (rm_targets m))"
proof -
  have "map at_name (List.map_filter (\<lambda>(name, settings).
          (case destination_for X db settings of
             None \<Rightarrow> None
           | Some destination \<Rightarrow>
               Some \<lparr>at_name = name, at_destination = destination, at_settings = settings\<rparr>)) ts)
      = map fst (filter (\<lambda>nt. destination_for X db (snd nt) \<noteq> None) ts)" for ts
    by (induction ts) (auto simp: List.map_filter_simps split: option.splits)
  then show ?thesis by (simp add: applied_targets_def)
qed


definition demo_applied :: resolved_mirror where
  "demo_applied = \<lparr>rm_targets = [(''dr'', default_resolved_mirror_target
     \<lparr>rt_url := Some ''s3://dr/m'', rt_source_prefix := Some ''s3://data''\<rparr>)]\<rparr>"

lemma demo_urls:
  "canonicalize_url demo_crates ''s3://dr/m'' = Inr ''s3://dr/m''"
  "canonicalize_url demo_crates ''s3://data'' = Inr ''s3://data''"
  "strip_prefix ''s3://data/db1'' ''s3://data'' = Some ''/db1''"
  "strip_prefix ''s3://database/db1'' ''s3://data'' = Some ''base/db1''"
  "strip_prefix ''/db1'' ''/'' = Some ''db1''" "strip_prefix ''base/db1'' ''/'' = None"
  by code_simp+

lemmas demo_applied_eval = applied_targets_def demo_applied_def destination_for_def mapped_destination_def
  demo_urls default_resolved_mirror_target_def


end
