(* ===== verification/Services.thy ===== *)
theory Services
  imports Config_Poller Mirror_Target
begin

text \<open>
  \<^verbatim>\<open>src/services.rs\<close>: the error values of service tasks, the dispatch of an assignment to
  SlateDB's admin API, the options it is called with, and the queue depth read. SlateDB itself is
  a third party: \<open>slate_admin\<close> holds its entry points as parameters, and the option records
  are its public configuration types, of which the program builds values only.
\<close>

subsection \<open>Errors\<close>

datatype close_reason = Clean | Fenced | Panicked

datatype slate_error_kind = Closed close_reason | Unavailable | Data | Internal

record slate_error =
  sle_kind :: slate_error_kind
  sle_message :: string

datatype mirror_error =
    MUrl url_error
  | MStore store_error
  | MSlateDb slate_error
  | NotADatabase string
  | ExcludedSource string string
  | Diverged string nat nat
  | Stalled string string
  | RcloneError string
  | DestinationNotEmpty string
  | NoRestorePoint string string

datatype service_error =
    SUrl url_error
  | SStore store_error
  | SSlateDb slate_error
  | SMirror mirror_error

fun is_fenced :: "service_error \<Rightarrow> bool" where
  "is_fenced (SSlateDb e) \<longleftrightarrow> sle_kind e = Closed Fenced"
| "is_fenced _ \<longleftrightarrow> False"

subsection \<open>Options\<close>

record gc_directory_options =
  gd_interval :: "duration option"
  gd_min_age :: duration
  gd_dry_run :: bool

record garbage_collector_options =
  gc_manifest_options :: "gc_directory_options option"
  gc_wal_options :: "gc_directory_options option"
  gc_wal_fence_options :: "gc_directory_options option"
  gc_compacted_options :: "gc_directory_options option"
  gc_compactions_options :: "gc_directory_options option"
  gc_detach_options :: "duration option option"

record compaction_worker_options =
  cw_max_concurrent_compactions :: nat
  cw_compactions_poll_interval :: duration
  cw_heartbeat_bytes :: nat
  cw_heartbeat_min_interval :: duration
  cw_max_sst_size :: nat
  cw_max_fetch_tasks :: nat
  cw_bytes_to_fetch :: nat
  cw_max_subcompactions :: nat
  cw_min_filter_keys :: nat
  cw_compression_codec :: "compression_codec option"

record scheduler_options =
  so_min_sources :: nat
  so_max_sources :: nat
  so_size_threshold :: f32

record compactor_options =
  cm_poll_interval :: duration
  cm_manifest_update_timeout :: duration
  cm_max_concurrent_compactions :: nat
  cm_scheduler_options :: scheduler_options
  cm_worker :: "compaction_worker_options option"
  cm_commit_compacted_interval :: duration
  cm_worker_heartbeat_timeout :: duration

definition gc_directory :: "resolved_gc_directory \<Rightarrow> gc_directory_options option" where
  "gc_directory dir =
     (if rgd_enabled dir
      then Some \<lparr>gd_interval = Some (rgd_interval dir), gd_min_age = rgd_min_age dir, gd_dry_run = rgd_dry_run dir\<rparr>
      else None)"

definition gc_options :: "resolved_gc \<Rightarrow> garbage_collector_options" where
  "gc_options resolved =
     \<lparr>gc_manifest_options = gc_directory (rg_manifest resolved),
      gc_wal_options = gc_directory (rg_wal resolved),
      gc_wal_fence_options = gc_directory (rg_wal_fence resolved),
      gc_compacted_options = gc_directory (rg_compacted resolved),
      gc_compactions_options = gc_directory (rg_compactions resolved),
      gc_detach_options =
        (if rgt_enabled (rg_detach resolved) then Some (Some (rgt_interval (rg_detach resolved))) else None)\<rparr>"

definition coordinator_options :: "resolved_coordinator \<Rightarrow> compactor_options" where
  "coordinator_options resolved =
     (let scheduler =
        \<lparr>so_min_sources = rs_min_compaction_sources (rc_scheduler resolved),
         so_max_sources = rs_max_compaction_sources (rc_scheduler resolved),
         so_size_threshold = rs_include_size_threshold (rc_scheduler resolved)\<rparr>
      in \<lparr>cm_poll_interval = rc_poll_interval resolved,
          cm_manifest_update_timeout = rc_manifest_update_timeout resolved,
          cm_max_concurrent_compactions = rc_max_concurrent_compactions resolved,
          cm_scheduler_options = scheduler, cm_worker = None,
          cm_commit_compacted_interval = rc_commit_compacted_interval resolved,
          cm_worker_heartbeat_timeout = rc_worker_heartbeat_timeout resolved\<rparr>)"

fun codec :: "compression_codec \<Rightarrow> compression_codec" where
  "codec Snappy = Snappy"
| "codec Zlib = Zlib"
| "codec Lz4 = Lz4"
| "codec Zstd = Zstd"

definition worker_options :: "resolved_workers \<Rightarrow> compaction_worker_options" where
  "worker_options resolved =
     \<lparr>cw_max_concurrent_compactions = rw_max_concurrent_compactions resolved,
      cw_compactions_poll_interval = rw_compactions_poll_interval resolved,
      cw_heartbeat_bytes = rw_heartbeat_bytes resolved,
      cw_heartbeat_min_interval = rw_heartbeat_min_interval resolved,
      cw_max_sst_size = rw_max_sst_size resolved,
      cw_max_fetch_tasks = rw_max_fetch_tasks resolved,
      cw_bytes_to_fetch = rw_bytes_to_fetch resolved,
      cw_max_subcompactions = rw_max_subcompactions resolved,
      cw_min_filter_keys = rw_min_filter_keys resolved,
      cw_compression_codec = map_option codec (rw_compression_codec resolved)\<rparr>"

subsection \<open>Dispatch\<close>

record slate_admin =
  run_gc_with_options :: "garbage_collector_options \<Rightarrow> slate_error + unit"
  run_compactor_with_options :: "compactor_options \<Rightarrow> slate_error + unit"
  run_compaction_worker_with_options :: "compaction_worker_options \<Rightarrow> slate_error + unit"

definition slate_result :: "slate_error + unit \<Rightarrow> service_error + unit" where
  "slate_result r = (case r of Inl e \<Rightarrow> Inl (SSlateDb e) | Inr _ \<Rightarrow> Inr ())"

definition run_gc :: "slate_admin \<Rightarrow> resolved_gc \<Rightarrow> service_error + unit" where
  "run_gc admin resolved = slate_result (run_gc_with_options admin (gc_options resolved))"

definition run_coordinator :: "slate_admin \<Rightarrow> resolved_coordinator \<Rightarrow> service_error + unit" where
  "run_coordinator admin resolved =
     slate_result (run_compactor_with_options admin (coordinator_options resolved))"

definition run_workers :: "slate_admin \<Rightarrow> resolved_workers \<Rightarrow> service_error + unit" where
  "run_workers admin resolved =
     slate_result (run_compaction_worker_with_options admin (worker_options resolved))"

text \<open>The \<^verbatim>\<open>unreachable!\<close> of the mirror arm is the value \<open>None\<close>.\<close>

fun run_service :: "slate_admin \<Rightarrow> service \<Rightarrow> resolved_services \<Rightarrow> (service_error + unit) option" where
  "run_service admin Gc resolved = Some (run_gc admin (rv_gc resolved))"
| "run_service admin CompactorCoordinator resolved = Some (run_coordinator admin (rv_coordinator resolved))"
| "run_service admin CompactionWorkers resolved = Some (run_workers admin (rv_workers resolved))"
| "run_service admin Mirror resolved = None"

subsection \<open>Queue depth\<close>

datatype compaction_status = Submitted | Scheduled | RunningJob | Compacted | Completed | FailedJob

record queue_depth =
  qd_claimable :: nat
  qd_running :: nat

fun depth_step :: "compaction_status \<Rightarrow> queue_depth \<Rightarrow> queue_depth" where
  "depth_step Submitted d = d\<lparr>qd_claimable := qd_claimable d + 1\<rparr>"
| "depth_step Scheduled d = d\<lparr>qd_claimable := qd_claimable d + 1\<rparr>"
| "depth_step RunningJob d = d\<lparr>qd_running := qd_running d + 1\<rparr>"
| "depth_step _ d = d"

definition queue_depth_of ::
  "slate_error + compaction_status list option \<Rightarrow> slate_error + queue_depth" where
  "queue_depth_of answer =
     (let depth = \<lparr>qd_claimable = 0, qd_running = 0\<rparr> in
      case answer of
        Inl e \<Rightarrow> Inl e
      | Inr None \<Rightarrow> Inr depth
      | Inr (Some compactions) \<Rightarrow> Inr (fold depth_step compactions depth))"

subsection \<open>Properties\<close>

lemma codec_id [simp]: "codec c = c"
  by (cases c) auto

lemma codec_map [simp]: "map_option codec c = c"
  by (cases c) auto

lemma depth_fold:
  "fold depth_step js d =
     d\<lparr>qd_claimable := qd_claimable d + length (filter (\<lambda>j. j \<in> {Submitted, Scheduled}) js),
       qd_running := qd_running d + length (filter (\<lambda>j. j = RunningJob) js)\<rparr>"
proof (induction js arbitrary: d)
  case (Cons j js)
  then show ?case by (cases j) simp_all
qed simp

text \<open>The options a directory or schedule gets, when it gets any, pace a loop.\<close>

definition paced :: "gc_directory_options option \<Rightarrow> bool" where
  "paced g \<longleftrightarrow> (case g of None \<Rightarrow> True | Some d \<Rightarrow> (\<exists>i > 0. gd_interval d = Some i))"

lemma paced_gc_directory: "0 < rgd_interval d \<Longrightarrow> paced (gc_directory d)"
  by (simp add: paced_def gc_directory_def)



text \<open>
  Queue depth: the claimable count is the number of jobs submitted or scheduled and the
  running count the number running; a database without \<^verbatim>\<open>.compactions\<close> has depth zero and a
  failed read is an error, never a zero.
\<close>

theorem queue_depth_counts:
  "queue_depth_of (Inr (Some js)) =
     Inr \<lparr>qd_claimable = length (filter (\<lambda>j. j \<in> {Submitted, Scheduled}) js),
          qd_running = length (filter (\<lambda>j. j = RunningJob) js)\<rparr>
   \<and> queue_depth_of (Inr None) = Inr \<lparr>qd_claimable = 0, qd_running = 0\<rparr>
   \<and> queue_depth_of (Inl e) = Inl e"
  by (simp add: queue_depth_of_def depth_fold)

end
