(* ===== verification/Mirror_Layout.thy ===== *)
theory Mirror_Layout
  imports Services
begin

text \<open>
  \<^verbatim>\<open>src/mirror/layout.rs\<close>, the pure part: object names under a database root, the objects a
  manifest references, checkpoint liveness and excluded sources. A \<^verbatim>\<open>VersionedManifest\<close> of
  SlateDB is the record \<open>vmanifest\<close> of what its public accessors return; a \<^verbatim>\<open>BTreeSet\<close> is a
  finite set, iterated in ascending order.
\<close>

subsection \<open>Names\<close>

definition MANIFEST_DIR :: string where
  "MANIFEST_DIR = ''manifest''"

definition WAL_DIR :: string where
  "WAL_DIR = ''wal''"

definition COMPACTED_DIR :: string where
  "COMPACTED_DIR = ''compacted''"

definition manifest_rel :: "nat \<Rightarrow> string" where
  "manifest_rel i = MANIFEST_DIR @ ''/'' @ fmt_020 i @ ''.manifest''"

definition wal_rel :: "nat \<Rightarrow> string" where
  "wal_rel i = WAL_DIR @ ''/'' @ fmt_020 i @ ''.sst''"

definition compacted_rel :: "string \<Rightarrow> string" where
  "compacted_rel ulid = COMPACTED_DIR @ ''/'' @ ulid @ ''.sst''"

definition parse_manifest_name :: "string \<Rightarrow> nat option" where
  "parse_manifest_name name = Option.bind (strip_suffix name ''.manifest'') parse_u64"

definition parse_wal_name :: "string \<Rightarrow> nat option" where
  "parse_wal_name name = Option.bind (strip_suffix name ''.sst'') parse_u64"

definition parse_compacted_name :: "string \<Rightarrow> string option" where
  "parse_compacted_name name =
     Option.bind (strip_suffix name ''.sst'')
       (\<lambda>ulid. if length ulid = 26 \<and> list_all is_ascii_alphanumeric ulid then Some ulid else None)"

subsection \<open>Manifests\<close>

datatype sst_id = Compacted string | Wal nat

record checkpoint =
  cp_id :: nat
  cp_manifest_id :: nat
  cp_expire_time :: "datetime option"
  cp_create_time :: datetime

record sst_tree =
  tr_l0 :: "sst_id list"
  tr_runs :: "sst_id list list"

record vmanifest =
  vm_id :: nat
  vm_tree :: sst_tree
  vm_segments :: "sst_tree list"
  vm_replay_after_wal_id :: nat
  vm_next_wal_sst_id :: nat
  vm_checkpoints :: "checkpoint list"
  vm_external_dbs :: "string list"
  vm_wal_object_store_uri :: "string option"
  vm_last_l0_seq :: nat

record manifest_objects =
  mo_compacted :: "string set"
  mo_wal :: "nat set"

definition no_objects :: manifest_objects where
  "no_objects = \<lparr>mo_compacted = {}, mo_wal = {}\<rparr>"

definition mo_difference :: "manifest_objects \<Rightarrow> manifest_objects \<Rightarrow> manifest_objects" where
  "mo_difference a b = \<lparr>mo_compacted = mo_compacted a - mo_compacted b, mo_wal = mo_wal a - mo_wal b\<rparr>"

definition mo_extend :: "manifest_objects \<Rightarrow> manifest_objects \<Rightarrow> manifest_objects" where
  "mo_extend a b = \<lparr>mo_compacted = mo_compacted a \<union> mo_compacted b, mo_wal = mo_wal a \<union> mo_wal b\<rparr>"

definition mo_is_empty :: "manifest_objects \<Rightarrow> bool" where
  "mo_is_empty a \<longleftrightarrow> mo_compacted a = {} \<and> mo_wal a = {}"

definition mo_len :: "manifest_objects \<Rightarrow> nat" where
  "mo_len a = card (mo_compacted a) + card (mo_wal a)"

definition rel_names :: "manifest_objects \<Rightarrow> string list" where
  "rel_names a =
     map wal_rel (sorted_list_of_set (mo_wal a)) @ map compacted_rel (sorted_list_of_set (mo_compacted a))"

definition add_sst :: "sst_id \<Rightarrow> manifest_objects \<Rightarrow> manifest_objects" where
  "add_sst v a =
     (case v of
        Compacted ulid \<Rightarrow> a\<lparr>mo_compacted := insert ulid (mo_compacted a)\<rparr>
      | Wal i \<Rightarrow> a\<lparr>mo_wal := insert i (mo_wal a)\<rparr>)"

definition tree_objects :: "sst_tree \<Rightarrow> manifest_objects \<Rightarrow> manifest_objects" where
  "tree_objects t a = fold add_sst (concat (tr_runs t)) (fold add_sst (tr_l0 t) a)"

definition objects_of :: "vmanifest \<Rightarrow> manifest_objects" where
  "objects_of m =
     (let objects = fold tree_objects (vm_tree m # vm_segments m) no_objects
      in objects\<lparr>mo_wal := mo_wal objects \<union> {u64_add (vm_replay_after_wal_id m) 1 ..< vm_next_wal_sst_id m}\<rparr>)"

definition checkpoint_live :: "checkpoint \<Rightarrow> datetime \<Rightarrow> bool" where
  "checkpoint_live cp now = (case cp_expire_time cp of None \<Rightarrow> True | Some t \<Rightarrow> now < t)"

definition check_source :: "string \<Rightarrow> vmanifest \<Rightarrow> mirror_error + unit" where
  "check_source url m =
     (if vm_external_dbs m \<noteq> [] then Inl (ExcludedSource url ''it is a clone (external_dbs is set)'')
      else if vm_wal_object_store_uri m \<noteq> None
           then Inl (ExcludedSource url ''it uses a separate WAL object store'')
           else Inr ())"

subsection \<open>Facts about names and objects\<close>

lemma manifest_rel_inject [simp]: "manifest_rel a = manifest_rel b \<longleftrightarrow> a = b"
  by (simp add: manifest_rel_def)

lemma wal_rel_inject [simp]: "wal_rel a = wal_rel b \<longleftrightarrow> a = b"
  by (simp add: wal_rel_def)

lemma compacted_rel_inject [simp]: "compacted_rel a = compacted_rel b \<longleftrightarrow> a = b"
  by (simp add: compacted_rel_def)

lemma rel_kinds_distinct [simp]:
  "manifest_rel i \<noteq> wal_rel j" "wal_rel j \<noteq> manifest_rel i"
  "manifest_rel i \<noteq> compacted_rel u" "compacted_rel u \<noteq> manifest_rel i"
  "wal_rel i \<noteq> compacted_rel u" "compacted_rel u \<noteq> wal_rel i"
  by (simp_all add: manifest_rel_def wal_rel_def compacted_rel_def MANIFEST_DIR_def WAL_DIR_def COMPACTED_DIR_def)

lemma finite_add_sst:
  "finite (mo_compacted a) \<and> finite (mo_wal a) \<Longrightarrow> finite (mo_compacted (fold add_sst vs a)) \<and> finite (mo_wal (fold add_sst vs a))"
proof (induction vs arbitrary: a)
  case (Cons v vs)
  then show ?case by (cases v) (simp_all add: add_sst_def)
qed simp

lemma finite_tree_objects:
  "finite (mo_compacted a) \<and> finite (mo_wal a) \<Longrightarrow> finite (mo_compacted (fold tree_objects ts a)) \<and> finite (mo_wal (fold tree_objects ts a))"
proof (induction ts arbitrary: a)
  case (Cons t ts)
  have "finite (mo_compacted (tree_objects t a)) \<and> finite (mo_wal (tree_objects t a))"
    unfolding tree_objects_def by (intro finite_add_sst Cons.prems)
  then show ?case using Cons.IH by simp
qed simp

lemma finite_objects_of [simp]: "finite (mo_compacted (objects_of m))" "finite (mo_wal (objects_of m))"
  using finite_tree_objects [of no_objects "vm_tree m # vm_segments m"]
  by (simp_all add: objects_of_def Let_def no_objects_def)

text \<open>The names of a set of objects, as a set.\<close>

definition names_of :: "manifest_objects \<Rightarrow> string set" where
  "names_of a = wal_rel ` mo_wal a \<union> compacted_rel ` mo_compacted a"

lemma set_rel_names: "finite (mo_compacted a) \<Longrightarrow> finite (mo_wal a) \<Longrightarrow> set (rel_names a) = names_of a"
  by (simp add: rel_names_def names_of_def)

lemma names_of_extend [simp]: "names_of (mo_extend a b) = names_of a \<union> names_of b"
  by (auto simp: names_of_def mo_extend_def)

lemma names_of_none [simp]: "names_of no_objects = {}"
  by (simp add: names_of_def no_objects_def)

lemma names_of_difference [simp]: "names_of (mo_difference a b) = names_of a - names_of b"
  by (auto simp: names_of_def mo_difference_def)

lemma manifest_not_data [simp]: "manifest_rel i \<notin> names_of a"
  by (auto simp: names_of_def)

lemma filename_rel:
  assumes "CHR ''/'' \<notin> set f"
  shows "filename (d @ ''/'' @ f) = Some f"
  using rsplit_once_append [of "CHR ''/''" f d] assms by (simp add: filename_def)

lemma less_append_same_suffix:
  fixes a b s :: string
  shows "length a = length b \<Longrightarrow> a @ s < b @ s \<longleftrightarrow> a < b"
  by (induction a b rule: list_induct2) auto

lemma less_append_same_prefix:
  fixes a b s :: string
  shows "s @ a < s @ b \<longleftrightarrow> a < b"
  by (induction s) auto

lemma digits_no_slash: "list_all is_digit s \<Longrightarrow> CHR ''/'' \<notin> set s"
  by (auto simp: list_all_iff is_digit_def between_def byte_of_def)

lemma manifest_name_roundtrip:
  "i < 2 ^ 64 \<Longrightarrow> Option.bind (filename (manifest_rel i)) parse_manifest_name = Some i"
proof -
  assume "i < 2 ^ 64"
  moreover have "filename (manifest_rel i) = Some (fmt_020 i @ ''.manifest'')"
    unfolding manifest_rel_def using digits_no_slash [OF fmt_020_digits(1)] by (intro filename_rel) simp
  ultimately show ?thesis by (simp add: parse_manifest_name_def parse_u64_fmt_020)
qed

lemma wal_name_roundtrip:
  "i < 2 ^ 64 \<Longrightarrow> Option.bind (filename (wal_rel i)) parse_wal_name = Some i"
proof -
  assume "i < 2 ^ 64"
  moreover have "filename (wal_rel i) = Some (fmt_020 i @ ''.sst'')"
    unfolding wal_rel_def using digits_no_slash [OF fmt_020_digits(1)] by (intro filename_rel) simp
  ultimately show ?thesis by (simp add: parse_wal_name_def parse_u64_fmt_020)
qed

lemma compacted_name_roundtrip:
  assumes "length u = 26" and "list_all is_ascii_alphanumeric u"
  shows "Option.bind (filename (compacted_rel u)) parse_compacted_name = Some u"
proof -
  have "CHR ''/'' \<notin> set u"
    using assms(2) by (auto simp: list_all_iff is_ascii_alphanumeric_def is_digit_def between_def byte_of_def
        is_ascii_uppercase_def)
  then have "filename (compacted_rel u) = Some (u @ ''.sst'')"
    unfolding compacted_rel_def by (intro filename_rel) simp
  then show ?thesis using assms by (simp add: parse_compacted_name_def)
qed

text \<open>
  The frozen layout. The names the mirror writes are read back by its own listings as the ids
  they were made from, names of different objects and of different kinds differ, and names sort
  in id order, for every 64-bit id; so a listing of the target recovers exactly what was
  committed.
\<close>

theorem layout_names_roundtrip:
  assumes "i < 2 ^ 64" and "j < 2 ^ 64" and "length u = 26" and "list_all is_ascii_alphanumeric u"
  shows "Option.bind (filename (manifest_rel i)) parse_manifest_name = Some i
    \<and> Option.bind (filename (wal_rel i)) parse_wal_name = Some i
    \<and> Option.bind (filename (compacted_rel u)) parse_compacted_name = Some u
    \<and> (manifest_rel i < manifest_rel j \<longleftrightarrow> i < j) \<and> (wal_rel i < wal_rel j \<longleftrightarrow> i < j)
    \<and> manifest_rel i \<noteq> wal_rel j \<and> manifest_rel i \<noteq> compacted_rel u \<and> wal_rel i \<noteq> compacted_rel u"
proof -
  have less: "(d @ ''/'' @ fmt_020 i @ s < d @ ''/'' @ fmt_020 j @ s) \<longleftrightarrow> i < j" for d s :: string
  proof -
    have b: "i < 10 ^ 20" "j < 10 ^ 20" using assms(1,2) by simp_all
    have "length (fmt_020 i) = length (fmt_020 j)" using b by (simp add: length_fmt_020)
    then have "(fmt_020 i @ s < fmt_020 j @ s) \<longleftrightarrow> i < j"
      by (simp add: less_append_same_suffix fmt_020_less [OF b])
    then show ?thesis by (simp add: less_append_same_prefix)
  qed
  have "manifest_rel i < manifest_rel j \<longleftrightarrow> i < j" "wal_rel i < wal_rel j \<longleftrightarrow> i < j"
    unfolding manifest_rel_def wal_rel_def by (rule less)+
  then show ?thesis
    using assms manifest_name_roundtrip wal_name_roundtrip compacted_name_roundtrip by simp
qed

theorem layout_names_roundtrip_witness:
  "Option.bind (filename (manifest_rel 7)) parse_manifest_name = Some 7
    \<and> (manifest_rel 7 < manifest_rel 42 \<longleftrightarrow> (7 :: nat) < 42)"
  using layout_names_roundtrip [of 7 42 "replicate 26 (CHR ''A'')"]
  by (simp add: list_all_iff is_ascii_alphanumeric_def is_ascii_uppercase_def between_def byte_of_def)

end
