(* ===== verification/Mirror_Store.thy ===== *)
theory Mirror_Store
  imports Mirror_Layout
begin

text \<open>
  The effects of the mirror: object-store requests, SlateDB's admin API, the clocks, and the
  listing helpers of \<^verbatim>\<open>src/mirror/layout.rs\<close>.

  A mirror works on two database roots, its source and its destination. The \<open>world\<close> holds the
  objects under both by their relative names, the wall clock, the monotonic clock, the number
  of requests made so far, and the task's own \<^verbatim>\<open>ManifestCache\<close>, which nobody else touches. Everything the mirror does not do itself is the record
  \<open>mirror_env\<close>: before request number \<open>n\<close> the rest of the system (writers, garbage
  collectors, other mirror tasks, the passage of time) takes \<open>me_step n\<close>, and the store fails
  the request with \<open>me_fault n\<close> if that is an error. A request is atomic and listings are
  consistent, as the object stores in use document. SlateDB's admin calls, rclone, the chunking of
  a streamed body and the completion order of concurrent requests are fields of the environment
  too, since their code is not part of the program.

  A fallible computation is an \<open>act\<close>: it takes the world and returns an error or a value and
  the world afterwards. \<open>triple\<close> is the partial-correctness judgement under an invariant and a
  relation that every step keeps, in the style of rely-guarantee reasoning; the locale
  \<open>mirror_logic\<close> holds its rules.
\<close>

subsection \<open>Worlds and the environment\<close>

datatype side = AtSource | AtDest

record db_handle =
  db_url :: string
  db_side :: side
  db_path :: string

record stored =
  so_bytes :: string
  so_modified :: datetime

record world =
  w_objects :: "side \<Rightarrow> (string, stored) hmap"
  w_now :: datetime
  w_instant :: nat
  w_requests :: nat
  w_cache :: "nat \<Rightarrow> vmanifest option"

record checkpoint_options =
  co_lifetime :: "duration option"
  co_name :: "string option"

record process_output =
  po_success :: bool
  po_status :: string
  po_stderr :: "string list"

record mirror_env =
  me_step :: "nat \<Rightarrow> world \<Rightarrow> world"
  me_fault :: "nat \<Rightarrow> store_error option"
  me_order :: "nat \<Rightarrow> nat list"
  me_chunks :: "string \<Rightarrow> string list"
  me_read_manifest :: "world \<Rightarrow> side \<Rightarrow> nat option \<Rightarrow> slate_error + vmanifest option"
  me_create_checkpoint :: "checkpoint_options \<Rightarrow> world \<Rightarrow> (slate_error + nat \<times> nat) \<times> world"
  me_refresh_checkpoint :: "nat \<Rightarrow> duration option \<Rightarrow> world \<Rightarrow> (slate_error + unit) \<times> world"
  me_delete_checkpoint :: "nat \<Rightarrow> world \<Rightarrow> (slate_error + unit) \<times> world"
  me_list_checkpoints :: "world \<Rightarrow> string \<Rightarrow> slate_error + checkpoint list"
  me_rclone_turns :: "string list \<Rightarrow> nat"
  me_rclone :: "string \<Rightarrow> string \<Rightarrow> string \<Rightarrow> string list \<Rightarrow> world \<Rightarrow> (string + process_output) \<times> world"
  me_find_ts :: "vmanifest \<Rightarrow> nat \<Rightarrow> datetime option"
  me_crates :: crates
  me_url_path :: "string \<Rightarrow> string"
  me_to_file_path :: "string \<Rightarrow> string option"

definition object_path :: "db_handle \<Rightarrow> string \<Rightarrow> string" where
  "object_path db rel = db_path db @ ''/'' @ rel"

definition held :: "world \<Rightarrow> side \<Rightarrow> string \<Rightarrow> stored option" where
  "held w d n = map_of (w_objects w d) n"

definition has :: "world \<Rightarrow> side \<Rightarrow> string \<Rightarrow> bool" where
  "has w d n \<longleftrightarrow> held w d n \<noteq> None"

definition put_object :: "side \<Rightarrow> string \<Rightarrow> string \<Rightarrow> world \<Rightarrow> world" where
  "put_object d n b w =
     w\<lparr>w_objects := (w_objects w)(d := AList.update n \<lparr>so_bytes = b, so_modified = w_now w\<rparr> (w_objects w d))\<rparr>"

definition drop_object :: "side \<Rightarrow> string \<Rightarrow> world \<Rightarrow> world" where
  "drop_object d n w = w\<lparr>w_objects := (w_objects w)(d := AList.delete n (w_objects w d))\<rparr>"

definition metas :: "side \<Rightarrow> string \<Rightarrow> world \<Rightarrow> object_meta list" where
  "metas d dir w =
     map (\<lambda>(n, x). \<lparr>om_location = n, om_last_modified = so_modified x, om_size = length (so_bytes x), om_e_tag = None\<rparr>)
       (filter (\<lambda>(n, x). take (length dir + 1) n = dir @ ''/'') (w_objects w d))"

subsection \<open>Computations\<close>

type_synonym ('e, 'a) act = "world \<Rightarrow> ('e + 'a) \<times> world"

definition ret :: "'a \<Rightarrow> ('e, 'a) act" where
  "ret a w = (Inr a, w)"

definition fail :: "'e \<Rightarrow> ('e, 'a) act" where
  "fail e w = (Inl e, w)"

definition bnd :: "('e, 'a) act \<Rightarrow> ('a \<Rightarrow> ('e, 'b) act) \<Rightarrow> ('e, 'b) act" where
  "bnd m f w = (case m w of (Inl e, w') \<Rightarrow> (Inl e, w') | (Inr a, w') \<Rightarrow> f a w')"

definition attempt :: "('e, 'a) act \<Rightarrow> ('f, 'e + 'a) act" where
  "attempt m w = (case m w of (r, w') \<Rightarrow> (Inr r, w'))"

definition map_err :: "('e \<Rightarrow> 'f) \<Rightarrow> ('e, 'a) act \<Rightarrow> ('f, 'a) act" where
  "map_err g m w = (case m w of (Inl e, w') \<Rightarrow> (Inl (g e), w') | (Inr a, w') \<Rightarrow> (Inr a, w'))"

definition get_now :: "('e, datetime) act" where
  "get_now w = (Inr (w_now w), w)"

definition get_instant :: "('e, nat) act" where
  "get_instant w = (Inr (w_instant w), w)"

subsection \<open>Requests\<close>

definition env_turn :: "mirror_env \<Rightarrow> world \<Rightarrow> world" where
  "env_turn V w = (me_step V (w_requests w) w)\<lparr>w_requests := Suc (w_requests w), w_cache := w_cache w\<rparr>"

definition request :: "mirror_env \<Rightarrow> (store_error, 'a) act \<Rightarrow> (store_error, 'a) act" where
  "request V f w =
     (case me_fault V (w_requests w) of
        Some e \<Rightarrow> (Inl e, env_turn V w)
      | None \<Rightarrow> f (env_turn V w))"

definition store_get :: "mirror_env \<Rightarrow> db_handle \<Rightarrow> string \<Rightarrow> (store_error, stored) act" where
  "store_get V db n =
     request V (\<lambda>w. case held w (db_side db) n of None \<Rightarrow> (Inl NotFound, w) | Some x \<Rightarrow> (Inr x, w))"

definition store_bytes :: "mirror_env \<Rightarrow> stored \<Rightarrow> (store_error, string) act" where
  "store_bytes V x = request V (ret (so_bytes x))"

definition store_head :: "mirror_env \<Rightarrow> db_handle \<Rightarrow> string \<Rightarrow> (store_error, unit) act" where
  "store_head V db n =
     request V (\<lambda>w. case held w (db_side db) n of None \<Rightarrow> (Inl NotFound, w) | Some _ \<Rightarrow> (Inr (), w))"

definition store_put :: "mirror_env \<Rightarrow> db_handle \<Rightarrow> string \<Rightarrow> string \<Rightarrow> (store_error, unit) act" where
  "store_put V db n b = request V (\<lambda>w. (Inr (), put_object (db_side db) n b w))"

definition store_create :: "mirror_env \<Rightarrow> db_handle \<Rightarrow> string \<Rightarrow> string \<Rightarrow> (store_error, unit) act" where
  "store_create V db n b =
     request V (\<lambda>w. if has w (db_side db) n then (Inl AlreadyExists, w) else (Inr (), put_object (db_side db) n b w))"

definition store_delete :: "mirror_env \<Rightarrow> db_handle \<Rightarrow> string \<Rightarrow> (store_error, unit) act" where
  "store_delete V db n =
     request V (\<lambda>w. if has w (db_side db) n then (Inr (), drop_object (db_side db) n w) else (Inl NotFound, w))"

definition store_list :: "mirror_env \<Rightarrow> db_handle \<Rightarrow> string \<Rightarrow> (store_error, object_meta list) act" where
  "store_list V db dir = request V (\<lambda>w. (Inr (metas (db_side db) dir w), w))"

definition admin_read_manifest ::
  "mirror_env \<Rightarrow> db_handle \<Rightarrow> nat option \<Rightarrow> (mirror_error, vmanifest option) act" where
  "admin_read_manifest V db i w =
     (let w1 = env_turn V w in
      case me_read_manifest V w1 (db_side db) i of
        Inl e \<Rightarrow> (Inl (MSlateDb e), w1)
      | Inr m \<Rightarrow> (Inr m, w1))"

definition admin_checkpoint :: "mirror_env \<Rightarrow> (world \<Rightarrow> (slate_error + 'a) \<times> world) \<Rightarrow> (mirror_error, 'a) act" where
  "admin_checkpoint V f w =
     (case f (env_turn V w) of
        (Inl e, w') \<Rightarrow> (Inl (MSlateDb e), w'\<lparr>w_cache := w_cache w\<rparr>)
      | (Inr a, w') \<Rightarrow> (Inr a, w'\<lparr>w_cache := w_cache w\<rparr>))"

subsection \<open>Listings and probes\<close>

fun head_probe :: "mirror_env \<Rightarrow> db_handle \<Rightarrow> ('a \<Rightarrow> string) \<Rightarrow> 'a list \<Rightarrow> (mirror_error, 'a list) act" where
  "head_probe V db rel [] = ret []"
| "head_probe V db rel (item # items) =
     bnd (attempt (store_head V db (rel item))) (\<lambda>r.
       case r of
         Inr _ \<Rightarrow> head_probe V db rel items
       | Inl NotFound \<Rightarrow> bnd (head_probe V db rel items) (\<lambda>misses. ret (item # misses))
       | Inl e \<Rightarrow> fail (MStore e))"

definition completion_order :: "mirror_env \<Rightarrow> 'a list \<Rightarrow> 'a list" where
  "completion_order V xs = map ((!) xs) (me_order V (length xs))"

definition head_misses :: "mirror_env \<Rightarrow> db_handle \<Rightarrow> 'a list \<Rightarrow> ('a \<Rightarrow> string) \<Rightarrow> (mirror_error, 'a list) act" where
  "head_misses V db items rel = head_probe V db rel (completion_order V items)"

definition list_dir :: "mirror_env \<Rightarrow> db_handle \<Rightarrow> string \<Rightarrow> (mirror_error, object_meta list) act" where
  "list_dir V db dir =
     bnd (attempt (store_list V db dir)) (\<lambda>r.
       case r of
         Inr ms \<Rightarrow> ret ms
       | Inl NotFound \<Rightarrow> ret []
       | Inl e \<Rightarrow> fail (MStore e))"

definition parsed_metas :: "(string \<Rightarrow> 'a option) \<Rightarrow> object_meta list \<Rightarrow> ('a \<times> object_meta) list" where
  "parsed_metas parse ms =
     List.map_filter (\<lambda>m. map_option (\<lambda>a. (a, m)) (Option.bind (filename (om_location m)) parse)) ms"

definition by_id :: "(nat \<times> 'a) list \<Rightarrow> (nat \<times> 'a) list" where
  "by_id = sort_by (\<lambda>a b. fst a \<le> fst b)"

definition list_manifests :: "mirror_env \<Rightarrow> db_handle \<Rightarrow> (mirror_error, (nat \<times> object_meta) list) act" where
  "list_manifests V db = bnd (list_dir V db MANIFEST_DIR) (\<lambda>ms. ret (by_id (parsed_metas parse_manifest_name ms)))"

definition last_opt :: "'a list \<Rightarrow> 'a option" where
  "last_opt xs = (if xs = [] then None else Some (last xs))"

definition max_manifest_id :: "mirror_env \<Rightarrow> db_handle \<Rightarrow> (mirror_error, nat option) act" where
  "max_manifest_id V db = bnd (list_manifests V db) (\<lambda>ms. ret (map_option fst (last_opt ms)))"

definition list_wals :: "mirror_env \<Rightarrow> db_handle \<Rightarrow> (mirror_error, (nat \<times> object_meta) list) act" where
  "list_wals V db = bnd (list_dir V db WAL_DIR) (\<lambda>ms. ret (by_id (parsed_metas parse_wal_name ms)))"

definition list_compacted :: "mirror_env \<Rightarrow> db_handle \<Rightarrow> (mirror_error, (string \<times> object_meta) list) act" where
  "list_compacted V db = bnd (list_dir V db COMPACTED_DIR) (\<lambda>ms. ret (parsed_metas parse_compacted_name ms))"

subsection \<open>Reasoning about computations\<close>

definition triple ::
  "(world \<Rightarrow> bool) \<Rightarrow> (world \<Rightarrow> world \<Rightarrow> bool) \<Rightarrow> (world \<Rightarrow> bool) \<Rightarrow> ('e, 'a) act \<Rightarrow> ('a \<Rightarrow> world \<Rightarrow> bool) \<Rightarrow> bool" where
  "triple I R P m Q \<longleftrightarrow>
     (\<forall>w r w'. I w \<and> P w \<and> m w = (r, w') \<longrightarrow> I w' \<and> R w w' \<and> (\<forall>a. r = Inr a \<longrightarrow> Q a w'))"

definition stable :: "(world \<Rightarrow> bool) \<Rightarrow> (world \<Rightarrow> world \<Rightarrow> bool) \<Rightarrow> (world \<Rightarrow> bool) \<Rightarrow> bool" where
  "stable I R P \<longleftrightarrow> (\<forall>w w'. I w \<and> I w' \<and> R w w' \<and> P w \<longrightarrow> P w')"

lemma tripleI:
  assumes "\<And>w r w'. I w \<Longrightarrow> P w \<Longrightarrow> m w = (r, w') \<Longrightarrow> I w' \<and> R w w' \<and> (\<forall>a. r = Inr a \<longrightarrow> Q a w')"
  shows "triple I R P m Q"
  using assms by (auto simp: triple_def)

lemma tripleD:
  assumes "triple I R P m Q" and "I w" and "P w" and "m w = (r, w')"
  shows "I w' \<and> R w w' \<and> (\<forall>a. r = Inr a \<longrightarrow> Q a w')"
  using assms unfolding triple_def by blast

locale mirror_logic =
  fixes I :: "world \<Rightarrow> bool" and R :: "world \<Rightarrow> world \<Rightarrow> bool"
  assumes R_refl: "R w w"
    and R_trans: "R u v \<Longrightarrow> R v w \<Longrightarrow> R u w"
begin

lemma ret: "(\<And>w. I w \<Longrightarrow> P w \<Longrightarrow> Q a w) \<Longrightarrow> triple I R P (ret a) Q"
  by (rule tripleI) (auto simp: ret_def R_refl)

lemma fail: "triple I R P (fail e) Q"
  by (rule tripleI) (auto simp: fail_def R_refl)

lemma now: "(\<And>w. I w \<Longrightarrow> P w \<Longrightarrow> Q (w_now w) w) \<Longrightarrow> triple I R P get_now Q"
  by (rule tripleI) (auto simp: get_now_def R_refl)

lemma instant: "(\<And>w. I w \<Longrightarrow> P w \<Longrightarrow> Q (w_instant w) w) \<Longrightarrow> triple I R P get_instant Q"
  by (rule tripleI) (auto simp: get_instant_def R_refl)

lemma bnd:
  assumes m: "triple I R P m Q" and f: "\<And>a. triple I R (Q a) (f a) S"
  shows "triple I R P (bnd m f) S"
proof (rule tripleI)
  fix w r w' assume *: "I w" "P w" "bnd m f w = (r, w')"
  obtain r1 w1 where m1: "m w = (r1, w1)" by fastforce
  have 1: "I w1 \<and> R w w1 \<and> (\<forall>a. r1 = Inr a \<longrightarrow> Q a w1)" by (rule tripleD [OF m *(1,2) m1])
  show "I w' \<and> R w w' \<and> (\<forall>a. r = Inr a \<longrightarrow> S a w')"
  proof (cases r1)
    case (Inl e)
    then show ?thesis using * m1 1 by (auto simp: bnd_def)
  next
    case (Inr a)
    then have "f a w1 = (r, w')" using * m1 by (simp add: bnd_def)
    then have "I w' \<and> R w1 w' \<and> (\<forall>a. r = Inr a \<longrightarrow> S a w')" using tripleD [OF f] 1 Inr by blast
    then show ?thesis using R_trans 1 by blast
  qed
qed

lemma conseq:
  assumes "triple I R P m Q" and "\<And>w. I w \<Longrightarrow> P' w \<Longrightarrow> P w" and "\<And>a w. I w \<Longrightarrow> Q a w \<Longrightarrow> Q' a w"
  shows "triple I R P' m Q'"
  using assms unfolding triple_def by blast

lemma pre: "triple I R P m Q \<Longrightarrow> (\<And>w. I w \<Longrightarrow> P' w \<Longrightarrow> P w) \<Longrightarrow> triple I R P' m Q"
  by (rule conseq)

lemma frame:
  assumes "triple I R P m Q" and "stable I R F"
  shows "triple I R (\<lambda>w. P w \<and> F w) m (\<lambda>a w. Q a w \<and> F w)"
  using assms unfolding triple_def stable_def by blast

lemma attempt:
  assumes "triple I R P m Q"
  shows "triple I R P (attempt m) (\<lambda>r w. \<forall>a. r = Inr a \<longrightarrow> Q a w)"
  using assms by (auto simp: triple_def attempt_def split: prod.splits)

text \<open>A call whose failure is looked at, and one whose result is optional.\<close>

lemma bnd_attempt:
  assumes m: "triple I R P m Q" and P: "stable I R P"
    and "\<And>e. triple I R P (f (Inl e)) S" and "\<And>a. triple I R (Q a) (f (Inr a)) S"
  shows "triple I R P (bnd (attempt m) f) S"
proof (rule bnd)
  show "triple I R P (attempt m) (\<lambda>r w. case r of Inl e \<Rightarrow> P w | Inr a \<Rightarrow> Q a w)"
    by (rule conseq [OF frame [OF attempt [OF m] P]]) (auto split: sum.splits)
  show "triple I R (\<lambda>w. case r of Inl e \<Rightarrow> P w | Inr a \<Rightarrow> Q a w) (f r) S" for r
    using assms(3,4) by (cases r) simp_all
qed

lemma bnd_option:
  assumes "triple I R P m Q" and "triple I R (Q None) (f None) S" and "\<And>a. triple I R (Q (Some a)) (f (Some a)) S"
  shows "triple I R P (bnd m f) S"
  by (rule bnd [OF assms(1)]) (metis assms(2,3) option.exhaust)

lemma map_err:
  assumes "triple I R P m Q"
  shows "triple I R P (map_err g m) Q"
  using assms by (auto simp: triple_def map_err_def split: prod.splits sum.splits)

lemma gather:
  assumes "\<And>w0. triple I R (\<lambda>w. w = w0 \<and> P w) m Q"
  shows "triple I R P m Q"
  using assms unfolding triple_def by blast

lemma pull:
  assumes "C \<Longrightarrow> triple I R P m Q"
  shows "triple I R (\<lambda>w. P w \<and> C) m Q"
  using assms unfolding triple_def by blast

lemma ex_pre:
  assumes "\<And>x. triple I R (P x) m Q"
  shows "triple I R (\<lambda>w. \<exists>x. P x w) m Q"
  using assms unfolding triple_def by blast

lemma stable_conj: "stable I R P \<Longrightarrow> stable I R Q \<Longrightarrow> stable I R (\<lambda>w. P w \<and> Q w)"
  unfolding stable_def by blast

lemma stable_const: "stable I R (\<lambda>w. C)"
  unfolding stable_def by blast

lemma stable_all: "(\<And>x. stable I R (P x)) \<Longrightarrow> stable I R (\<lambda>w. \<forall>x. P x w)"
  unfolding stable_def by blast

lemma stable_ex: "(\<And>x. stable I R (P x)) \<Longrightarrow> stable I R (\<lambda>w. \<exists>x. P x w)"
  unfolding stable_def by blast

lemma stable_imp: "stable I R P \<Longrightarrow> stable I R (\<lambda>w. C \<longrightarrow> P w)"
  unfolding stable_def by blast

lemma stable_ball: "(\<And>x. stable I R (P x)) \<Longrightarrow> stable I R (\<lambda>w. \<forall>x \<in> A. P x w)"
  unfolding stable_def by blast

lemma stable_since: "stable I R (R w0)"
  unfolding stable_def using R_trans by blast

end

subsection \<open>Requests change the world only through their own effect\<close>

lemma held_put_object: "held (put_object d n b w) d' n' =
    (if d' = d \<and> n' = n then Some \<lparr>so_bytes = b, so_modified = w_now w\<rparr> else held w d' n')"
  by (simp add: held_def put_object_def update_conv')

lemma held_drop_object: "held (drop_object d n w) d' n' = (if d' = d \<and> n' = n then None else held w d' n')"
  by (simp add: held_def drop_object_def delete_conv')

lemma has_put_object: "has (put_object d n b w) d' n' \<longleftrightarrow> d' = d \<and> n' = n \<or> has w d' n'"
  by (auto simp: has_def held_put_object)

lemma has_drop_object: "has (drop_object d n w) d' n' \<longleftrightarrow> \<not> (d' = d \<and> n' = n) \<and> has w d' n'"
  by (auto simp: has_def held_drop_object)

lemma clocks_put_object [simp]:
  "w_now (put_object d n b w) = w_now w" "w_instant (put_object d n b w) = w_instant w" "w_requests (put_object d n b w) = w_requests w"
  "w_now (drop_object d n w) = w_now w" "w_instant (drop_object d n w) = w_instant w" "w_requests (drop_object d n w) = w_requests w"
  by (simp_all add: put_object_def drop_object_def)

lemma held_cache [simp]:
  "held (w\<lparr>w_cache := c\<rparr>) = held w" "has (w\<lparr>w_cache := c\<rparr>) = has w"
  by (simp_all add: held_def has_def fun_eq_iff)

lemma cache_put_object [simp]: "w_cache (put_object d n b w) = w_cache w" "w_cache (drop_object d n w) = w_cache w"
  by (simp_all add: put_object_def drop_object_def)

lemma cache_turn [simp]: "w_cache (env_turn V w) = w_cache w"
  by (simp add: env_turn_def)

lemma held_requests [simp]:
  "held (w\<lparr>w_requests := k\<rparr>) = held w" "has (w\<lparr>w_requests := k\<rparr>) = has w"
  by (simp_all add: held_def has_def fun_eq_iff)

subsection \<open>Rules for requests in a well-behaved environment\<close>

locale env_logic = mirror_logic +
  fixes V :: mirror_env
  assumes turn: "I w \<Longrightarrow> I (env_turn V w) \<and> R w (env_turn V w)"
begin

lemma stable_turn: "stable I R P \<Longrightarrow> I w \<Longrightarrow> P w \<Longrightarrow> P (env_turn V w)"
  using turn unfolding stable_def by blast

lemma request:
  assumes f: "triple I R P f Q" and P: "stable I R P"
  shows "triple I R P (request V f) Q"
proof (rule tripleI)
  fix w r w' assume *: "I w" "P w" "request V f w = (r, w')"
  have t: "I (env_turn V w)" "R w (env_turn V w)" "P (env_turn V w)"
    using turn stable_turn [OF P] * by blast+
  show "I w' \<and> R w w' \<and> (\<forall>a. r = Inr a \<longrightarrow> Q a w')"
  proof (cases "me_fault V (w_requests w)")
    case None
    then have "f (env_turn V w) = (r, w')" using * by (simp add: request_def)
    from tripleD [OF f t(1,3) this] show ?thesis using R_trans t(2) by blast
  next
    case (Some e)
    then show ?thesis using * t by (auto simp: request_def)
  qed
qed

lemma store_get:
  assumes "stable I R P" and "\<And>w x. I w \<Longrightarrow> P w \<Longrightarrow> held w (db_side db) n = Some x \<Longrightarrow> Q x w"
  shows "triple I R P (store_get V db n) Q"
  unfolding store_get_def
  by (rule request [OF _ assms(1)], rule tripleI) (auto simp: R_refl assms(2) split: option.splits)

lemma store_bytes:
  assumes "stable I R P" and "\<And>w. I w \<Longrightarrow> P w \<Longrightarrow> Q (so_bytes x) w"
  shows "triple I R P (store_bytes V x) Q"
  unfolding store_bytes_def by (rule request [OF ret assms(1)]) (rule assms(2))

lemma store_head:
  assumes "stable I R P" and "\<And>w. I w \<Longrightarrow> P w \<Longrightarrow> has w (db_side db) n \<Longrightarrow> Q () w"
  shows "triple I R P (store_head V db n) Q"
  unfolding store_head_def
  by (rule request [OF _ assms(1)], rule tripleI) (auto simp: R_refl assms(2) has_def split: option.splits)

lemma store_put:
  assumes "stable I R P"
    and "\<And>w. I w \<Longrightarrow> P w \<Longrightarrow>
      I (put_object (db_side db) n b w) \<and> R w (put_object (db_side db) n b w) \<and> Q () (put_object (db_side db) n b w)"
  shows "triple I R P (store_put V db n b) Q"
  unfolding store_put_def by (rule request [OF _ assms(1)], rule tripleI) (use assms(2) in auto)

lemma store_create:
  assumes "stable I R P"
    and "\<And>w. I w \<Longrightarrow> P w \<Longrightarrow> \<not> has w (db_side db) n \<Longrightarrow>
      I (put_object (db_side db) n b w) \<and> R w (put_object (db_side db) n b w) \<and> Q () (put_object (db_side db) n b w)"
  shows "triple I R P (store_create V db n b) Q"
  unfolding store_create_def
  by (rule request [OF _ assms(1)], rule tripleI) (use assms(2) in \<open>auto simp: R_refl split: if_splits\<close>)

lemma store_delete:
  assumes "stable I R P"
    and "\<And>w. I w \<Longrightarrow> P w \<Longrightarrow> has w (db_side db) n \<Longrightarrow>
      I (drop_object (db_side db) n w) \<and> R w (drop_object (db_side db) n w) \<and> Q () (drop_object (db_side db) n w)"
  shows "triple I R P (store_delete V db n) Q"
  unfolding store_delete_def
  by (rule request [OF _ assms(1)], rule tripleI) (use assms(2) in \<open>auto simp: R_refl split: if_splits\<close>)

lemma store_list:
  assumes "stable I R P" and "\<And>w. I w \<Longrightarrow> P w \<Longrightarrow> Q (metas (db_side db) dir w) w"
  shows "triple I R P (store_list V db dir) Q"
  unfolding store_list_def by (rule request [OF _ assms(1)], rule tripleI) (auto simp: R_refl assms(2))

lemma admin_read_manifest:
  assumes "stable I R P"
    and "\<And>w m. I w \<Longrightarrow> P w \<Longrightarrow> me_read_manifest V w (db_side db) i = Inr m \<Longrightarrow> Q m w"
  shows "triple I R P (admin_read_manifest V db i) Q"
proof (rule tripleI)
  fix w r w' assume *: "I w" "P w" "admin_read_manifest V db i w = (r, w')"
  have "I (env_turn V w)" "R w (env_turn V w)" "P (env_turn V w)"
    using turn stable_turn [OF assms(1)] * by blast+
  then show "I w' \<and> R w w' \<and> (\<forall>a. r = Inr a \<longrightarrow> Q a w')"
    using * assms(2) by (auto simp: admin_read_manifest_def Let_def split: sum.splits)
qed

lemma admin_checkpoint:
  assumes "stable I R P"
    and "\<And>w r w'. I w \<Longrightarrow> P w \<Longrightarrow> f w = (r, w') \<Longrightarrow>
      I (w'\<lparr>w_cache := w_cache w\<rparr>) \<and> R w (w'\<lparr>w_cache := w_cache w\<rparr>) \<and> (\<forall>a. r = Inr a \<longrightarrow> Q a (w'\<lparr>w_cache := w_cache w\<rparr>))"
  shows "triple I R P (admin_checkpoint V f) Q"
proof (rule tripleI)
  fix w r w' assume *: "I w" "P w" "admin_checkpoint V f w = (r, w')"
  have t: "I (env_turn V w)" "R w (env_turn V w)" "P (env_turn V w)"
    using turn stable_turn [OF assms(1)] * by blast+
  obtain r1 w1 where f: "f (env_turn V w) = (r1, w1)" by fastforce
  have "w1\<lparr>w_cache := w_cache (env_turn V w)\<rparr> = w'" "\<forall>a. r = Inr a \<longrightarrow> r1 = Inr a"
    using * f by (auto simp: admin_checkpoint_def env_turn_def split: sum.splits)
  then show "I w' \<and> R w w' \<and> (\<forall>a. r = Inr a \<longrightarrow> Q a w')"
    using assms(2) [OF t(1,3) f] R_trans [OF t(2)] by blast
qed

lemma list_dir:
  assumes P: "stable I R P" and Q: "\<And>w. I w \<Longrightarrow> P w \<Longrightarrow> Q (metas (db_side db) dir w) w" "\<And>w. I w \<Longrightarrow> P w \<Longrightarrow> Q [] w"
  shows "triple I R P (list_dir V db dir) Q"
  unfolding list_dir_def
proof (rule bnd_attempt [OF store_list [OF P, of Q]])
  show "triple I R P (case Inl e of Inl NotFound \<Rightarrow> ret [] | Inl e \<Rightarrow> fail (MStore e) | Inr ms \<Rightarrow> ret ms) Q" for e
    by (auto split: store_error.splits intro: ret fail Q(2))
qed (use P Q(1) in \<open>auto intro: ret\<close>)

lemma head_probe:
  assumes P: "stable I R P" and has: "\<And>x. stable I R (\<lambda>w. has w (db_side db) (rel x))"
  shows "triple I R P (head_probe V db rel items)
    (\<lambda>misses w. P w \<and> set misses \<subseteq> set items \<and> (\<forall>x \<in> set items - set misses. has w (db_side db) (rel x)))"
proof (induction items)
  case Nil
  show ?case by (simp, rule ret) auto
next
  case (Cons x items)
  let ?H = "\<lambda>w. has w (db_side db) (rel x)"
  have 1: "triple I R P (attempt (store_head V db (rel x))) (\<lambda>r w. (\<forall>a. r = Inr a \<longrightarrow> ?H w) \<and> P w)"
    by (rule conseq [OF frame [OF attempt [OF store_head [OF P]] P]]) auto
  have 2: "triple I R (\<lambda>w. ?H w \<and> P w) (head_probe V db rel items)
      (\<lambda>misses w. P w \<and> set misses \<subseteq> set (x # items) \<and> (\<forall>y \<in> set (x # items) - set misses. has w (db_side db) (rel y)))"
    by (rule conseq [OF frame [OF Cons.IH has [of x]]]) auto
  show ?case
    unfolding head_probe.simps
  proof (rule bnd [OF 1])
    fix r :: "store_error + unit"
    show "triple I R (\<lambda>w. (\<forall>a. r = Inr a \<longrightarrow> ?H w) \<and> P w)
      (case r of Inr u \<Rightarrow> head_probe V db rel items
       | Inl NotFound \<Rightarrow> bnd (head_probe V db rel items) (\<lambda>misses. ret (x # misses))
       | Inl e \<Rightarrow> fail (MStore e))
      (\<lambda>misses w. P w \<and> set misses \<subseteq> set (x # items) \<and> (\<forall>y \<in> set (x # items) - set misses. has w (db_side db) (rel y)))"
    proof (cases r)
      case (Inr u)
      show ?thesis unfolding Inr sum.case by (rule pre [OF 2]) auto
    next
      case (Inl e)
      show ?thesis
      proof (cases e)
        case NotFound
        show ?thesis unfolding Inl NotFound sum.case store_error.case
          by (rule bnd [OF pre [OF Cons.IH] ret]) auto
      qed (simp_all add: Inl fail)
    qed
  qed
qed

end

end
