(* ===== verification/Mirror_Copier.thy ===== *)
theory Mirror_Copier
  imports Mirror_Store
begin

text \<open>
  \<^verbatim>\<open>src/mirror/copier.rs\<close>: who moves data objects, and how. The concurrent copies of
  \<^verbatim>\<open>try_for_each_concurrent\<close> run one after the other in the environment's completion order, with
  the environment acting before every request. What the surrounding \<^verbatim>\<open>select!\<close> does while the
  copy waits for a request is the parameter \<open>hook\<close>, with its own state: under a pin it refreshes the
  pin, in a restore it does nothing. \<open>fe\<close> turns an error about an object path into the caller's
  error type. The list file rclone reads and the process itself are the environment's \<open>me_rclone\<close>,
  whose error is the message of the step that failed; \<open>debug_str\<close> is the \<^verbatim>\<open>{:?}\<close> rendering
  of a string of printable characters.
\<close>

definition MULTIPART_THRESHOLD :: nat where
  "MULTIPART_THRESHOLD = 8 * 1024 * 1024"

record copied =
  cd_objects :: nat
  cd_bytes :: nat

definition nothing_copied :: copied where
  "nothing_copied = \<lparr>cd_objects = 0, cd_bytes = 0\<rparr>"

record copier =
  ck_kind :: copier_kind
  ck_parallelism :: nat
  ck_rclone :: "string option"
  ck_source :: db_handle
  ck_dest :: db_handle

definition copier_new :: "resolved_mirror_target \<Rightarrow> string option \<Rightarrow> db_handle \<Rightarrow> db_handle \<Rightarrow> copier" where
  "copier_new settings rclone source dest =
     \<lparr>ck_kind = rt_copier settings, ck_parallelism = max 1 (rt_copy_parallelism settings), ck_rclone = rclone,
      ck_source = source, ck_dest = dest\<rparr>"

definition plan_compacted :: "mirror_env \<Rightarrow> copier \<Rightarrow> string list \<Rightarrow> bool \<Rightarrow> (mirror_error, string list) act" where
  "plan_compacted V c candidates seeding =
     (case ck_kind c of
        Builtin \<Rightarrow> ret candidates
      | Rclone \<Rightarrow> ret candidates
      | External \<Rightarrow>
          if seeding
          then bnd (list_compacted V (ck_dest c)) (\<lambda>listed.
                 let present = set (map fst listed) in ret (filter (\<lambda>ulid. ulid \<notin> present) candidates))
          else head_misses V (ck_dest c) candidates compacted_rel)"

subsection \<open>Copying one object\<close>

definition hooked :: "('s \<Rightarrow> ('e, 's) act) \<Rightarrow> (store_error \<Rightarrow> 'e) \<Rightarrow> 's \<Rightarrow> (store_error, 'a) act \<Rightarrow> ('e, 'a \<times> 's) act" where
  "hooked hook f s m = bnd (hook s) (\<lambda>s'. bnd (map_err f m) (\<lambda>a. ret (a, s')))"

fun upload_chunks ::
  "mirror_env \<Rightarrow> ('s \<Rightarrow> ('e, 's) act) \<Rightarrow> (store_error \<Rightarrow> 'e) \<Rightarrow> 's \<Rightarrow> string list \<Rightarrow> string \<Rightarrow> ('e, string \<times> 's) act" where
  "upload_chunks V hook f s [] buffer = ret (buffer, s)"
| "upload_chunks V hook f s (chunk # chunks) buffer =
     bnd (hooked hook f s (request V (ret chunk))) (\<lambda>(c, s).
     bnd (hooked hook f s (request V (ret ()))) (\<lambda>(_, s).
     upload_chunks V hook f s chunks (buffer @ c)))"

definition copy_object ::
  "mirror_env \<Rightarrow> ('s \<Rightarrow> ('e, 's) act) \<Rightarrow> (string \<Rightarrow> mirror_error \<Rightarrow> 'e) \<Rightarrow> 's \<Rightarrow> db_handle \<Rightarrow> db_handle \<Rightarrow> string
     \<Rightarrow> ('e, nat \<times> 's) act" where
  "copy_object V hook fe s source dest rel =
     bnd (hooked hook (\<lambda>e. fe (object_path source rel) (MStore e)) s (store_get V source rel)) (\<lambda>(get, s).
     let size = length (so_bytes get); to = (\<lambda>e. fe (object_path dest rel) (MStore e)) in
     if size \<le> MULTIPART_THRESHOLD
     then bnd (hooked hook (\<lambda>e. fe (object_path source rel) (MStore e)) s (store_bytes V get)) (\<lambda>(bytes, s).
          bnd (hooked hook to s (store_put V dest rel bytes)) (\<lambda>(_, s). ret (size, s)))
     else bnd (hooked hook to s (request V (ret ()))) (\<lambda>(_, s).
          bnd (upload_chunks V hook to s (me_chunks V (so_bytes get)) []) (\<lambda>(buffer, s).
          bnd (hooked hook to s (store_put V dest rel buffer)) (\<lambda>(_, s). ret (size, s)))))"

subsection \<open>Copying a list\<close>

fun copy_each ::
  "mirror_env \<Rightarrow> ('s \<Rightarrow> ('e, 's) act) \<Rightarrow> (string \<Rightarrow> mirror_error \<Rightarrow> 'e) \<Rightarrow> 's \<Rightarrow> db_handle \<Rightarrow> db_handle \<Rightarrow> string list
     \<Rightarrow> nat \<Rightarrow> ('e, nat \<times> 's) act" where
  "copy_each V hook fe s source dest [] bytes = ret (bytes, s)"
| "copy_each V hook fe s source dest (name # names) bytes =
     bnd (copy_object V hook fe s source dest name) (\<lambda>(n, s).
     copy_each V hook fe s source dest names (u64_add bytes n))"

definition copy_builtin ::
  "mirror_env \<Rightarrow> copier \<Rightarrow> ('s \<Rightarrow> ('e, 's) act) \<Rightarrow> (string \<Rightarrow> mirror_error \<Rightarrow> 'e) \<Rightarrow> 's \<Rightarrow> string list
     \<Rightarrow> ('e, copied \<times> 's) act" where
  "copy_builtin V c hook fe s names =
     bnd (copy_each V hook fe s (ck_source c) (ck_dest c) (completion_order V names) 0) (\<lambda>(bytes, s).
     ret (\<lparr>cd_objects = length names, cd_bytes = bytes\<rparr>, s))"

definition debug_char :: "char \<Rightarrow> string" where
  "debug_char c =
     (if c = CHR 0x22 then [CHR 0x5C, CHR 0x22]
      else if c = CHR 0x5C then [CHR 0x5C, CHR 0x5C]
      else if c = CHR 0x0A then [CHR 0x5C, CHR ''n'']
      else if c = CHR 0x0D then [CHR 0x5C, CHR ''r'']
      else if c = CHR 0x09 then [CHR 0x5C, CHR ''t'']
      else [c])"

definition debug_str :: "string \<Rightarrow> string" where
  "debug_str s = [CHR 0x22] @ concat (map debug_char s) @ [CHR 0x22]"

definition rclone_remote :: "mirror_env \<Rightarrow> string \<Rightarrow> mirror_error + string" where
  "rclone_remote V url =
     (case url_parse (me_crates V) url of
        Inl _ \<Rightarrow> Inl (RcloneError (''cannot map '' @ debug_str url @ '' to an rclone remote''))
      | Inr parsed \<Rightarrow>
          (let host = (case url_host_str (me_crates V) parsed of None \<Rightarrow> [] | Some h \<Rightarrow> h);
               path = trim_start_matches (me_url_path V parsed) (CHR ''/'');
               scheme = url_scheme (me_crates V) parsed;
               remote = (\<lambda>backend. Inr (backend @ '':'' @ host @ ''/'' @ path))
           in
           if scheme \<in> {''s3'', ''s3a''} then remote '':s3,env_auth''
           else if scheme = ''gs'' then remote '':gcs,env_auth''
           else if scheme \<in> {''az'', ''azure'', ''abfs'', ''abfss'', ''adl''} then remote '':azureblob,env_auth''
           else if scheme = ''file'' then
             (case me_to_file_path V parsed of
                None \<Rightarrow> Inl (RcloneError (''bad file URL '' @ debug_str url))
              | Some p \<Rightarrow> Inr p)
           else Inl (RcloneError (''no rclone backend for scheme '' @ debug_str scheme))))"

definition stderr_tail :: "string list \<Rightarrow> string" where
  "stderr_tail ls = join ''; '' (rev (take 5 (rev ls)))"

fun rclone_wait :: "mirror_env \<Rightarrow> ('s \<Rightarrow> ('e, 's) act) \<Rightarrow> 's \<Rightarrow> nat \<Rightarrow> ('e, 's) act" where
  "rclone_wait V hook s 0 = ret s"
| "rclone_wait V hook s (Suc n) =
     bnd (hook s) (\<lambda>s. bnd (\<lambda>w. (Inr (), env_turn V w)) (\<lambda>_. rclone_wait V hook s n))"

definition rclone_run :: "mirror_env \<Rightarrow> string \<Rightarrow> string \<Rightarrow> string \<Rightarrow> string list \<Rightarrow> (mirror_error, process_output) act" where
  "rclone_run V rclone source dest names w =
     (case me_rclone V rclone source dest names (env_turn V w) of
        (Inl e, w') \<Rightarrow> (Inl (RcloneError e), w'\<lparr>w_cache := w_cache w\<rparr>)
      | (Inr out, w') \<Rightarrow> (Inr out, w'\<lparr>w_cache := w_cache w\<rparr>))"

definition copy_rclone ::
  "mirror_env \<Rightarrow> copier \<Rightarrow> ('s \<Rightarrow> ('e, 's) act) \<Rightarrow> (string \<Rightarrow> mirror_error \<Rightarrow> 'e) \<Rightarrow> 's \<Rightarrow> string list
     \<Rightarrow> ('e, copied \<times> 's) act" where
  "copy_rclone V c hook fe s names =
     (let rclone = (case ck_rclone c of None \<Rightarrow> ''rclone'' | Some r \<Rightarrow> r) in
      case rclone_remote V (db_url (ck_source c)) of
        Inl e \<Rightarrow> fail (fe [] e)
      | Inr source \<Rightarrow>
          (case rclone_remote V (db_url (ck_dest c)) of
             Inl e \<Rightarrow> fail (fe [] e)
           | Inr dest \<Rightarrow>
               bnd (rclone_wait V hook s (me_rclone_turns V names)) (\<lambda>s.
               bnd (map_err (fe []) (rclone_run V rclone source dest names)) (\<lambda>out.
               if \<not> po_success out
               then fail (fe [] (RcloneError
                      (rclone @ '' exited with '' @ po_status out @ '': '' @ stderr_tail (po_stderr out))))
               else ret (\<lparr>cd_objects = length names, cd_bytes = 0\<rparr>, s)))))"

definition copier_copy ::
  "mirror_env \<Rightarrow> copier \<Rightarrow> ('s \<Rightarrow> ('e, 's) act) \<Rightarrow> (string \<Rightarrow> mirror_error \<Rightarrow> 'e) \<Rightarrow> 's \<Rightarrow> string list
     \<Rightarrow> ('e, copied \<times> 's) act" where
  "copier_copy V c hook fe s names =
     (if names = [] then ret (nothing_copied, s)
      else if ck_kind c = Rclone then copy_rclone V c hook fe s names
      else copy_builtin V c hook fe s names)"

end
