(* ===== verification/Messages.thy ===== *)
theory Messages
  imports Config_Poller Mirror_Copier
begin

text \<open>
  The messages of the program: the \<^verbatim>\<open>Display\<close> text of each error type (the \<^verbatim>\<open>#[error(...)]\<close>
  attributes of \<^verbatim>\<open>src/registry.rs\<close>, \<^verbatim>\<open>config.rs\<close>, \<^verbatim>\<open>services.rs\<close> and \<^verbatim>\<open>mirror/mod.rs\<close>), of a
  validation issue and of a poll warning (the \<^verbatim>\<open>format!\<close> calls that push them). The operator
  commands print them, sort them and put them into responses. The texts of other crates' errors
  and of durations are the record \<open>displays\<close>.
\<close>

record displays =
  dp_store :: "store_error \<Rightarrow> string"
  dp_slate :: "slate_error \<Rightarrow> string"
  dp_utf8 :: "string \<Rightarrow> string"
  dp_duration :: "duration \<Rightarrow> string"

fun url_error_text :: "url_error \<Rightarrow> string" where
  "url_error_text (Invalid url source) = ''invalid URL '' @ debug_str url @ '': '' @ source"
| "url_error_text (UnsupportedScheme scheme) =
     ''unsupported URL scheme '' @ debug_str scheme @ '' (expected one of '' @ join '', '' URL_SCHEMES @ '')''"
| "url_error_text (TooLong len) =
     ''database URL too long: its registry file name is '' @ show_nat len @ '' bytes (max ''
       @ show_nat MAX_FILE_NAME @ ''; object-store keys cap at 1024)''"

fun issue_text :: "displays \<Rightarrow> issue \<Rightarrow> string" where
  "issue_text D HeartbeatIntervalZero = ''node.heartbeat_interval must be > 0''"
| "issue_text D (IntervalNotBelowTimeout i t) =
     ''node.heartbeat_interval ('' @ dp_duration D i @ '') must be < node.heartbeat_timeout ('' @ dp_duration D t @ '')''"
| "issue_text D ConfigPollZero = ''node.config_poll must be > 0''"
| "issue_text D (DuplicateService tbl s) = tbl @ '' lists '' @ debug_str (as_str s) @ '' more than once''"
| "issue_text D (MustBePositive field) = field @ '' must be > 0''"
| "issue_text D (MustBeAtLeastOne field) = field @ '' must be >= 1''"
| "issue_text D (CountAtLeastOne field) =
     field @ '' must be >= 1 (drop '' @ debug_str ''compaction-workers'' @ '' from services to run none)''"
| "issue_text D (MustBePositiveNumber field) = field @ '' must be a positive number''"
| "issue_text D (MinExceedsMax tbl lo hi) =
     tbl @ '': min_compaction_sources ('' @ show_nat lo @ '') exceeds max_compaction_sources ('' @ show_nat hi @ '')''"
| "issue_text D (UrlRequired tbl) = tbl @ '': url is required unless the target is disabled''"
| "issue_text D (BadUrl tbl e) = tbl @ ''.url: '' @ url_error_text e"
| "issue_text D (BadSourcePrefix tbl e) = tbl @ ''.source_prefix: '' @ url_error_text e"
| "issue_text D (BadTargetName tbl) = tbl @ '': mirror target names are 1-128 chars of [A-Za-z0-9_-]''"

fun parse_error_text :: "displays \<Rightarrow> parse_error \<Rightarrow> string" where
  "parse_error_text D (TomlError e) = ''failed to parse config: '' @ e"
| "parse_error_text D (InvalidConfig issues) =
     ''invalid config:'' @ [CHR 0x0A] @ ''  '' @ join ([CHR 0x0A] @ ''  '') (map (issue_text D) issues)"

fun read_error_text :: "displays \<Rightarrow> read_error \<Rightarrow> string" where
  "read_error_text D (StoreFailed e) = dp_store D e"
| "read_error_text D (NotUtf8 body) = dp_utf8 D body"
| "read_error_text D (Rejected e) = parse_error_text D e"

fun warning_text :: "displays \<Rightarrow> warning \<Rightarrow> string" where
  "warning_text D (ConfigUnreadable path e) = ''failed to read '' @ path @ '': '' @ dp_store D e @ ''; keeping last good config''"
| "warning_text D (ConfigRejected path e) = ''invalid '' @ path @ '': '' @ read_error_text D e @ ''; keeping last good config''"
| "warning_text D (RegistryUnlisted e) = ''failed to list registry: '' @ dp_store D e @ ''; keeping last good''"
| "warning_text D (NonRegistryObject location) = ''ignoring non-registry object '' @ location"
| "warning_text D (NotCanonical name decoded canonical) =
     ''registry entry '' @ name @ '' is not canonical (decodes to '' @ debug_str decoded @ '', canonical ''
       @ debug_str canonical @ '')''"
| "warning_text D (IgnoredEntry name e) = ''ignoring registry entry '' @ name @ '': '' @ url_error_text e"
| "warning_text D (Aliased winner name url) =
     ''registry entries '' @ winner @ '' and '' @ name @ '' alias '' @ url @ ''; using '' @ winner"
| "warning_text D (EntryKept name e) = ''invalid registry entry '' @ name @ '': '' @ read_error_text D e @ ''; keeping last good''"
| "warning_text D (EntryDisabled name e) =
     ''invalid registry entry '' @ name @ '': '' @ read_error_text D e @ ''; database disabled''"

fun mirror_error_text :: "displays \<Rightarrow> mirror_error \<Rightarrow> string" where
  "mirror_error_text D (MUrl e) = url_error_text e"
| "mirror_error_text D (MStore e) = ''object store error: '' @ dp_store D e"
| "mirror_error_text D (MSlateDb e) = dp_slate D e"
| "mirror_error_text D (NotADatabase url) = url @ '' is not a SlateDB database (no manifest)''"
| "mirror_error_text D (ExcludedSource url reason) = url @ '' cannot be a mirror source: '' @ reason"
| "mirror_error_text D (Diverged destination dest_id source_id) =
     ''destination '' @ destination @ '' has diverged: its manifest '' @ show_nat dest_id @ '' is ahead of the source's ''
       @ show_nat source_id @ ''; it is not a mirror of this source''"
| "mirror_error_text D (Stalled target reason) =
     ''mirror pass for target '' @ target @ '' kept restarting: '' @ reason"
| "mirror_error_text D (RcloneError e) = ''rclone: '' @ e"
| "mirror_error_text D (DestinationNotEmpty url) =
     ''destination '' @ url @ '' is not empty; restore never deletes, pick a fresh root''"
| "mirror_error_text D (NoRestorePoint at_arg reason) = ''no restore point for --at '' @ at_arg @ '': '' @ reason"

fun service_error_text :: "displays \<Rightarrow> service_error \<Rightarrow> string" where
  "service_error_text D (SUrl e) = url_error_text e"
| "service_error_text D (SStore e) = ''failed to open database store: '' @ dp_store D e"
| "service_error_text D (SSlateDb e) = dp_slate D e"
| "service_error_text D (SMirror e) = mirror_error_text D e"

end
