(* ===== verification/Response.thy ===== *)
theory Response
  imports Config_Resolve
begin

text \<open>
  \<^verbatim>\<open>src/response.rs\<close>: the responses of the one-shot subcommands, one record per struct. Their JSON
  form is serde's.
\<close>

record queue_status_response =
  qs_claimable :: nat
  qs_running :: nat

record service_placement =
  sp_service :: service
  sp_nodes :: "string list"

record database_status =
  ds_url :: string
  ds_services :: "service_placement list"
  ds_queue :: "queue_status_response option"

record node_status =
  ns_node_id :: string
  ns_live :: bool
  ns_heartbeat_age :: duration
  ns_services :: "service list"
  ns_sleet_version :: "string option"
  ns_slatedb_version :: "string option"

record mirror_status_response =
  ms_database :: string
  ms_target :: string
  ms_destination :: string
  ms_source_manifest_id :: "nat option"
  ms_dest_manifest_id :: "nat option"
  ms_manifests_behind :: "nat option"
  ms_wal_behind :: "nat option"
  ms_seconds_behind :: "nat option"
  ms_error :: "string option"

record status_response =
  sr_nodes :: "node_status list"
  sr_databases :: "database_status list"
  sr_mirrors :: "mirror_status_response list"
  sr_warnings :: "string list"

record register_response =
  rr_url :: string
  rr_file :: string
  rr_created :: bool

record mirror_sync_response =
  sy_database :: string
  sy_target :: string
  sy_destination :: string
  sy_head :: nat
  sy_committed :: bool
  sy_manifests_committed :: nat
  sy_objects_copied :: nat
  sy_bytes_copied :: nat
  sy_pruned_manifests :: nat
  sy_pruned_objects :: nat

record mirror_restore_response =
  rp_backup :: string
  rp_destination :: string
  rp_manifest_id :: nat
  rp_manifests_committed :: nat
  rp_objects_copied :: nat
  rp_bytes_copied :: nat

datatype response =
    StatusOf status_response
  | RegisterOf register_response
  | MirrorSyncOf mirror_sync_response
  | MirrorRestoreOf mirror_restore_response

end
