(* ===== verification/Mirror_Pass.thy ===== *)
theory Mirror_Pass
  imports Mirror_Copier
begin

text \<open>
  \<^verbatim>\<open>src/mirror/pass.rs\<close> and the closure enumeration of \<^verbatim>\<open>src/mirror/layout.rs\<close>: the
  sync pass, its pin and its commit, and the write-ahead-log tail. Definitions only; what the pass
  keeps and achieves is proved in \<open>Mirror_Safety\<close>.
\<close>

subsection \<open>Closures\<close>

definition cache_read :: "mirror_env \<Rightarrow> db_handle \<Rightarrow> nat \<Rightarrow> (mirror_error, vmanifest option) act" where
  "cache_read V db i w =
     (case w_cache w i of
        Some m \<Rightarrow> (Inr (Some m), w)
      | None \<Rightarrow>
          bnd (admin_read_manifest V db (Some i)) (\<lambda>r w.
            case r of
              Some m \<Rightarrow> (Inr (Some m), w\<lparr>w_cache := (w_cache w)(i \<mapsto> m)\<rparr>)
            | None \<Rightarrow> (Inr None, w)) w)"

definition cache_reset :: "('e, unit) act" where
  "cache_reset w = (Inr (), w\<lparr>w_cache := Map.empty\<rparr>)"

record closure =
  cl_head :: nat
  cl_manifests :: "(nat, manifest_objects) btree"

definition closure_objects :: "closure \<Rightarrow> manifest_objects" where
  "closure_objects c = fold (\<lambda>e all. mo_extend all (snd e)) (cl_manifests c) no_objects"

fun closure_members ::
  "mirror_env \<Rightarrow> db_handle \<Rightarrow> nat \<Rightarrow> datetime \<Rightarrow> checkpoint list \<Rightarrow> (nat, manifest_objects) btree
     \<Rightarrow> (mirror_error, (nat, manifest_objects) btree option) act" where
  "closure_members V db head_id now [] ms = ret (Some ms)"
| "closure_members V db head_id now (cp # cps) ms =
     (if \<not> checkpoint_live cp now \<or> cp_manifest_id cp = head_id then closure_members V db head_id now cps ms
      else bnd (cache_read V db (cp_manifest_id cp)) (\<lambda>r.
        case r of
          Some pinned \<Rightarrow> closure_members V db head_id now cps (bt_insert (cp_manifest_id cp) (objects_of pinned) ms)
        | None \<Rightarrow> ret None))"

definition closure_of :: "mirror_env \<Rightarrow> db_handle \<Rightarrow> vmanifest \<Rightarrow> datetime \<Rightarrow> (mirror_error, closure option) act" where
  "closure_of V db head now =
     bnd (closure_members V db (vm_id head) now (vm_checkpoints head) (bt_insert (vm_id head) (objects_of head) [])) (\<lambda>r.
     case r of
       Some ms \<Rightarrow> ret (Some \<lparr>cl_head = vm_id head, cl_manifests = ms\<rparr>)
     | None \<Rightarrow> ret None)"

subsection \<open>The diff\<close>

datatype pass_error = Restart string | Fatal mirror_error

record pass_outcome =
  pc_head :: nat
  pc_next_wal_sst_id :: nat
  pc_committed :: bool
  pc_manifests_committed :: nat
  pc_copied :: copied

definition pin_name :: "string \<Rightarrow> string" where
  "pin_name target_name = ''sleet-mirror:'' @ target_name"

record diff =
  df_closure :: closure
  df_candidates :: manifest_objects
  df_present :: "nat set"

definition live_in_head :: "vmanifest \<Rightarrow> datetime \<Rightarrow> nat set" where
  "live_in_head head now = set (map cp_id (filter (\<lambda>cp. checkpoint_live cp now) (vm_checkpoints head)))"

definition prove_checkpoint ::
  "nat set \<Rightarrow> datetime \<Rightarrow> closure \<Rightarrow> checkpoint \<Rightarrow> manifest_objects \<times> nat set \<Rightarrow> manifest_objects \<times> nat set" where
  "prove_checkpoint live now closure cp acc =
     (if \<not> checkpoint_live cp now \<or> cp_id cp \<notin> live then acc
      else case bt_get (cl_manifests closure) (cp_manifest_id cp) of
             Some objects \<Rightarrow> (mo_extend (fst acc) objects, insert (cp_manifest_id cp) (snd acc))
           | None \<Rightarrow> acc)"

definition proven_present ::
  "vmanifest \<Rightarrow> vmanifest option \<Rightarrow> datetime \<Rightarrow> closure \<Rightarrow> manifest_objects \<times> nat set" where
  "proven_present head watermark now closure =
     (case watermark of
        None \<Rightarrow> (no_objects, {})
      | Some w \<Rightarrow>
          fold (prove_checkpoint (live_in_head head now) now closure) (vm_checkpoints w)
            (mo_extend no_objects (objects_of w), {vm_id w}))"

definition diff_against_watermark ::
  "mirror_env \<Rightarrow> db_handle \<Rightarrow> vmanifest \<Rightarrow> vmanifest option \<Rightarrow> (pass_error, diff) act" where
  "diff_against_watermark V source head watermark =
     bnd get_now (\<lambda>now.
     bnd (map_err Fatal (closure_of V source head now)) (\<lambda>r.
     case r of
       None \<Rightarrow> fail (Restart ''a live checkpoint's pinned manifest vanished mid-diff'')
     | Some closure \<Rightarrow>
         (let (proven, present) = proven_present head watermark now closure in
          ret \<lparr>df_closure = closure, df_candidates = mo_difference (closure_objects closure) proven,
               df_present = present\<rparr>)))"

definition wal_misses :: "mirror_env \<Rightarrow> db_handle \<Rightarrow> nat set \<Rightarrow> (mirror_error, nat list) act" where
  "wal_misses V dest wal =
     bnd (head_misses V dest (sorted_list_of_set wal) wal_rel) (\<lambda>misses. ret (sort misses))"

definition plan_work :: "mirror_env \<Rightarrow> copier \<Rightarrow> db_handle \<Rightarrow> diff \<Rightarrow> bool \<Rightarrow> (mirror_error, string list) act" where
  "plan_work V c dest d seeding =
     bnd (plan_compacted V c (sorted_list_of_set (mo_compacted (df_candidates d))) seeding) (\<lambda>ulids.
     bnd (wal_misses V dest (mo_wal (df_candidates d))) (\<lambda>wals.
     ret (map compacted_rel ulids @ map wal_rel wals)))"

subsection \<open>The pin\<close>

record pin =
  pin_id :: nat
  pin_manifest_id :: nat
  pin_lifetime :: duration
  pin_refresh_due :: nat
  pin_deadline :: nat

definition pin_create :: "mirror_env \<Rightarrow> string \<Rightarrow> duration \<Rightarrow> (mirror_error, pin) act" where
  "pin_create V target_name lifetime =
     bnd (admin_checkpoint V (me_create_checkpoint V \<lparr>co_lifetime = Some lifetime, co_name = Some (pin_name target_name)\<rparr>))
       (\<lambda>(pid, mid).
     bnd get_instant (\<lambda>now.
     ret \<lparr>pin_id = pid, pin_manifest_id = mid, pin_lifetime = lifetime,
          pin_refresh_due = now + lifetime div 2, pin_deadline = now + lifetime\<rparr>))"

definition refresh_failed :: "mirror_error \<Rightarrow> string" where
  "refresh_failed e = ''pin refresh failed: '' @ (case e of MSlateDb s \<Rightarrow> sle_message s | _ \<Rightarrow> [])"

definition pin_refresh :: "mirror_env \<Rightarrow> pin \<Rightarrow> (pass_error, pin) act" where
  "pin_refresh V p =
     bnd (map_err (\<lambda>e. Restart (refresh_failed e))
       (admin_checkpoint V (me_refresh_checkpoint V (pin_id p) (Some (pin_lifetime p))))) (\<lambda>_.
     bnd get_instant (\<lambda>now.
     ret (p\<lparr>pin_refresh_due := now + pin_lifetime p div 2, pin_deadline := now + pin_lifetime p\<rparr>)))"

definition pin_lapsed :: "pin \<Rightarrow> ('e, bool) act" where
  "pin_lapsed p = bnd get_instant (\<lambda>now. ret (pin_deadline p \<le> now))"

definition pin_delete :: "mirror_env \<Rightarrow> pin \<Rightarrow> ('e, unit) act" where
  "pin_delete V p = bnd (attempt (admin_checkpoint V (me_delete_checkpoint V (pin_id p)))) (\<lambda>_. ret ())"

definition refresh_when_due :: "mirror_env \<Rightarrow> pin \<Rightarrow> (pass_error, pin) act" where
  "refresh_when_due V p = bnd get_instant (\<lambda>now. if pin_refresh_due p \<le> now then pin_refresh V p else ret p)"

definition mid_copy_error :: "string \<Rightarrow> mirror_error \<Rightarrow> pass_error" where
  "mid_copy_error path e = (if e = MStore NotFound then Restart (path @ '' vanished mid-copy'') else Fatal e)"

definition copy_under_pin :: "mirror_env \<Rightarrow> copier \<Rightarrow> string list \<Rightarrow> pin \<Rightarrow> (pass_error, copied \<times> pin) act" where
  "copy_under_pin V c work p = copier_copy V c (refresh_when_due V) mid_copy_error p work"

subsection \<open>The commit\<close>

definition commit_one :: "mirror_env \<Rightarrow> db_handle \<Rightarrow> db_handle \<Rightarrow> nat \<Rightarrow> nat \<Rightarrow> (pass_error, bool) act" where
  "commit_one V source dest head_id i =
     bnd (attempt (store_get V source (manifest_rel i))) (\<lambda>r.
     case r of
       Inl NotFound \<Rightarrow> fail (Restart (''source manifest '' @ show_nat i @ '' vanished before commit''))
     | Inl e \<Rightarrow> fail (Fatal (MStore e))
     | Inr get \<Rightarrow>
         bnd (map_err (\<lambda>e. Fatal (MStore e)) (store_bytes V get)) (\<lambda>bytes.
         bnd (attempt (store_create V dest (manifest_rel i) bytes)) (\<lambda>r.
         case r of
           Inr _ \<Rightarrow> ret True
         | Inl AlreadyExists \<Rightarrow>
             bnd (map_err (\<lambda>e. Fatal (MStore e)) (store_get V dest (manifest_rel i))) (\<lambda>get.
             bnd (map_err (\<lambda>e. Fatal (MStore e)) (store_bytes V get)) (\<lambda>existing.
             if existing \<noteq> bytes then fail (Fatal (Diverged (db_url dest) i head_id)) else ret False))
         | Inl e \<Rightarrow> fail (Fatal (MStore e)))))"

fun commit_each ::
  "mirror_env \<Rightarrow> db_handle \<Rightarrow> db_handle \<Rightarrow> nat set \<Rightarrow> nat \<Rightarrow> nat list \<Rightarrow> nat \<Rightarrow> (pass_error, nat) act" where
  "commit_each V source dest present head_id [] committed = ret committed"
| "commit_each V source dest present head_id (i # ids) committed =
     (if i \<in> present then commit_each V source dest present head_id ids committed
      else bnd (commit_one V source dest head_id i) (\<lambda>created.
           commit_each V source dest present head_id ids (if created then committed + 1 else committed)))"

definition commit :: "mirror_env \<Rightarrow> db_handle \<Rightarrow> db_handle \<Rightarrow> diff \<Rightarrow> vmanifest \<Rightarrow> copied \<Rightarrow> (pass_error, pass_outcome) act" where
  "commit V source dest d head copied =
     bnd (commit_each V source dest (df_present d) (vm_id head) (map fst (cl_manifests (df_closure d))) 0) (\<lambda>committed.
     ret \<lparr>pc_head = vm_id head, pc_next_wal_sst_id = vm_next_wal_sst_id head, pc_committed = True,
          pc_manifests_committed = committed, pc_copied = copied\<rparr>)"

subsection \<open>The pass\<close>

definition read_head :: "mirror_env \<Rightarrow> db_handle \<Rightarrow> (mirror_error, vmanifest) act" where
  "read_head V source =
     bnd (admin_read_manifest V source None) (\<lambda>r.
     case r of None \<Rightarrow> fail (NotADatabase (db_url source)) | Some head \<Rightarrow> ret head)"

definition lift_result :: "mirror_error + 'a \<Rightarrow> (mirror_error, 'a) act" where
  "lift_result r = (case r of Inl e \<Rightarrow> fail e | Inr a \<Rightarrow> ret a)"

definition copy_and_commit ::
  "mirror_env \<Rightarrow> db_handle \<Rightarrow> db_handle \<Rightarrow> copier \<Rightarrow> diff \<Rightarrow> vmanifest \<Rightarrow> string list \<Rightarrow> pin
     \<Rightarrow> (pass_error, pass_outcome) act" where
  "copy_and_commit V source dest c d head work p =
     bnd (copy_under_pin V c work p) (\<lambda>(copied, p).
     bnd (pin_lapsed p) (\<lambda>lapsed.
     if lapsed then fail (Restart ''pin lapsed before commit'')
     else commit V source dest d head copied))"

definition unpin_after :: "mirror_env \<Rightarrow> pin \<Rightarrow> ('e, 'a) act \<Rightarrow> ('e, 'a) act" where
  "unpin_after V p m =
     bnd (attempt m) (\<lambda>result.
     bnd (pin_delete V p) (\<lambda>_. case result of Inl e \<Rightarrow> fail e | Inr outcome \<Rightarrow> ret outcome))"

definition pinned_pass ::
  "mirror_env \<Rightarrow> db_handle \<Rightarrow> db_handle \<Rightarrow> string \<Rightarrow> resolved_mirror_target \<Rightarrow> copier \<Rightarrow> vmanifest option
     \<Rightarrow> (pass_error, pass_outcome) act" where
  "pinned_pass V source dest target_name settings c watermark =
     bnd (map_err Fatal (pin_create V target_name (rt_checkpoint_lifetime settings))) (\<lambda>p.
     bnd (map_err Fatal (cache_read V source (pin_manifest_id p))) (\<lambda>r.
     case r of
       None \<Rightarrow> bnd (pin_delete V p) (\<lambda>_. fail (Restart ''the pin's own manifest already vanished''))
     | Some head \<Rightarrow>
         bnd (diff_against_watermark V source head watermark) (\<lambda>d.
         bnd (map_err Fatal (plan_work V c dest d (watermark = None))) (\<lambda>work.
         unpin_after V p (copy_and_commit V source dest c d head work p)))))"

definition advance_target ::
  "mirror_env \<Rightarrow> db_handle \<Rightarrow> db_handle \<Rightarrow> string \<Rightarrow> resolved_mirror_target \<Rightarrow> copier \<Rightarrow> vmanifest option \<Rightarrow> vmanifest
     \<Rightarrow> (pass_error, pass_outcome) act" where
  "advance_target V source dest target_name settings c watermark head =
     (if (case watermark of Some w \<Rightarrow> vm_id head < vm_id w | None \<Rightarrow> False)
      then fail (Fatal (Diverged (db_url dest) (vm_id (the watermark)) (vm_id head)))
      else if (case watermark of Some w \<Rightarrow> vm_id w = vm_id head | None \<Rightarrow> False)
      then ret \<lparr>pc_head = vm_id head, pc_next_wal_sst_id = vm_next_wal_sst_id head, pc_committed = False,
                pc_manifests_committed = 0, pc_copied = nothing_copied\<rparr>
      else
        bnd (diff_against_watermark V source head watermark) (\<lambda>d.
        bnd (map_err Fatal (plan_work V c dest d (watermark = None))) (\<lambda>work.
        if work = [] then commit V source dest d head nothing_copied
        else pinned_pass V source dest target_name settings c watermark)))"

definition pass_once ::
  "mirror_env \<Rightarrow> db_handle \<Rightarrow> db_handle \<Rightarrow> string \<Rightarrow> resolved_mirror_target \<Rightarrow> copier \<Rightarrow> (pass_error, pass_outcome) act" where
  "pass_once V source dest target_name settings c =
     bnd (map_err Fatal (admin_read_manifest V dest None)) (\<lambda>watermark.
     bnd (map_err Fatal (read_head V source)) (\<lambda>head.
     bnd (map_err Fatal (lift_result (check_source (db_url source) head))) (\<lambda>_.
     advance_target V source dest target_name settings c watermark head)))"

definition MAX_RESTARTS :: nat where
  "MAX_RESTARTS = 5"

fun sync_attempts ::
  "nat \<Rightarrow> string \<Rightarrow> mirror_env \<Rightarrow> db_handle \<Rightarrow> db_handle \<Rightarrow> string \<Rightarrow> resolved_mirror_target \<Rightarrow> copier
     \<Rightarrow> (mirror_error, pass_outcome) act" where
  "sync_attempts 0 last_reason V source dest target_name settings c = fail (Stalled target_name last_reason)"
| "sync_attempts (Suc n) last_reason V source dest target_name settings c =
     bnd (attempt (pass_once V source dest target_name settings c)) (\<lambda>r.
     case r of
       Inr outcome \<Rightarrow> ret outcome
     | Inl (Restart reason) \<Rightarrow> sync_attempts n reason V source dest target_name settings c
     | Inl (Fatal e) \<Rightarrow> fail e)"

definition sync_pass ::
  "mirror_env \<Rightarrow> db_handle \<Rightarrow> db_handle \<Rightarrow> string \<Rightarrow> resolved_mirror_target \<Rightarrow> string option
     \<Rightarrow> (mirror_error, pass_outcome) act" where
  "sync_pass V source dest target_name settings rclone =
     bnd cache_reset (\<lambda>_.
     sync_attempts MAX_RESTARTS [] V source dest target_name settings (copier_new settings rclone source dest))"

subsection \<open>The write-ahead-log tail\<close>

definition tail_start :: "mirror_env \<Rightarrow> db_handle \<Rightarrow> nat \<Rightarrow> (mirror_error, nat) act" where
  "tail_start V dest floor =
     bnd (list_wals V dest) (\<lambda>wals.
     ret (case last_opt wals of None \<Rightarrow> floor | Some (m, _) \<Rightarrow> max (u64_add m 1) floor))"

definition advance_floor :: "nat \<Rightarrow> nat \<Rightarrow> nat" where
  "advance_floor tail_next floor = max tail_next floor"

fun tail_step :: "nat \<Rightarrow> mirror_env \<Rightarrow> db_handle \<Rightarrow> db_handle \<Rightarrow> nat \<Rightarrow> nat \<Rightarrow> (mirror_error, (nat \<times> nat) option) act" where
  "tail_step 0 V source dest tail_next copied = ret None"
| "tail_step (Suc fuel) V source dest tail_next copied =
     bnd (attempt (store_get V source (wal_rel tail_next))) (\<lambda>r.
     case r of
       Inl NotFound \<Rightarrow> ret (Some (copied, tail_next))
     | Inl e \<Rightarrow> fail (MStore e)
     | Inr get \<Rightarrow>
         bnd (map_err MStore (store_bytes V get)) (\<lambda>bytes.
         bnd (map_err MStore (store_put V dest (wal_rel tail_next) bytes)) (\<lambda>_.
         tail_step fuel V source dest (u64_add tail_next 1) (copied + 1))))"

subsection \<open>The rule for cached reads\<close>

definition cached :: "nat \<Rightarrow> vmanifest option \<Rightarrow> world \<Rightarrow> world" where
  "cached i r w = (case r of Some m \<Rightarrow> w\<lparr>w_cache := (w_cache w)(i \<mapsto> m)\<rparr> | None \<Rightarrow> w)"

context env_logic
begin

lemma cache_read:
  assumes P: "stable I R P"
    and hit: "\<And>w m. I w \<Longrightarrow> P w \<Longrightarrow> w_cache w i = Some m \<Longrightarrow> Q (Some m) w"
    and miss: "\<And>w r. I w \<Longrightarrow> P w \<Longrightarrow> me_read_manifest V w (db_side db) (Some i) = Inr r \<Longrightarrow>
      I (cached i r w) \<and> R w (cached i r w) \<and> Q r (cached i r w)"
  shows "triple I R P (cache_read V db i) Q"
proof (rule tripleI)
  fix w r w' assume w: "I w" "P w" "cache_read V db i w = (r, w')"
  show "I w' \<and> R w w' \<and> (\<forall>a. r = Inr a \<longrightarrow> Q a w')"
  proof (cases "w_cache w i")
    case None
    let ?f = "\<lambda>r w. case r of Some m \<Rightarrow> (Inr (Some m), w\<lparr>w_cache := (w_cache w)(i \<mapsto> m)\<rparr>) | None \<Rightarrow> (Inr None, w)"
    let ?S = "\<lambda>r w. P w \<and> I w \<and> me_read_manifest V w (db_side db) (Some i) = Inr r"
    have 1: "triple I R P (admin_read_manifest V db (Some i)) ?S" by (rule admin_read_manifest [OF P]) simp
    have 2: "triple I R (?S x) (?f x) Q" for x
    proof (rule tripleI)
      fix u r' u' assume u: "I u" "?S x u" "?f x u = (r', u')"
      then have "u' = cached i x u" "r' = Inr x" by (auto simp: cached_def split: option.splits)
      then show "I u' \<and> R u u' \<and> (\<forall>a. r' = Inr a \<longrightarrow> Q a u')" using miss [of u x] u by simp
    qed
    have "bnd (admin_read_manifest V db (Some i)) ?f w = (r, w')" using w(3) None by (simp add: cache_read_def)
    then show ?thesis by (rule tripleD [OF bnd [OF 1 2] w(1,2)])
  next
    case (Some m)
    then show ?thesis using w hit by (auto simp: cache_read_def R_refl)
  qed
qed

end

end
