(* ===== verification/Mirror_Invariant.thy ===== *)
theory Mirror_Invariant
  imports Mirror_Pass
begin

text \<open>
  \<open>mirror_inv\<close> is the promise of a mirror target: every object at the target is the source's, every manifest at the target has all the data objects it
  references, and the manifests the newest one's checkpoints pin are there as long as the source
  may still refer to them. The pass is run in an arbitrary environment that satisfies
  \<open>env_ok\<close>: writers, garbage collection and other mirror tasks act between any two requests,
  requests fail at any point, and SlateDB and rclone do what they document. A crash is a run
  whose requests all fail from some point on.
\<close>

subsection \<open>The source's history\<close>

definition manifest_ids :: "world \<Rightarrow> side \<Rightarrow> nat set" where
  "manifest_ids w d = {i. has w d (manifest_rel i)}"

definition is_ulid :: "string \<Rightarrow> bool" where
  "is_ulid u \<longleftrightarrow> length u = 26 \<and> list_all is_ascii_alphanumeric u"

definition data_names :: "string set" where
  "data_names = range wal_rel \<union> range compacted_rel"

definition layout_names :: "string set" where
  "layout_names = range manifest_rel \<union> data_names"

definition history_ok :: "(nat \<Rightarrow> vmanifest) \<Rightarrow> bool" where
  "history_ok hist \<longleftrightarrow>
     (\<forall>i. vm_id (hist i) = i)
     \<and> (\<forall>i. \<forall>cp \<in> set (vm_checkpoints (hist i)). cp_manifest_id cp \<le> i)
     \<and> (\<forall>i j k cp cp'. i \<le> j \<and> j \<le> k \<and> cp \<in> set (vm_checkpoints (hist i)) \<and> cp' \<in> set (vm_checkpoints (hist k))
          \<and> cp_id cp' = cp_id cp \<longrightarrow>
          (\<exists>c \<in> set (vm_checkpoints (hist j)). cp_id c = cp_id cp \<and> cp_manifest_id c = cp_manifest_id cp
             \<and> (\<forall>t. checkpoint_live cp t \<longrightarrow> checkpoint_live c t)))"

subsection \<open>The invariant of a target\<close>

definition faithful :: "(string \<Rightarrow> string) \<Rightarrow> world \<Rightarrow> side \<Rightarrow> bool" where
  "faithful body w d \<longleftrightarrow> (\<forall>n \<in> layout_names. \<forall>x. held w d n = Some x \<longrightarrow> so_bytes x = body n)"

definition typed_name :: "string \<Rightarrow> bool" where
  "typed_name n \<longleftrightarrow>
     (\<forall>i. n = manifest_rel i \<or> n = wal_rel i \<longrightarrow> i < 2 ^ 64) \<and> (\<forall>u. n = compacted_rel u \<longrightarrow> is_ulid u)"

definition typed :: "world \<Rightarrow> side \<Rightarrow> bool" where
  "typed w d \<longleftrightarrow> distinct (map fst (w_objects w d)) \<and> (\<forall>n. has w d n \<longrightarrow> typed_name n)"

definition complete :: "(nat \<Rightarrow> vmanifest) \<Rightarrow> world \<Rightarrow> bool" where
  "complete hist w \<longleftrightarrow> (\<forall>i \<in> manifest_ids w AtDest. \<forall>n \<in> names_of (objects_of (hist i)). has w AtDest n)"

definition supported :: "(nat \<Rightarrow> vmanifest) \<Rightarrow> datetime \<Rightarrow> nat \<Rightarrow> nat \<Rightarrow> world \<Rightarrow> bool" where
  "supported hist T K i w \<longleftrightarrow>
     (\<forall>cp \<in> set (vm_checkpoints (hist i)). \<forall>t \<ge> T. \<forall>k \<ge> K. \<forall>cp' \<in> set (vm_checkpoints (hist k)).
        checkpoint_live cp t \<and> checkpoint_live cp' t \<and> cp_id cp' = cp_id cp
        \<longrightarrow> cp_manifest_id cp \<in> manifest_ids w AtDest)"

definition newest :: "world \<Rightarrow> side \<Rightarrow> nat \<Rightarrow> bool" where
  "newest w d i \<longleftrightarrow> i \<in> manifest_ids w d \<and> (\<forall>j \<in> manifest_ids w d. j \<le> i)"

definition at_most :: "world \<Rightarrow> nat \<Rightarrow> bool" where
  "at_most w K \<longleftrightarrow> (\<forall>j \<in> manifest_ids w AtSource. j \<le> K)"

definition mirror_inv :: "(nat \<Rightarrow> vmanifest) \<Rightarrow> (string \<Rightarrow> string) \<Rightarrow> world \<Rightarrow> bool" where
  "mirror_inv hist body w \<longleftrightarrow>
     faithful body w AtSource \<and> faithful body w AtDest \<and> typed w AtSource \<and> typed w AtDest
     \<and> (\<forall>n. has w AtDest n \<longrightarrow> n \<in> layout_names)
     \<and> complete hist w
     \<and> (\<forall>i K. newest w AtDest i \<and> at_most w K \<longrightarrow> supported hist (w_now w) K i w)"

definition evolves :: "world \<Rightarrow> world \<Rightarrow> bool" where
  "evolves w w' \<longleftrightarrow>
     w_now w \<le> w_now w' \<and> (\<forall>n. has w AtDest n \<longrightarrow> has w' AtDest n)
     \<and> (\<forall>K. at_most w' K \<longrightarrow> at_most w K)"

definition restorable :: "(nat \<Rightarrow> vmanifest) \<Rightarrow> world \<Rightarrow> nat \<Rightarrow> bool" where
  "restorable hist w i \<longleftrightarrow>
     i \<in> manifest_ids w AtDest \<and> (\<forall>n \<in> names_of (objects_of (hist i)). has w AtDest n)
     \<and> (\<forall>cp \<in> set (vm_checkpoints (hist i)). checkpoint_live cp (w_now w) \<longrightarrow>
          cp_manifest_id cp \<in> manifest_ids w AtDest
          \<and> (\<forall>n \<in> names_of (objects_of (hist (cp_manifest_id cp))). has w AtDest n))"

subsection \<open>The environment\<close>

definition manifest_reads :: "(nat \<Rightarrow> vmanifest) \<Rightarrow> (string \<Rightarrow> string) \<Rightarrow> mirror_env \<Rightarrow> bool" where
  "manifest_reads hist body V \<longleftrightarrow>
     (\<forall>w d. faithful body w d \<and> typed w d \<longrightarrow>
        (\<forall>i m. me_read_manifest V w d (Some i) = Inr (Some m) \<longrightarrow> i \<in> manifest_ids w d \<and> m = hist i)
        \<and> (\<forall>i. me_read_manifest V w d (Some i) = Inr None \<longrightarrow> i \<notin> manifest_ids w d)
        \<and> (\<forall>m. me_read_manifest V w d None = Inr (Some m) \<longrightarrow> (\<exists>i. newest w d i \<and> m = hist i))
        \<and> (me_read_manifest V w d None = Inr None \<longrightarrow> manifest_ids w d = {}))"

definition source_change :: "(string \<Rightarrow> string) \<Rightarrow> world \<Rightarrow> world \<Rightarrow> bool" where
  "source_change body w w' \<longleftrightarrow>
     w_objects w' AtDest = w_objects w AtDest \<and> w_now w \<le> w_now w' \<and> (\<forall>K. at_most w' K \<longrightarrow> at_most w K)
     \<and> (faithful body w AtSource \<longrightarrow> faithful body w' AtSource) \<and> (typed w AtSource \<longrightarrow> typed w' AtSource)"

definition data_copy :: "(string \<Rightarrow> string) \<Rightarrow> string list \<Rightarrow> world \<Rightarrow> world \<Rightarrow> bool" where
  "data_copy body names w w' \<longleftrightarrow>
     w_objects w' AtSource = w_objects w AtSource \<and> w_now w \<le> w_now w'
     \<and> (typed w AtDest \<longrightarrow> distinct (map fst (w_objects w' AtDest)))
     \<and> (\<forall>n. held w' AtDest n = held w AtDest n
          \<or> n \<in> set names \<and> has w AtSource n \<and> (\<exists>x. held w' AtDest n = Some x \<and> so_bytes x = body n))"

definition checkpoint_calls :: "(string \<Rightarrow> string) \<Rightarrow> mirror_env \<Rightarrow> bool" where
  "checkpoint_calls body V \<longleftrightarrow>
     (\<forall>opts w r w'. typed w AtSource \<and> me_create_checkpoint V opts w = (r, w') \<longrightarrow> source_change body w w'
        \<and> (\<forall>pid mid. r = Inr (pid, mid) \<longrightarrow> at_most w mid \<and> mid \<in> manifest_ids w' AtSource))
     \<and> (\<forall>c l w r w'. me_refresh_checkpoint V c l w = (r, w') \<longrightarrow> source_change body w w')
     \<and> (\<forall>c w r w'. me_delete_checkpoint V c w = (r, w') \<longrightarrow> source_change body w w')"

definition rclone_documented :: "(string \<Rightarrow> string) \<Rightarrow> mirror_env \<Rightarrow> bool" where
  "rclone_documented body V \<longleftrightarrow>
     (\<forall>bin source dest names w r w'. me_rclone V bin source dest names w = (r, w') \<longrightarrow>
        data_copy body names w w'
        \<and> (\<forall>out. r = Inr out \<and> po_success out \<longrightarrow> (\<forall>n \<in> set names. has w' AtDest n)))"

definition streams_ok :: "mirror_env \<Rightarrow> bool" where
  "streams_ok V \<longleftrightarrow> (\<forall>n. mset (me_order V n) = mset [0..<n]) \<and> (\<forall>b. concat (me_chunks V b) = b)"

definition env_ok :: "(nat \<Rightarrow> vmanifest) \<Rightarrow> (string \<Rightarrow> string) \<Rightarrow> mirror_env \<Rightarrow> bool" where
  "env_ok hist body V \<longleftrightarrow>
     history_ok hist \<and> manifest_reads hist body V \<and> checkpoint_calls body V \<and> rclone_documented body V
     \<and> streams_ok V
     \<and> (\<forall>n w. mirror_inv hist body w \<longrightarrow> mirror_inv hist body (me_step V n w) \<and> evolves w (me_step V n w))"

definition cache_ok :: "(nat \<Rightarrow> vmanifest) \<Rightarrow> world \<Rightarrow> bool" where
  "cache_ok hist w \<longleftrightarrow> (\<forall>i m. w_cache w i = Some m \<longrightarrow> m = hist i)"

definition task_inv :: "(nat \<Rightarrow> vmanifest) \<Rightarrow> (string \<Rightarrow> string) \<Rightarrow> mirror_env \<Rightarrow> world \<Rightarrow> bool" where
  "task_inv hist body V w \<longleftrightarrow> env_ok hist body V \<and> mirror_inv hist body w \<and> cache_ok hist w"

subsection \<open>Changes of the world\<close>

lemma manifest_ids_cong: "(\<And>n. has w' d n = has w d n) \<Longrightarrow> manifest_ids w' d = manifest_ids w d"
  by (simp add: manifest_ids_def)

lemma mirror_inv_cong:
  assumes "w_objects w' = w_objects w" and "w_now w' = w_now w"
  shows "mirror_inv hist body w' = mirror_inv hist body w"
proof -
  have h: "held w' = held w" "has w' = has w" using assms by (simp_all add: fun_eq_iff held_def has_def)
  then have "manifest_ids w' = manifest_ids w" by (simp add: fun_eq_iff manifest_ids_def)
  then show ?thesis
    using assms h unfolding mirror_inv_def faithful_def typed_def complete_def supported_def newest_def at_most_def
    by simp
qed

lemma evolves_cong:
  assumes "w_objects w' = w_objects w1" and "w_now w' = w_now w1"
  shows "evolves w w' = evolves w w1"
proof -
  have h: "has w' = has w1" using assms by (simp add: fun_eq_iff held_def has_def)
  then have "manifest_ids w' = manifest_ids w1" by (simp add: fun_eq_iff manifest_ids_def)
  then show ?thesis using assms h by (simp add: evolves_def at_most_def)
qed

lemma mirror_inv_cache [simp]: "mirror_inv hist body (w\<lparr>w_cache := c\<rparr>) = mirror_inv hist body w"
  by (rule mirror_inv_cong) simp_all

lemma evolves_cache [simp]: "evolves w (w'\<lparr>w_cache := c\<rparr>) = evolves w w'"
  by (rule evolves_cong) simp_all

lemma evolves_refl: "evolves w w"
  by (simp add: evolves_def)

lemma evolves_trans: "evolves u v \<Longrightarrow> evolves v w \<Longrightarrow> evolves u w"
  unfolding evolves_def using order_trans by blast

lemma task_turn:
  assumes "task_inv hist body V w"
  shows "task_inv hist body V (env_turn V w) \<and> evolves w (env_turn V w)"
proof -
  let ?s = "me_step V (w_requests w) w"
  have "mirror_inv hist body ?s \<and> evolves w ?s" using assms by (simp add: task_inv_def env_ok_def)
  moreover have "mirror_inv hist body (env_turn V w) = mirror_inv hist body ?s"
    by (rule mirror_inv_cong) (simp_all add: env_turn_def)
  moreover have "evolves w (env_turn V w) = evolves w ?s" by (rule evolves_cong) (simp_all add: env_turn_def)
  ultimately show ?thesis using assms by (simp add: task_inv_def cache_ok_def)
qed

interpretation mp: env_logic "task_inv hist body V" evolves V for hist body V
proof unfold_locales
  show "evolves w w" for w by (rule evolves_refl)
  show "evolves u v \<Longrightarrow> evolves v w \<Longrightarrow> evolves u w" for u v w by (rule evolves_trans)
  show "task_inv hist body V w \<Longrightarrow> task_inv hist body V (env_turn V w) \<and> evolves w (env_turn V w)" for w
    by (rule task_turn)
qed

lemma stable_has: "stable (task_inv hist body V) evolves (\<lambda>w. has w AtDest n)"
  by (simp add: stable_def evolves_def)

lemma stable_dest_id: "stable (task_inv hist body V) evolves (\<lambda>w. i \<in> manifest_ids w AtDest)"
  by (simp add: stable_def evolves_def manifest_ids_def)

lemma stable_supported: "stable (task_inv hist body V) evolves (supported hist T K i)"
  unfolding stable_def supported_def evolves_def manifest_ids_def mem_Collect_eq by meson

lemma stable_after: "stable (task_inv hist body V) evolves (\<lambda>w. T \<le> w_now w)"
  unfolding stable_def evolves_def by (meson order_trans)

lemma stable_source_reached: "stable (task_inv hist body V) evolves (\<lambda>w. \<forall>K. at_most w K \<longrightarrow> L \<le> K)"
  unfolding stable_def evolves_def by blast

lemmas stable_facts = stable_has stable_dest_id stable_supported stable_after stable_source_reached
  mp.stable_conj mp.stable_const mp.stable_all mp.stable_ball mp.stable_ex
  mp.stable_imp

subsection \<open>Writes that keep the invariant\<close>

lemma supported_mono:
  assumes "supported hist T K i w" and "T \<le> T'" and "K \<le> K'"
    and "\<And>n. has w AtDest n \<Longrightarrow> has w' AtDest n"
  shows "supported hist T' K' i w'"
  using assms unfolding supported_def manifest_ids_def mem_Collect_eq by (meson order_trans)

lemma typed_put:
  assumes "typed w d" and "typed_name n"
  shows "typed (put_object d n b w) d"
proof -
  have "distinct (map fst (w_objects (put_object d n b w) d))"
    using assms(1) by (simp add: put_object_def typed_def distinct_update)
  then show ?thesis using assms by (auto simp: typed_def has_put_object)
qed

lemma manifest_rel_not_data [simp]: "manifest_rel i \<notin> data_names"
  by (auto simp: data_names_def)

lemma names_of_data: "n \<in> names_of a \<Longrightarrow> n \<in> data_names"
  by (auto simp: names_of_def data_names_def)

lemma evolves_put: "evolves w (put_object AtDest n b w)"
  by (simp add: evolves_def has_put_object at_most_def manifest_ids_def)

lemma mirror_inv_put:
  assumes inv: "mirror_inv hist body w" and n: "n \<in> layout_names" "typed_name n" and b: "b = body n"
    and comp: "\<And>i m. n = manifest_rel i \<Longrightarrow> m \<in> names_of (objects_of (hist i)) \<Longrightarrow> has w AtDest m"
    and sup: "\<And>i K. n = manifest_rel i \<Longrightarrow> \<not> has w AtDest n \<Longrightarrow> \<forall>j \<in> manifest_ids w AtDest. j < i \<Longrightarrow> at_most w K \<Longrightarrow>
      supported hist (w_now w) K i (put_object AtDest n b w)"
  shows "mirror_inv hist body (put_object AtDest n b w)"
proof -
  let ?w = "put_object AtDest n b w"
  have keep: "has w AtDest m \<Longrightarrow> has ?w AtDest m" for m by (simp add: has_put_object)
  have "faithful body ?w AtSource \<and> faithful body ?w AtDest" using inv b
    by (auto simp: mirror_inv_def faithful_def held_put_object)
  moreover have "typed ?w AtSource"
    using inv by (simp add: mirror_inv_def typed_def has_put_object) (simp add: put_object_def)
  moreover have "typed ?w AtDest" using inv n by (auto simp: mirror_inv_def intro: typed_put)
  moreover have "\<forall>m. has ?w AtDest m \<longrightarrow> m \<in> layout_names" using inv n by (auto simp: mirror_inv_def has_put_object)
  moreover have "complete hist ?w"
    unfolding complete_def
  proof (intro ballI)
    fix i m assume "i \<in> manifest_ids ?w AtDest" and m: "m \<in> names_of (objects_of (hist i))"
    then have "n = manifest_rel i \<or> i \<in> manifest_ids w AtDest" by (auto simp: manifest_ids_def has_put_object)
    moreover have "i \<in> manifest_ids w AtDest \<Longrightarrow> has w AtDest m"
      using inv m by (simp add: mirror_inv_def complete_def)
    ultimately show "has ?w AtDest m" using comp [OF _ m] keep by blast
  qed
  moreover have "supported hist (w_now ?w) K i ?w" if i: "newest ?w AtDest i" and K: "at_most ?w K" for i K
  proof -
    have K': "at_most w K" using K by (simp add: at_most_def manifest_ids_def has_put_object)
    show ?thesis
    proof (cases "has w AtDest (manifest_rel i)")
      case True
      then have "newest w AtDest i" using i by (simp add: newest_def manifest_ids_def has_put_object)
      then have "supported hist (w_now w) K i w" using inv K' unfolding mirror_inv_def by blast
      then show ?thesis by (rule supported_mono) (simp_all add: keep)
    next
      case False
      then have eq: "n = manifest_rel i" using i by (simp add: newest_def manifest_ids_def has_put_object)
      have "\<forall>j \<in> manifest_ids w AtDest. j < i"
        using i False by (auto simp: newest_def manifest_ids_def has_put_object order.strict_iff_order)
      from sup [OF eq _ this K'] False eq show ?thesis by simp
    qed
  qed
  ultimately show ?thesis unfolding mirror_inv_def by blast
qed

lemma task_put_data:
  assumes "task_inv hist body V w" and "n \<in> data_names" and "typed_name n" and "b = body n"
  shows "task_inv hist body V (put_object AtDest n b w)"
proof -
  have "mirror_inv hist body (put_object AtDest n b w)"
    using assms by (intro mirror_inv_put) (auto simp: task_inv_def layout_names_def)
  then show ?thesis using assms by (simp add: task_inv_def cache_ok_def)
qed

lemma source_change_inv:
  assumes "mirror_inv hist body w" and "source_change body w w'"
  shows "mirror_inv hist body w' \<and> evolves w w'"
proof -
  have h: "held w' AtDest n = held w AtDest n" for n using assms(2) by (simp add: source_change_def held_def)
  then have d: "has w' AtDest = has w AtDest" by (simp add: has_def fun_eq_iff)
  have ids: "manifest_ids w' AtDest = manifest_ids w AtDest" by (simp add: manifest_ids_def d)
  have ev: "evolves w w'" using assms(2) by (simp add: evolves_def d source_change_def)
  have "supported hist (w_now w') K i w'" if "newest w' AtDest i" "at_most w' K" for i K
  proof -
    have "supported hist (w_now w) K i w"
      using that assms unfolding mirror_inv_def source_change_def newest_def ids by blast
    then show ?thesis by (rule supported_mono) (use ev in \<open>auto simp: evolves_def\<close>)
  qed
  moreover have "complete hist w' = complete hist w" by (simp add: complete_def ids d)
  moreover have "faithful body w' AtDest = faithful body w AtDest" by (simp add: faithful_def h)
  moreover have "typed w' AtDest = typed w AtDest"
    by (simp add: typed_def d assms(2) [unfolded source_change_def, THEN conjunct1])
  moreover have "faithful body w' AtSource" "typed w' AtSource"
    using assms unfolding mirror_inv_def source_change_def by blast+
  moreover have "\<forall>n. has w' AtDest n \<longrightarrow> n \<in> layout_names" using assms(1) unfolding mirror_inv_def d by blast
  moreover have "complete hist w" "faithful body w AtDest" "typed w AtDest"
    using assms(1) unfolding mirror_inv_def by blast+
  ultimately show ?thesis using ev unfolding mirror_inv_def by blast
qed

lemma data_copy_inv:
  assumes "mirror_inv hist body w" and "data_copy body names w w'" and "set names \<subseteq> data_names"
  shows "mirror_inv hist body w' \<and> evolves w w'"
proof -
  have dest: "held w' AtDest n = held w AtDest n
      \<or> n \<in> set names \<and> has w AtSource n \<and> (\<exists>x. held w' AtDest n = Some x \<and> so_bytes x = body n)" for n
    using assms(2) unfolding data_copy_def by blast
  then have keep: "has w AtDest n \<Longrightarrow> has w' AtDest n" for n unfolding has_def by (metis option.discI)
  have origin: "has w' AtDest n \<Longrightarrow> has w AtDest n \<or> n \<in> data_names \<and> has w AtSource n" for n
    using dest [of n] assms(3) unfolding has_def by (metis subsetD)
  have ids: "manifest_ids w' AtDest = manifest_ids w AtDest"
    unfolding manifest_ids_def using keep origin manifest_rel_not_data by blast
  have src: "held w' AtSource = held w AtSource" using assms(2) by (simp add: data_copy_def held_def fun_eq_iff)
  then have src': "has w' AtSource = has w AtSource" by (simp add: has_def fun_eq_iff)
  have upto: "at_most w' K = at_most w K" for K by (simp add: at_most_def manifest_ids_def src')
  have now: "w_now w \<le> w_now w'" using assms(2) by (simp add: data_copy_def)
  have ev: "evolves w w'" using keep upto now by (simp add: evolves_def)
  have "supported hist (w_now w') K i w'" if "newest w' AtDest i" "at_most w' K" for i K
  proof -
    have "supported hist (w_now w) K i w"
      using that assms(1) upto unfolding mirror_inv_def newest_def ids by blast
    then show ?thesis by (rule supported_mono) (use now keep in auto)
  qed
  moreover have "complete hist w'" using assms(1) keep unfolding mirror_inv_def complete_def ids by blast
  moreover have "faithful body w' AtDest"
    using assms(1) dest unfolding mirror_inv_def faithful_def by (metis option.inject)
  moreover have "faithful body w' AtSource" using assms(1) unfolding mirror_inv_def faithful_def src by blast
  moreover have "typed w' AtSource"
    using assms(1,2) unfolding mirror_inv_def typed_def src' data_copy_def by simp
  moreover have "typed w' AtDest"
    using assms(1,2) origin unfolding mirror_inv_def typed_def data_copy_def by blast
  moreover have "\<forall>n. has w' AtDest n \<longrightarrow> n \<in> layout_names"
    using assms(1) origin unfolding mirror_inv_def layout_names_def by blast
  ultimately show ?thesis using ev unfolding mirror_inv_def by blast
qed

subsection \<open>A concrete database\<close>

text \<open>
  A source with manifest 1 that references the write-ahead log file 1, an empty target, and an
  environment in which nothing else happens. Every object's bytes are its own name.
\<close>

definition demo_source :: db_handle where
  "demo_source = \<lparr>db_url = ''s3://a/db'', db_side = AtSource, db_path = ''db''\<rparr>"

definition demo_dest :: db_handle where
  "demo_dest = \<lparr>db_url = ''s3://b/db'', db_side = AtDest, db_path = ''db''\<rparr>"

definition demo_hist :: "nat \<Rightarrow> vmanifest" where
  "demo_hist i =
     \<lparr>vm_id = i, vm_tree = \<lparr>tr_l0 = [], tr_runs = []\<rparr>, vm_segments = [], vm_replay_after_wal_id = 0,
      vm_next_wal_sst_id = 2, vm_checkpoints = [], vm_external_dbs = [], vm_wal_object_store_uri = None,
      vm_last_l0_seq = i\<rparr>"

definition demo_ids :: "world \<Rightarrow> side \<Rightarrow> nat list" where
  "demo_ids w d =
     filter (\<lambda>i. has w d (manifest_rel i))
       (List.map_filter (\<lambda>e. Option.bind (filename (fst e)) parse_manifest_name) (w_objects w d))"

definition demo_max :: "world \<Rightarrow> side \<Rightarrow> nat option" where
  "demo_max w d = (case demo_ids w d of [] \<Rightarrow> None | i # is \<Rightarrow> Some (fold max is i))"

definition demo_read :: "world \<Rightarrow> side \<Rightarrow> nat option \<Rightarrow> slate_error + vmanifest option" where
  "demo_read w d at =
     (case at of
        Some i \<Rightarrow> Inr (if has w d (manifest_rel i) then Some (demo_hist i) else None)
      | None \<Rightarrow> Inr (map_option demo_hist (demo_max w d)))"

definition demo_create :: "checkpoint_options \<Rightarrow> world \<Rightarrow> (slate_error + nat \<times> nat) \<times> world" where
  "demo_create opts w =
     (case demo_max w AtSource of
        None \<Rightarrow> (Inl \<lparr>sle_kind = Data, sle_message = ''no manifest''\<rparr>, w)
      | Some i \<Rightarrow>
          if i + 1 < 2 ^ 64 then (Inr (7, i + 1), put_object AtSource (manifest_rel (i + 1)) (manifest_rel (i + 1)) w)
          else (Inl \<lparr>sle_kind = Data, sle_message = ''no id left''\<rparr>, w))"

definition demo_env :: mirror_env where
  "demo_env =
     \<lparr>me_step = \<lambda>_ w. w, me_fault = \<lambda>_. None, me_order = \<lambda>n. [0..<n], me_chunks = \<lambda>b. [b],
      me_read_manifest = demo_read, me_create_checkpoint = demo_create,
      me_refresh_checkpoint = \<lambda>_ _ w. (Inr (), w), me_delete_checkpoint = \<lambda>_ w. (Inr (), w),
      me_list_checkpoints = \<lambda>_ _. Inr [], me_rclone_turns = \<lambda>_. 0,
      me_rclone = \<lambda>_ _ _ _ w. (Inl ''not installed'', w), me_find_ts = \<lambda>_ _. None, me_crates = demo_crates,
      me_url_path = \<lambda>u. u, me_to_file_path = \<lambda>_. None\<rparr>"

definition demo_stored :: "string \<Rightarrow> string \<times> stored" where
  "demo_stored n = (n, \<lparr>so_bytes = n, so_modified = 0\<rparr>)"

definition demo_world :: world where
  "demo_world =
     \<lparr>w_objects = (\<lambda>d. case d of AtSource \<Rightarrow> [demo_stored (manifest_rel 1), demo_stored (wal_rel 1)] | AtDest \<Rightarrow> []),
      w_now = 0, w_instant = 0, w_requests = 0, w_cache = Map.empty\<rparr>"

definition demo_settings :: resolved_mirror_target where
  "demo_settings = default_resolved_mirror_target"

lemma demo_ids_set: "typed w d \<Longrightarrow> set (demo_ids w d) = manifest_ids w d"
proof -
  assume t: "typed w d"
  have "i \<in> set (List.map_filter (\<lambda>e. Option.bind (filename (fst e)) parse_manifest_name) (w_objects w d))"
    if h: "has w d (manifest_rel i)" for i
  proof -
    have "i < 2 ^ 64" using t h by (simp add: typed_def typed_name_def)
    note name = manifest_name_roundtrip [OF this]
    obtain x where "held w d (manifest_rel i) = Some x" using h by (auto simp: has_def)
    then have "(manifest_rel i, x) \<in> set (w_objects w d)" unfolding held_def by (rule map_of_SomeD)
    then show ?thesis using name by (force simp: List.map_filter_def)
  qed
  then show ?thesis by (auto simp: demo_ids_def manifest_ids_def)
qed

lemma demo_max_newest:
  assumes "typed w d"
  shows "(demo_max w d = None \<longleftrightarrow> manifest_ids w d = {}) \<and> (\<forall>i. demo_max w d = Some i \<longrightarrow> newest w d i)"
proof (cases "demo_ids w d")
  case Nil
  then show ?thesis using demo_ids_set [OF assms] by (simp add: demo_max_def)
next
  case (Cons i "is")
  have eq: "fold max is i = Max (set (i # is))" by (simp add: Max.set_eq_fold del: list.set)
  have ids: "manifest_ids w d = set (i # is)" using Cons demo_ids_set [OF assms] by simp
  have "newest w d (fold max is i)" unfolding newest_def ids eq by (intro conjI Max_in ballI Max_ge) simp_all
  then show ?thesis using Cons ids by (simp add: demo_max_def)
qed

lemma demo_history: "history_ok demo_hist"
  by (simp add: history_ok_def demo_hist_def)

lemma demo_reads: "manifest_reads demo_hist (\<lambda>n. n) demo_env"
  unfolding manifest_reads_def
proof (intro allI impI, elim conjE)
  fix w d assume "typed w d"
  note newest = demo_max_newest [OF this]
  show "(\<forall>i m. me_read_manifest demo_env w d (Some i) = Inr (Some m) \<longrightarrow> i \<in> manifest_ids w d \<and> m = demo_hist i)
    \<and> (\<forall>i. me_read_manifest demo_env w d (Some i) = Inr None \<longrightarrow> i \<notin> manifest_ids w d)
    \<and> (\<forall>m. me_read_manifest demo_env w d None = Inr (Some m) \<longrightarrow> (\<exists>i. newest w d i \<and> m = demo_hist i))
    \<and> (me_read_manifest demo_env w d None = Inr None \<longrightarrow> manifest_ids w d = {})"
    using newest by (auto simp: demo_env_def demo_read_def manifest_ids_def split: if_splits)
qed

lemma demo_create_documented:
  assumes "demo_create opts w = (r, w')"
  shows "source_change (\<lambda>n. n) w w'"
proof -
  have src: "source_change (\<lambda>n. n) w (put_object AtSource (manifest_rel i) (manifest_rel i) w)" if "i < 2 ^ 64" for i
  proof -
    have "typed_name (manifest_rel i)" using that by (simp add: typed_name_def)
    then have "typed w AtSource \<Longrightarrow> typed (put_object AtSource (manifest_rel i) (manifest_rel i) w) AtSource" by (rule typed_put [rotated])
    then show ?thesis
      by (auto simp: source_change_def at_most_def manifest_ids_def has_put_object faithful_def held_put_object)
         (simp add: put_object_def)
  qed
  have "source_change (\<lambda>n. n) w w" by (simp add: source_change_def)
  then show ?thesis using assms src by (auto simp: demo_create_def split: option.splits if_splits)
qed
lemma demo_create_id:
  assumes "typed w AtSource" and "demo_create opts w = (Inr (pid, mid), w')"
  shows "at_most w mid \<and> mid \<in> manifest_ids w' AtSource"
proof -
  obtain i where i: "demo_max w AtSource = Some i" "mid = i + 1"
      "w' = put_object AtSource (manifest_rel mid) (manifest_rel mid) w"
    using assms(2) by (auto simp: demo_create_def split: option.splits if_splits)
  have "newest w AtSource i" using demo_max_newest [OF assms(1)] i(1) by blast
  then show ?thesis using i(2,3) by (auto simp: newest_def at_most_def manifest_ids_def has_put_object le_SucI)
qed

lemma demo_env_ok: "env_ok demo_hist (\<lambda>n. n) demo_env"
proof -
  have same: "source_change (\<lambda>n. n) w w" for w by (simp add: source_change_def)
  have "checkpoint_calls (\<lambda>n. n) demo_env"
    unfolding checkpoint_calls_def using demo_create_documented demo_create_id same
    by (simp add: demo_env_def) blast
  moreover have "rclone_documented (\<lambda>n. n) demo_env"
    by (simp add: rclone_documented_def demo_env_def data_copy_def typed_def)
  moreover have "streams_ok demo_env" by (simp add: streams_ok_def demo_env_def)
  ultimately show ?thesis
    using demo_history demo_reads by (simp add: env_ok_def) (simp add: demo_env_def evolves_refl)
qed

lemma demo_world_objects:
  "held demo_world AtSource n = (if n = manifest_rel 1 \<or> n = wal_rel 1 then Some \<lparr>so_bytes = n, so_modified = 0\<rparr> else None)"
  "held demo_world AtDest n = None"
  by (auto simp: demo_world_def held_def demo_stored_def)

lemma demo_world_inv: "mirror_inv demo_hist (\<lambda>n. n) demo_world"
proof -
  have "distinct (map fst (w_objects demo_world AtSource))" by (simp add: demo_world_def demo_stored_def)
  then have "typed demo_world AtSource"
    by (auto simp: typed_def has_def typed_name_def demo_world_objects split: if_splits)
  moreover have "typed demo_world AtDest" by (simp add: typed_def has_def demo_world_objects) (simp add: demo_world_def)
  ultimately show ?thesis
    by (simp add: mirror_inv_def faithful_def has_def complete_def newest_def manifest_ids_def demo_world_objects)
qed

lemma demo_foreign: "Option.bind (filename (wal_rel (Suc 0))) parse_manifest_name = None"
  by code_simp

end
