(* ===== verification/Mirror_Safety.thy ===== *)
theory Mirror_Safety
  imports Mirror_Invariant
begin

text \<open>
  What the sync pass keeps and achieves, computation by computation, in the logic of
  \<open>Mirror_Store\<close>: the closure and the diff, planning, copying, the pin, the commit and the
  whole pass. The interpretation \<open>mp\<close> of \<open>Mirror_Invariant\<close> instantiates that logic with
  the target's invariant; every lemma here is a triple of it.
\<close>

subsection \<open>Closures and the diff\<close>

lemma task_cached:
  assumes "task_inv hist body V w" and "\<And>m. r = Some m \<Longrightarrow> m = hist i"
  shows "task_inv hist body V (cached i r w) \<and> evolves w (cached i r w)"
  using assms by (cases r) (auto simp: cached_def task_inv_def cache_ok_def evolves_refl)

lemma task_faithful: "task_inv hist body V w \<Longrightarrow> faithful body w d \<and> typed w d"
  by (cases d) (simp_all add: task_inv_def mirror_inv_def)

lemma read_by_id:
  assumes "task_inv hist body V w" and "me_read_manifest V w d (Some i) = Inr (Some m)"
  shows "i \<in> manifest_ids w d \<and> m = hist i"
  using task_faithful [OF assms(1), of d] assms unfolding task_inv_def env_ok_def manifest_reads_def by blast

lemma read_newest:
  assumes "task_inv hist body V w" and "me_read_manifest V w d None = Inr (Some m)"
  shows "\<exists>i. newest w d i \<and> m = hist i"
  using task_faithful [OF assms(1), of d] assms unfolding task_inv_def env_ok_def manifest_reads_def by blast

lemma cache_read_ok:
  assumes P: "stable (task_inv hist body V) evolves P"
  shows "triple (task_inv hist body V) evolves P (cache_read V db i) (\<lambda>r w. P w \<and> (\<forall>m. r = Some m \<longrightarrow> m = hist i))"
proof (rule mp.cache_read [OF P])
  fix w r assume w: "task_inv hist body V w" "P w" "me_read_manifest V w (db_side db) (Some i) = Inr r"
  have r: "\<And>m. r = Some m \<Longrightarrow> m = hist i" using read_by_id [OF w(1)] w(3) by blast
  note t = task_cached [OF w(1) r]
  then have "P (cached i r w)" using P w(1,2) unfolding stable_def by blast
  then show "task_inv hist body V (cached i r w) \<and> evolves w (cached i r w)
      \<and> P (cached i r w) \<and> (\<forall>m. r = Some m \<longrightarrow> m = hist i)" using t r by blast
qed (auto simp: task_inv_def cache_ok_def)

definition members_ok :: "(nat \<Rightarrow> vmanifest) \<Rightarrow> (nat, manifest_objects) btree \<Rightarrow> bool" where
  "members_ok hist ms \<longleftrightarrow> bt_wf ms \<and> (\<forall>e \<in> set ms. snd e = objects_of (hist (fst e)))"

lemma members_ok_insert:
  assumes "members_ok hist ms"
  shows "members_ok hist (bt_insert i (objects_of (hist i)) ms)"
proof -
  have "\<forall>e \<in> set (bt_insert i (objects_of (hist i)) ms). snd e = objects_of (hist (fst e))"
    using assms set_bt_insert [of i "objects_of (hist i)" ms] unfolding members_ok_def by fastforce
  then show ?thesis using assms by (simp add: members_ok_def bt_wf_insert)
qed

definition keys :: "('k, 'v) btree \<Rightarrow> 'k set" where
  "keys ms = set (map fst ms)"

lemma keys_single: "keys [(k, v)] = {k}"
  by (simp add: keys_def)

lemma keys_insert: "bt_wf ms \<Longrightarrow> keys (bt_insert k v ms) = insert k (keys ms)"
  unfolding keys_def by (rule bt_keys_insert)

lemma closure_members_ok:
  assumes P: "stable (task_inv hist body V) evolves P" and "members_ok hist ms" and "head_id \<in> keys ms"
  shows "triple (task_inv hist body V) evolves P (closure_members V db head_id now cps ms)
    (\<lambda>r w. P w \<and> (\<forall>ms'. r = Some ms' \<longrightarrow> members_ok hist ms'
        \<and> keys ms' = keys ms \<union> {cp_manifest_id cp |cp. cp \<in> set cps \<and> checkpoint_live cp now}))"
  using assms(2,3)
proof (induction cps arbitrary: ms)
  case Nil
  show ?case unfolding closure_members.simps by (rule mp.ret) (use Nil in auto)
next
  case (Cons cp cps)
  let ?I = "task_inv hist body V"
  show ?case
  proof (cases "\<not> checkpoint_live cp now \<or> cp_manifest_id cp = head_id")
    case True
    show ?thesis using True
      by (simp, intro mp.conseq [OF Cons.IH [OF Cons.prems]]) (use True Cons.prems in auto)
  next
    case False
    let ?ms = "\<lambda>m. bt_insert (cp_manifest_id cp) (objects_of m) ms" and ?m = "hist (cp_manifest_id cp)"
    let ?Q = "\<lambda>r w. P w \<and> (\<forall>ms'. r = Some ms' \<longrightarrow> members_ok hist ms'
        \<and> keys ms' = keys ms \<union> {cp_manifest_id c |c. c \<in> set (cp # cps) \<and> checkpoint_live c now})"
    have k: "keys (?ms ?m) = insert (cp_manifest_id cp) (keys ms)"
      using Cons.prems by (intro keys_insert) (simp add: members_ok_def)
    have S: "{cp_manifest_id c |c. c \<in> set (cp # cps) \<and> checkpoint_live c now}
        = insert (cp_manifest_id cp) {cp_manifest_id c |c. c \<in> set cps \<and> checkpoint_live c now}" using False by auto
    have "triple ?I evolves P (closure_members V db head_id now cps (?ms ?m)) ?Q"
      unfolding S
    proof (rule mp.conseq [OF Cons.IH [OF members_ok_insert [OF Cons.prems(1)]]])
      show "head_id \<in> keys (?ms ?m)" using Cons.prems(2) k by simp
    qed (use k in simp_all)
    then have more: "triple ?I evolves (\<lambda>w. P w \<and> m = ?m) (closure_members V db head_id now cps (?ms m)) ?Q" for m
      by (intro mp.pull) simp
    have "triple ?I evolves P (bnd (cache_read V db (cp_manifest_id cp))
        (\<lambda>r. case r of Some pinned \<Rightarrow> closure_members V db head_id now cps (?ms pinned) | None \<Rightarrow> ret None)) ?Q"
      by (rule mp.bnd_option [OF cache_read_ok [OF P]]) (simp_all only: option.case, rule mp.ret, simp, rule mp.pre [OF more], simp)
    then show ?thesis using False by simp
  qed
qed

definition closure_ok :: "(nat \<Rightarrow> vmanifest) \<Rightarrow> nat \<Rightarrow> datetime \<Rightarrow> closure \<Rightarrow> bool" where
  "closure_ok hist L now c \<longleftrightarrow>
     members_ok hist (cl_manifests c)
     \<and> keys (cl_manifests c) = insert L {cp_manifest_id cp |cp. cp \<in> set (vm_checkpoints (hist L)) \<and> checkpoint_live cp now}"

lemma closure_of_ok:
  assumes P: "stable (task_inv hist body V) evolves P" and h: "history_ok hist"
  shows "triple (task_inv hist body V) evolves P (closure_of V db (hist L) now)
    (\<lambda>r w. P w \<and> (\<forall>c. r = Some c \<longrightarrow> closure_ok hist L now c))"
proof -
  have L: "vm_id (hist L) = L" using h by (simp add: history_ok_def)
  have m: "members_ok hist (bt_insert L (objects_of (hist L)) [])" "L \<in> keys (bt_insert L (objects_of (hist L)) [])"
    by (simp_all add: members_ok_def bt_wf_def keys_def)
  show ?thesis unfolding closure_of_def L
  proof (rule mp.bnd [OF closure_members_ok [OF P m]])
    show "triple (task_inv hist body V) evolves
      (\<lambda>w. P w \<and> (\<forall>ms'. r = Some ms' \<longrightarrow> members_ok hist ms' \<and>
         keys ms' = keys (bt_insert L (objects_of (hist L)) []) \<union>
           {cp_manifest_id cp |cp. cp \<in> set (vm_checkpoints (hist L)) \<and> checkpoint_live cp now}))
      (case r of None \<Rightarrow> ret None | Some ms \<Rightarrow> ret (Some \<lparr>cl_head = L, cl_manifests = ms\<rparr>))
      (\<lambda>r w. P w \<and> (\<forall>c. r = Some c \<longrightarrow> closure_ok hist L now c))" for r
      by (cases r) (auto intro!: mp.ret simp: closure_ok_def keys_single)
  qed
qed

definition finite_objects :: "manifest_objects \<Rightarrow> bool" where
  "finite_objects a \<longleftrightarrow> finite (mo_compacted a) \<and> finite (mo_wal a)"

lemma finite_objects_difference: "finite_objects a \<Longrightarrow> finite_objects (mo_difference a b)"
  by (simp add: finite_objects_def mo_difference_def)

lemma fold_extend:
  "names_of (fold (\<lambda>e a. mo_extend a (snd e)) es a) = names_of a \<union> (\<Union>e \<in> set es. names_of (snd e))"
  by (induction es arbitrary: a) auto

lemma fold_extend_finite:
  "finite_objects a \<Longrightarrow> (\<And>e. e \<in> set es \<Longrightarrow> finite_objects (snd e))
     \<Longrightarrow> finite_objects (fold (\<lambda>e a. mo_extend a (snd e)) es a)"
  by (induction es arbitrary: a) (simp_all add: finite_objects_def mo_extend_def)

lemma closure_names:
  assumes "members_ok hist (cl_manifests c)"
  shows "n \<in> names_of (closure_objects c) \<longleftrightarrow> (\<exists>i \<in> keys (cl_manifests c). n \<in> names_of (objects_of (hist i)))"
  using assms by (auto simp: closure_objects_def fold_extend members_ok_def keys_def)

lemma closure_finite:
  assumes "members_ok hist (cl_manifests c)"
  shows "finite_objects (closure_objects c)"
  unfolding closure_objects_def
  by (rule fold_extend_finite) (use assms in \<open>simp_all add: members_ok_def finite_objects_def no_objects_def\<close>)

lemma supported_get:
  assumes "supported hist T K W w" and "cp \<in> set (vm_checkpoints (hist W))" and "T \<le> t" and "K \<le> k"
    and "cp' \<in> set (vm_checkpoints (hist k))" and "checkpoint_live cp t" and "checkpoint_live cp' t" and "cp_id cp' = cp_id cp"
  shows "cp_manifest_id cp \<in> manifest_ids w AtDest"
  using assms unfolding supported_def by blast

definition proven_ok :: "world \<Rightarrow> manifest_objects \<times> nat set \<Rightarrow> bool" where
  "proven_ok w acc \<longleftrightarrow> (\<forall>n \<in> names_of (fst acc). has w AtDest n) \<and> (\<forall>i \<in> snd acc. i \<in> manifest_ids w AtDest)"

lemma complete_has:
  assumes "task_inv hist body V w" and "i \<in> manifest_ids w AtDest" and "n \<in> names_of (objects_of (hist i))"
  shows "has w AtDest n"
  using assms unfolding task_inv_def mirror_inv_def complete_def by blast

lemma prove_checkpoint_ok:
  assumes w: "task_inv hist body V w" and s: "supported hist T K W w" and "T \<le> now" and "K \<le> L"
    and c: "closure_ok hist L now c" and cp: "cp \<in> set (vm_checkpoints (hist W))" and acc: "proven_ok w acc"
  shows "proven_ok w (prove_checkpoint (live_in_head (hist L) now) now c cp acc)"
proof (cases "checkpoint_live cp now \<and> cp_id cp \<in> live_in_head (hist L) now \<and> bt_get (cl_manifests c) (cp_manifest_id cp) \<noteq> None")
  case True
  then obtain cp' where cp': "cp' \<in> set (vm_checkpoints (hist L))" "checkpoint_live cp' now" "cp_id cp' = cp_id cp"
    by (auto simp: live_in_head_def)
  obtain objs where o: "bt_get (cl_manifests c) (cp_manifest_id cp) = Some objs" using True by blast
  have d: "cp_manifest_id cp \<in> manifest_ids w AtDest"
    by (rule supported_get [OF s cp assms(3,4) cp'(1) _ cp'(2,3)]) (use True in blast)
  have "(cp_manifest_id cp, objs) \<in> set (cl_manifests c)"
    using o c by (simp add: closure_ok_def members_ok_def bt_get_iff)
  then have "objs = objects_of (hist (cp_manifest_id cp))"
    using c unfolding closure_ok_def members_ok_def by fastforce
  then have "\<forall>n \<in> names_of objs. has w AtDest n" using complete_has [OF w d] by blast
  then show ?thesis using True o d acc by (auto simp: prove_checkpoint_def proven_ok_def)
next
  case False
  then have "prove_checkpoint (live_in_head (hist L) now) now c cp acc = acc" by (auto simp: prove_checkpoint_def)
  then show ?thesis using acc by simp
qed

definition watermark_ok :: "(nat \<Rightarrow> vmanifest) \<Rightarrow> datetime \<Rightarrow> nat \<Rightarrow> vmanifest option \<Rightarrow> world \<Rightarrow> bool" where
  "watermark_ok hist T K wm w \<longleftrightarrow>
     T \<le> w_now w \<and> (\<forall>m. wm = Some m \<longrightarrow> (\<exists>W. m = hist W \<and> W \<in> manifest_ids w AtDest \<and> supported hist T K W w))"

lemma stable_watermark: "stable (task_inv hist body V) evolves (watermark_ok hist T K wm)"
  unfolding watermark_ok_def by (intro stable_facts)

lemma proven_present_ok:
  assumes w: "task_inv hist body V w" and wm: "watermark_ok hist T K wm w" and "T \<le> now" and "K \<le> L"
    and c: "closure_ok hist L now c"
  shows "proven_ok w (proven_present (hist L) wm now c)"
proof (cases wm)
  case None
  then show ?thesis by (simp add: proven_present_def proven_ok_def)
next
  case (Some m)
  then obtain W where W: "m = hist W" "W \<in> manifest_ids w AtDest" "supported hist T K W w"
    using wm unfolding watermark_ok_def by blast
  have id: "vm_id (hist W) = W" using w by (simp add: task_inv_def env_ok_def history_ok_def)
  have fold_ok: "proven_ok w acc \<Longrightarrow> set cps \<subseteq> set (vm_checkpoints (hist W))
      \<Longrightarrow> proven_ok w (fold (prove_checkpoint (live_in_head (hist L) now) now c) cps acc)" for acc cps
  proof (induction cps arbitrary: acc)
    case (Cons cp cps)
    then have "proven_ok w (prove_checkpoint (live_in_head (hist L) now) now c cp acc)"
      by (intro prove_checkpoint_ok [OF w W(3) assms(3,4) c]) simp_all
    then show ?case using Cons by (simp del: split_paired_All)
  qed simp
  have "proven_ok w (mo_extend no_objects (objects_of (hist W)), {W})"
    using complete_has [OF w W(2)] W(2) by (auto simp: proven_ok_def)
  from fold_ok [OF this] show ?thesis using Some W(1) id by (simp add: proven_present_def)
qed

definition diff_ok :: "(nat \<Rightarrow> vmanifest) \<Rightarrow> nat \<Rightarrow> diff \<Rightarrow> world \<Rightarrow> bool" where
  "diff_ok hist L d w \<longleftrightarrow>
     (\<exists>now. closure_ok hist L now (df_closure d) \<and> now \<le> w_now w) \<and> finite_objects (df_candidates d)
     \<and> (\<forall>n \<in> names_of (closure_objects (df_closure d)) - names_of (df_candidates d). has w AtDest n)
     \<and> (\<forall>i \<in> df_present d. i \<in> manifest_ids w AtDest)"

lemma stable_diff: "stable (task_inv hist body V) evolves (diff_ok hist L d)"
  unfolding stable_def
proof (intro allI impI, elim conjE)
  fix w w' assume ev: "evolves w w'" and d: "diff_ok hist L d w"
  have "\<exists>now. closure_ok hist L now (df_closure d) \<and> now \<le> w_now w'"
    using d ev unfolding diff_ok_def evolves_def using order_trans by blast
  then show "diff_ok hist L d w'" using d ev by (simp add: diff_ok_def evolves_def manifest_ids_def)
qed

lemma diff_against_watermark_ok:
  assumes P: "stable (task_inv hist body V) evolves P" and h: "history_ok hist" and K: "K \<le> L"
  shows "triple (task_inv hist body V) evolves (\<lambda>w. P w \<and> watermark_ok hist T K wm w)
    (diff_against_watermark V db (hist L) wm) (\<lambda>d w. P w \<and> watermark_ok hist T K wm w \<and> diff_ok hist L d w)"
  unfolding diff_against_watermark_def
proof (rule mp.bnd)
  let ?Q = "\<lambda>now w. (P w \<and> watermark_ok hist T K wm w) \<and> now \<le> w_now w \<and> T \<le> now"
  show "triple (task_inv hist body V) evolves (\<lambda>w. P w \<and> watermark_ok hist T K wm w) get_now ?Q"
    by (rule mp.now) (simp add: watermark_ok_def)
  fix now
  have st: "stable (task_inv hist body V) evolves (?Q now)"
    by (intro mp.stable_conj P stable_watermark stable_after mp.stable_const)
  show "triple (task_inv hist body V) evolves (?Q now)
     (bnd (map_err Fatal (closure_of V db (hist L) now)) (\<lambda>r. case r of
        None \<Rightarrow> fail (Restart ''a live checkpoint's pinned manifest vanished mid-diff'')
      | Some closure \<Rightarrow> let (proven, present) = proven_present (hist L) wm now closure
          in ret \<lparr>df_closure = closure, df_candidates = mo_difference (closure_objects closure) proven, df_present = present\<rparr>))
     (\<lambda>d w. P w \<and> watermark_ok hist T K wm w \<and> diff_ok hist L d w)"
  proof (rule mp.bnd [OF mp.map_err [OF closure_of_ok [OF st h]]])
    fix r
    show "triple (task_inv hist body V) evolves (\<lambda>w. ?Q now w \<and> (\<forall>c. r = Some c \<longrightarrow> closure_ok hist L now c))
     (case r of
        None \<Rightarrow> fail (Restart ''a live checkpoint's pinned manifest vanished mid-diff'')
      | Some closure \<Rightarrow> let (proven, present) = proven_present (hist L) wm now closure
          in ret \<lparr>df_closure = closure, df_candidates = mo_difference (closure_objects closure) proven, df_present = present\<rparr>)
     (\<lambda>d w. P w \<and> watermark_ok hist T K wm w \<and> diff_ok hist L d w)"
    proof (cases r)
      case None
      show ?thesis unfolding None option.case by (rule mp.fail)
    next
      case (Some c)
      obtain proven present where p: "proven_present (hist L) wm now c = (proven, present)" by fastforce
      show ?thesis unfolding Some option.case p Let_def prod.case
      proof (rule mp.ret)
        fix w assume w: "task_inv hist body V w" and "?Q now w \<and> (\<forall>c'. Some c = Some c' \<longrightarrow> closure_ok hist L now c')"
        then have q: "P w" "watermark_ok hist T K wm w" "now \<le> w_now w" "T \<le> now" "closure_ok hist L now c" by auto
        have "proven_ok w (proven, present)" using proven_present_ok [OF w q(2,4) K q(5)] p by simp
        moreover have "finite_objects (mo_difference (closure_objects c) proven)"
          using q(5) unfolding closure_ok_def by (blast intro: finite_objects_difference closure_finite)
        ultimately have "diff_ok hist L \<lparr>df_closure = c, df_candidates = mo_difference (closure_objects c) proven,
            df_present = present\<rparr> w"
          using q by (auto simp: diff_ok_def proven_ok_def)
        with q show "P w \<and> watermark_ok hist T K wm w \<and> diff_ok hist L \<lparr>df_closure = c,
            df_candidates = mo_difference (closure_objects c) proven, df_present = present\<rparr> w" by blast
      qed
    qed
  qed
qed

subsection \<open>Planning\<close>

lemma completion_order_set:
  assumes "streams_ok V"
  shows "set (completion_order V xs) = set xs"
proof -
  have "mset (me_order V (length xs)) = mset [0..<length xs]" using assms by (simp add: streams_ok_def)
  then have "set (me_order V (length xs)) = {0..<length xs}" by (metis set_mset_mset set_upt)
  then have "set (completion_order V xs) = (!) xs ` {0..<length xs}" by (simp add: completion_order_def)
  also have "\<dots> = set xs" by (metis map_nth set_map set_upt)
  finally show ?thesis .
qed

lemma head_misses_ok:
  assumes P: "stable (task_inv hist body V) evolves P" and d: "db_side dest = AtDest" and V: "streams_ok V"
  shows "triple (task_inv hist body V) evolves P (head_misses V dest items rel)
    (\<lambda>misses w. P w \<and> set misses \<subseteq> set items \<and> (\<forall>x \<in> set items - set misses. has w AtDest (rel x)))"
  unfolding head_misses_def
  using mp.head_probe [of hist body V P dest rel "completion_order V items"] P
  by (simp add: d stable_has completion_order_set [OF V])

lemma parsed_metas_in:
  assumes "(a, m) \<in> set (parsed_metas parse (metas d dir w))"
  shows "has w d (om_location m) \<and> take (length dir + 1) (om_location m) = dir @ ''/''
    \<and> Option.bind (filename (om_location m)) parse = Some a"
  using assms by (auto simp: parsed_metas_def List.map_filter_def metas_def has_def held_def weak_map_of_SomeI
      split: option.splits)

lemma compacted_location:
  assumes "take (length COMPACTED_DIR + 1) n = COMPACTED_DIR @ ''/''" and "n \<in> layout_names"
  shows "\<exists>u. n = compacted_rel u"
  using assms by (auto simp: layout_names_def data_names_def manifest_rel_def wal_rel_def COMPACTED_DIR_def
      MANIFEST_DIR_def WAL_DIR_def compacted_rel_def)

lemma filename_compacted:
  assumes "is_ulid u"
  shows "Option.bind (filename (compacted_rel u)) parse_compacted_name = Some u"
  using assms compacted_name_roundtrip by (simp add: is_ulid_def)

lemma listed_compacted:
  assumes w: "task_inv hist body V w" and m: "(u, m) \<in> set (parsed_metas parse_compacted_name (metas AtDest COMPACTED_DIR w))"
  shows "has w AtDest (compacted_rel u)"
proof -
  note loc = parsed_metas_in [OF m]
  have "om_location m \<in> layout_names" using w loc unfolding task_inv_def mirror_inv_def by blast
  then obtain u' where u': "om_location m = compacted_rel u'" using compacted_location loc by blast
  have "is_ulid u'" using w loc u' unfolding task_inv_def mirror_inv_def typed_def typed_name_def by metis
  then have "u' = u" using loc filename_compacted u' by simp
  then show ?thesis using loc u' by simp
qed

lemma plan_compacted_ok:
  assumes P: "stable (task_inv hist body V) evolves P" and d: "db_side (ck_dest c) = AtDest" and V: "streams_ok V"
  shows "triple (task_inv hist body V) evolves P (plan_compacted V c cands seeding)
    (\<lambda>us w. P w \<and> set us \<subseteq> set cands \<and> (\<forall>u \<in> set cands - set us. has w AtDest (compacted_rel u)))"
proof (cases "ck_kind c = External")
  case False
  then have "plan_compacted V c cands seeding = ret cands"
    by (cases "ck_kind c") (simp_all add: plan_compacted_def)
  then show ?thesis by (auto intro: mp.ret)
next
  case ext: True
  show ?thesis
  proof (cases seeding)
    case False
    then have "plan_compacted V c cands seeding = head_misses V (ck_dest c) cands compacted_rel"
      using ext by (simp add: plan_compacted_def)
    then show ?thesis using head_misses_ok [OF P d V] by simp
  next
    case True
    let ?Q = "\<lambda>(ms :: (string \<times> object_meta) list) w. P w \<and> (\<forall>u \<in> set (map fst ms). has w AtDest (compacted_rel u))"
    have "triple (task_inv hist body V) evolves P (list_dir V (ck_dest c) COMPACTED_DIR)
        (\<lambda>ms. ?Q (parsed_metas parse_compacted_name ms))"
      by (rule mp.list_dir [OF P]) (auto simp: d parsed_metas_def dest: listed_compacted)
    then have l: "triple (task_inv hist body V) evolves P (list_compacted V (ck_dest c)) ?Q"
      unfolding list_compacted_def by (rule mp.bnd) (rule mp.ret)
    have "plan_compacted V c cands seeding = bnd (list_compacted V (ck_dest c)) (\<lambda>listed.
                 let present = set (map fst listed) in ret (filter (\<lambda>ulid. ulid \<notin> present) cands))"
      using ext True by (simp add: plan_compacted_def)
    then show ?thesis by (auto simp: Let_def intro!: mp.bnd [OF l] mp.ret)
  qed
qed

lemma wal_misses_ok:
  assumes P: "stable (task_inv hist body V) evolves P" and d: "db_side dest = AtDest" and V: "streams_ok V" and "finite wal"
  shows "triple (task_inv hist body V) evolves P (wal_misses V dest wal)
    (\<lambda>ids w. P w \<and> set ids \<subseteq> wal \<and> (\<forall>i \<in> wal - set ids. has w AtDest (wal_rel i)))"
  unfolding wal_misses_def
  by (rule mp.bnd [OF head_misses_ok [OF P d V]]) (rule mp.ret, simp add: \<open>finite wal\<close>)

lemma plan_work_ok:
  assumes P: "stable (task_inv hist body V) evolves P" and d: "db_side dest = AtDest" "ck_dest c = dest" and V: "streams_ok V"
    and fin: "finite_objects (df_candidates df)"
  shows "triple (task_inv hist body V) evolves P (plan_work V c dest df seeding)
    (\<lambda>work w. P w \<and> set work \<subseteq> names_of (df_candidates df)
       \<and> (\<forall>n \<in> names_of (df_candidates df) - set work. has w AtDest n))"
proof -
  let ?C = "sorted_list_of_set (mo_compacted (df_candidates df))"
  have fc: "set ?C = mo_compacted (df_candidates df)" using fin by (simp add: finite_objects_def)
  let ?Q = "\<lambda>us w. P w \<and> set us \<subseteq> set ?C \<and> (\<forall>u \<in> set ?C - set us. has w AtDest (compacted_rel u))"
  have c: "triple (task_inv hist body V) evolves P (plan_compacted V c ?C seeding) ?Q"
    by (rule plan_compacted_ok [OF P _ V]) (simp add: d)
  have st: "stable (task_inv hist body V) evolves (?Q us)" for us
    by (intro P stable_facts)
  have wal: "finite (mo_wal (df_candidates df))" using fin by (simp add: finite_objects_def)
  show ?thesis unfolding plan_work_def
    by (rule mp.bnd [OF c], rule mp.bnd [OF wal_misses_ok [OF st d(1) V wal]], rule mp.ret)
       (auto simp: names_of_def fc)
qed

subsection \<open>Copying\<close>

definition quiet_hook ::
  "(nat \<Rightarrow> vmanifest) \<Rightarrow> (string \<Rightarrow> string) \<Rightarrow> mirror_env \<Rightarrow> ('s \<Rightarrow> ('e, 's) act) \<Rightarrow> bool" where
  "quiet_hook hist body V hook \<longleftrightarrow>
     (\<forall>s P. stable (task_inv hist body V) evolves P \<longrightarrow> triple (task_inv hist body V) evolves P (hook s) (\<lambda>_. P))"

lemma hooked_ok:
  assumes "quiet_hook hist body V hook" and "stable (task_inv hist body V) evolves P"
    and m: "triple (task_inv hist body V) evolves P m Q"
  shows "triple (task_inv hist body V) evolves P (hooked hook f s m) (\<lambda>as. Q (fst as))"
proof -
  have "triple (task_inv hist body V) evolves P (hook s) (\<lambda>_. P)" using assms unfolding quiet_hook_def by blast
  then show ?thesis unfolding hooked_def
    by (rule mp.bnd) (rule mp.bnd [OF mp.map_err [OF m]], rule mp.ret, simp)
qed

lemma request_ret_ok:
  "stable (task_inv hist body V) evolves P \<Longrightarrow>
     triple (task_inv hist body V) evolves P (request V (ret a)) (\<lambda>b w. b = a \<and> P w)"
  by (rule mp.request [OF mp.ret]) simp_all

lemma upload_chunks_ok:
  fixes hook :: "'s \<Rightarrow> ('e, 's) act"
  assumes hook: "quiet_hook hist body V hook" and P: "stable (task_inv hist body V) evolves P"
  shows "triple (task_inv hist body V) evolves P (upload_chunks V hook f s chunks buffer)
    (\<lambda>bs w. P w \<and> fst bs = buffer @ concat chunks)"
proof (induction chunks arbitrary: s buffer)
  case Nil
  show ?case unfolding upload_chunks.simps by (rule mp.ret) simp
next
  case (Cons chunk chunks)
  show ?case unfolding upload_chunks.simps
  proof (rule mp.bnd [OF hooked_ok [OF hook P request_ret_ok [OF P]]])
    fix cs :: "string \<times> 's"
    have "triple (task_inv hist body V) evolves P
       (bnd (hooked hook f (snd cs) (request V (ret ()))) (\<lambda>(_, s). upload_chunks V hook f s chunks (buffer @ chunk)))
       (\<lambda>bs w. P w \<and> fst bs = buffer @ concat (chunk # chunks))"
    proof (rule mp.bnd [OF hooked_ok [OF hook P request_ret_ok [OF P]]])
      show "triple (task_inv hist body V) evolves (\<lambda>w. fst us = () \<and> P w)
        (case us of (u, s) \<Rightarrow> upload_chunks V hook f s chunks (buffer @ chunk))
        (\<lambda>bs w. P w \<and> fst bs = buffer @ concat (chunk # chunks))" for us
        by (cases us, simp) (rule mp.conseq [OF Cons.IH], auto)
    qed
    then have "triple (task_inv hist body V) evolves (\<lambda>w. P w \<and> fst cs = chunk)
       (case cs of (c, s) \<Rightarrow> bnd (hooked hook f s (request V (ret ()))) (\<lambda>(_, s). upload_chunks V hook f s chunks (buffer @ c)))
       (\<lambda>bs w. P w \<and> fst bs = buffer @ concat (chunk # chunks))"
      by (intro mp.pull) (cases cs, simp)
    then show "triple (task_inv hist body V) evolves (\<lambda>w. fst cs = chunk \<and> P w)
       (case cs of (c, s) \<Rightarrow> bnd (hooked hook f s (request V (ret ()))) (\<lambda>(_, s). upload_chunks V hook f s chunks (buffer @ c)))
       (\<lambda>bs w. P w \<and> fst bs = buffer @ concat (chunk # chunks))" by (rule mp.pre) simp
  qed
qed

lemma store_put_data:
  assumes P: "stable (task_inv hist body V) evolves P" and d: "db_side dest = AtDest" and n: "n \<in> data_names" "typed_name n"
    and b: "b = body n"
  shows "triple (task_inv hist body V) evolves P (store_put V dest n b) (\<lambda>_ w. P w \<and> has w AtDest n)"
proof (rule mp.store_put [OF P], unfold d)
  fix w assume w: "task_inv hist body V w" "P w"
  have t: "task_inv hist body V (put_object AtDest n b w)" by (rule task_put_data [OF w(1) n b])
  then have "P (put_object AtDest n b w)" using P w evolves_put unfolding stable_def by blast
  then show "task_inv hist body V (put_object AtDest n b w) \<and> evolves w (put_object AtDest n b w)
      \<and> P (put_object AtDest n b w) \<and> has (put_object AtDest n b w) AtDest n"
    using t by (simp add: evolves_put has_put_object)
qed

lemma source_object:
  assumes "task_inv hist body V w" and "held w AtSource n = Some x" and "n \<in> data_names"
  shows "so_bytes x = body n \<and> typed_name n"
  using assms unfolding task_inv_def mirror_inv_def faithful_def typed_def has_def layout_names_def by blast

lemma copy_object_ok:
  fixes hook :: "'s \<Rightarrow> ('e, 's) act"
  assumes hook: "quiet_hook hist body V hook" and P: "stable (task_inv hist body V) evolves P"
    and src: "db_side source = AtSource" and dst: "db_side dest = AtDest" and n: "rel \<in> data_names" and V: "streams_ok V"
  shows "triple (task_inv hist body V) evolves P (copy_object V hook fe s source dest rel)
    (\<lambda>_ w. P w \<and> has w AtDest rel)"
proof -
  let ?I = "task_inv hist body V" and ?F = "\<lambda>x. so_bytes x = body rel \<and> typed_name rel"
  have st: "stable ?I evolves (\<lambda>w. P w \<and> C)" for C by (intro mp.stable_conj P mp.stable_const)
  have get: "triple ?I evolves P (store_get V source rel) (\<lambda>x w. P w \<and> ?F x)"
    by (rule mp.store_get [OF P]) (use source_object n src in auto)
  have bytes: "triple ?I evolves (\<lambda>w. P w \<and> ?F x) (store_bytes V x) (\<lambda>b w. P w \<and> b = body rel \<and> typed_name rel)" for x
    by (rule mp.store_bytes [OF st]) simp
  have put: "triple ?I evolves (\<lambda>w. P w \<and> b = body rel \<and> typed_name rel) (store_put V dest rel b)
      (\<lambda>_ w. P w \<and> has w AtDest rel)" for b
    by (rule mp.pull, elim conjE) (rule store_put_data [OF P dst n])
  have put': "triple ?I evolves (\<lambda>w. P w \<and> b = body rel \<and> typed_name rel)
      (bnd (hooked hook f s (store_put V dest rel b)) (\<lambda>(_, s). ret (k, s))) (\<lambda>_ w. P w \<and> has w AtDest rel)" for b f s and k :: nat
    by (rule mp.bnd [OF hooked_ok [OF hook st put]]) (auto intro: mp.ret)
  have small: "triple ?I evolves (\<lambda>w. P w \<and> ?F x)
      (bnd (hooked hook f s (store_bytes V x)) (\<lambda>(b, s). bnd (hooked hook g s (store_put V dest rel b)) (\<lambda>(_, s). ret (k, s))))
      (\<lambda>_ w. P w \<and> has w AtDest rel)" for x f g s and k :: nat
    by (rule mp.bnd [OF hooked_ok [OF hook st bytes]]) (use put' in \<open>auto split: prod.splits\<close>)
  have create: "triple ?I evolves (\<lambda>w. P w \<and> ?F x) (request V (ret ())) (\<lambda>_ w. P w \<and> ?F x)" for x
    by (rule mp.request [OF mp.ret st])
  have chunks: "triple ?I evolves (\<lambda>w. P w \<and> ?F x)
      (bnd (upload_chunks V hook g s (me_chunks V (so_bytes x)) []) (\<lambda>(b, s).
         bnd (hooked hook g s (store_put V dest rel b)) (\<lambda>(_, s). ret (k, s))))
      (\<lambda>_ w. P w \<and> has w AtDest rel)" for x g s and k :: nat
  proof (rule mp.bnd)
    show "triple ?I evolves (\<lambda>w. P w \<and> ?F x) (upload_chunks V hook g s (me_chunks V (so_bytes x)) [])
        (\<lambda>bs w. P w \<and> fst bs = body rel \<and> typed_name rel)"
      by (rule mp.conseq [OF upload_chunks_ok [OF hook st [of "?F x"]]]) (use V in \<open>auto simp: streams_ok_def\<close>)
    show "triple ?I evolves (\<lambda>w. P w \<and> fst bs = body rel \<and> typed_name rel)
      (case bs of (b, s) \<Rightarrow> bnd (hooked hook g s (store_put V dest rel b)) (\<lambda>(_, s). ret (k, s)))
      (\<lambda>_ w. P w \<and> has w AtDest rel)" for bs using put' by (cases bs) simp
  qed
  have large: "triple ?I evolves (\<lambda>w. P w \<and> ?F x)
      (bnd (hooked hook g s (request V (ret ()))) (\<lambda>(_, s).
       bnd (upload_chunks V hook g s (me_chunks V (so_bytes x)) []) (\<lambda>(b, s).
         bnd (hooked hook g s (store_put V dest rel b)) (\<lambda>(_, s). ret (k, s)))))
      (\<lambda>_ w. P w \<and> has w AtDest rel)" for x g s and k :: nat
    by (rule mp.bnd [OF hooked_ok [OF hook st create]]) (use chunks in \<open>auto split: prod.splits\<close>)
  show ?thesis unfolding copy_object_def Let_def
    by (rule mp.bnd [OF hooked_ok [OF hook P get]]) (use small large in \<open>auto split: prod.splits\<close>)
qed

lemma copy_each_ok:
  fixes hook :: "'s \<Rightarrow> ('e, 's) act"
  assumes hook: "quiet_hook hist body V hook" and P: "stable (task_inv hist body V) evolves P"
    and sides: "db_side source = AtSource" "db_side dest = AtDest" and V: "streams_ok V" and n: "set names \<subseteq> data_names"
  shows "triple (task_inv hist body V) evolves P (copy_each V hook fe s source dest names bytes)
    (\<lambda>_ w. P w \<and> (\<forall>n \<in> set names. has w AtDest n))"
  using n
proof (induction names arbitrary: s bytes)
  case Nil
  show ?case unfolding copy_each.simps by (rule mp.ret) simp
next
  case (Cons name names)
  have st: "stable (task_inv hist body V) evolves (\<lambda>w. has w AtDest name)" by (rule stable_has)
  have "name \<in> data_names" using Cons.prems by simp
  note obj = copy_object_ok [OF hook P sides this V]
  show ?case unfolding copy_each.simps
  proof (rule mp.bnd [OF obj])
    show "triple (task_inv hist body V) evolves (\<lambda>w. P w \<and> has w AtDest name)
       (case ns of (n, s) \<Rightarrow> copy_each V hook fe s source dest names (u64_add bytes n))
       (\<lambda>_ w. P w \<and> (\<forall>n \<in> set (name # names). has w AtDest n))" for ns
      by (cases ns, simp, rule mp.conseq [OF mp.frame [OF Cons.IH st]]) (use Cons.prems in auto)
  qed
qed

lemma rclone_wait_ok:
  assumes hook: "quiet_hook hist body V hook" and P: "stable (task_inv hist body V) evolves P"
  shows "triple (task_inv hist body V) evolves P (rclone_wait V hook s n) (\<lambda>_. P)"
proof (induction n arbitrary: s)
  case 0
  show ?case unfolding rclone_wait.simps by (rule mp.ret)
next
  case (Suc n)
  have h: "triple (task_inv hist body V) evolves P (hook s) (\<lambda>_. P)" using hook P unfolding quiet_hook_def by blast
  have t: "triple (task_inv hist body V) evolves P (\<lambda>w. (Inr (), env_turn V w)) (\<lambda>_. P)"
    by (rule tripleI) (use task_turn mp.stable_turn [OF P] in blast)
  show ?case unfolding rclone_wait.simps by (rule mp.bnd [OF h], rule mp.bnd [OF t], rule Suc.IH)
qed

lemma rclone_run_ok:
  assumes P: "stable (task_inv hist body V) evolves P" and n: "set names \<subseteq> data_names"
  shows "triple (task_inv hist body V) evolves P (rclone_run V bin s d names)
    (\<lambda>out w. P w \<and> (po_success out \<longrightarrow> (\<forall>n \<in> set names. has w AtDest n)))"
proof (rule tripleI)
  fix w r w' assume w: "task_inv hist body V w" "P w" "rclone_run V bin s d names w = (r, w')"
  let ?u = "env_turn V w"
  have u: "task_inv hist body V ?u" "evolves w ?u" "P ?u" using task_turn [OF w(1)] mp.stable_turn [OF P w(1,2)] by blast+
  obtain r1 w1 where r: "me_rclone V bin s d names ?u = (r1, w1)" by fastforce
  have doc: "data_copy body names ?u w1" "\<And>out. r1 = Inr out \<Longrightarrow> po_success out \<Longrightarrow> \<forall>n \<in> set names. has w1 AtDest n"
    using u(1) r unfolding task_inv_def env_ok_def rclone_documented_def by blast+
  have inv: "mirror_inv hist body w1" "evolves ?u w1"
    using data_copy_inv [OF _ doc(1) n] u(1) unfolding task_inv_def by blast+
  have w': "w' = w1\<lparr>w_cache := w_cache w\<rparr>" and res: "\<And>out. r = Inr out \<Longrightarrow> r1 = Inr out"
    using w(3) r by (auto simp: rclone_run_def split: sum.splits)
  have "mirror_inv hist body w'" "evolves ?u w'"
    unfolding w' using inv by simp_all
  then have t: "task_inv hist body V w'" "evolves ?u w'" using u(1) by (simp_all add: task_inv_def w' cache_ok_def)
  moreover have "P w'" using P u(1,3) t unfolding stable_def by blast
  moreover have "evolves w w'" using evolves_trans u(2) t(2) by blast
  ultimately show "task_inv hist body V w' \<and> evolves w w'
      \<and> (\<forall>out. r = Inr out \<longrightarrow> P w' \<and> (po_success out \<longrightarrow> (\<forall>n \<in> set names. has w' AtDest n)))"
    using res doc(2) by (simp add: w')
qed

lemma copier_copy_ok:
  fixes hook :: "'s \<Rightarrow> ('e, 's) act"
  assumes hook: "quiet_hook hist body V hook" and P: "stable (task_inv hist body V) evolves P"
    and sides: "db_side (ck_source c) = AtSource" "db_side (ck_dest c) = AtDest" and V: "streams_ok V"
    and n: "set names \<subseteq> data_names"
  shows "triple (task_inv hist body V) evolves P (copier_copy V c hook fe s names)
    (\<lambda>_ w. P w \<and> (\<forall>n \<in> set names. has w AtDest n))"
proof -
  have n': "set (completion_order V names) \<subseteq> data_names" using n by (simp add: completion_order_set [OF V])
  have built: "triple (task_inv hist body V) evolves P (copy_builtin V c hook fe s names)
      (\<lambda>_ w. P w \<and> (\<forall>n \<in> set names. has w AtDest n))"
    unfolding copy_builtin_def
    by (rule mp.bnd [OF copy_each_ok [OF hook P sides V n']])
       (auto simp: completion_order_set [OF V] split: prod.splits intro: mp.ret)
  have "triple (task_inv hist body V) evolves P
      (bnd (rclone_wait V hook s (me_rclone_turns V names)) (\<lambda>s.
       bnd (map_err (fe []) (rclone_run V bin a b names)) (\<lambda>out.
       if \<not> po_success out then fail (e out) else ret (k, s))))
      (\<lambda>_ w. P w \<and> (\<forall>n \<in> set names. has w AtDest n))" for bin a b e k
    by (rule mp.bnd [OF rclone_wait_ok [OF hook P]], rule mp.bnd [OF mp.map_err [OF rclone_run_ok [OF P n]]])
       (auto intro: mp.ret mp.fail)
  then have "triple (task_inv hist body V) evolves P (copy_rclone V c hook fe s names)
      (\<lambda>_ w. P w \<and> (\<forall>n \<in> set names. has w AtDest n))"
    unfolding copy_rclone_def Let_def by (auto split: sum.splits intro: mp.fail)
  with built show ?thesis unfolding copier_copy_def by (auto intro: mp.ret)
qed

subsection \<open>The pin\<close>

lemma admin_checkpoint_ok:
  assumes P: "stable (task_inv hist body V) evolves P"
    and f: "\<And>w r w'. task_inv hist body V w \<Longrightarrow> f w = (r, w') \<Longrightarrow> source_change body w w'
      \<and> (\<forall>a. r = Inr a \<longrightarrow> Q a w w')"
  shows "triple (task_inv hist body V) evolves P (admin_checkpoint V f)
    (\<lambda>a w'. P w' \<and> (\<exists>w w1. P w \<and> task_inv hist body V w \<and> Q a w w1 \<and> w' = w1\<lparr>w_cache := w_cache w\<rparr>))"
proof (rule mp.admin_checkpoint [OF P])
  fix w r w' assume w: "task_inv hist body V w" "P w" "f w = (r, w')"
  let ?v = "w'\<lparr>w_cache := w_cache w\<rparr>"
  have "mirror_inv hist body w' \<and> evolves w w'"
    using source_change_inv f [OF w(1,3)] w(1) unfolding task_inv_def by blast
  then have "mirror_inv hist body ?v" and ev: "evolves w ?v"
    by simp_all
  then have t: "task_inv hist body V ?v" using w(1) by (simp add: task_inv_def cache_ok_def)
  then have "P ?v" using P w(1,2) ev unfolding stable_def by blast
  then show "task_inv hist body V ?v \<and> evolves w ?v
      \<and> (\<forall>a. r = Inr a \<longrightarrow> P ?v \<and> (\<exists>u w1. P u \<and> task_inv hist body V u \<and> Q a u w1 \<and> ?v = w1\<lparr>w_cache := w_cache u\<rparr>))"
    using t ev w f [OF w(1,3)] by blast
qed

lemma pin_refresh_ok:
  assumes P: "stable (task_inv hist body V) evolves P"
  shows "triple (task_inv hist body V) evolves P (pin_refresh V p) (\<lambda>_. P)"
proof -
  have "triple (task_inv hist body V) evolves P
      (admin_checkpoint V (me_refresh_checkpoint V (pin_id p) (Some (pin_lifetime p)))) (\<lambda>_. P)"
    by (rule mp.conseq [OF admin_checkpoint_ok [OF P, where Q = "\<lambda>_ _ _. True"]])
       (auto simp: task_inv_def env_ok_def checkpoint_calls_def)
  then show ?thesis unfolding pin_refresh_def
    by (rule mp.bnd [OF mp.map_err]) (rule mp.bnd [OF mp.instant mp.ret], auto)
qed

lemma refresh_when_due_quiet: "quiet_hook hist body V (refresh_when_due V)"
  unfolding quiet_hook_def refresh_when_due_def
proof (intro allI impI)
  fix s P assume "stable (task_inv hist body V) evolves P"
  note refresh = pin_refresh_ok [OF this]
  have "triple (task_inv hist body V) evolves P get_instant (\<lambda>_. P)" by (rule mp.instant)
  then show "triple (task_inv hist body V) evolves P
     (bnd get_instant (\<lambda>now. if pin_refresh_due s \<le> now then pin_refresh V s else ret s)) (\<lambda>_. P)"
    by (rule mp.bnd) (use refresh in \<open>auto intro: mp.ret\<close>)
qed

lemma pin_delete_ok:
  assumes P: "stable (task_inv hist body V) evolves P"
  shows "triple (task_inv hist body V) evolves P (pin_delete V p) (\<lambda>_. P)"
proof -
  have "triple (task_inv hist body V) evolves P (admin_checkpoint V (me_delete_checkpoint V (pin_id p))) (\<lambda>_. P)"
    by (rule mp.conseq [OF admin_checkpoint_ok [OF P, where Q = "\<lambda>_ _ _. True"]])
       (auto simp: task_inv_def env_ok_def checkpoint_calls_def)
  then have "triple (task_inv hist body V) evolves (\<lambda>w. P w \<and> P w)
      (attempt (admin_checkpoint V (me_delete_checkpoint V (pin_id p)))) (\<lambda>r w. (\<forall>a. r = Inr a \<longrightarrow> P w) \<and> P w)"
    by (rule mp.frame [OF mp.attempt P])
  then show ?thesis unfolding pin_delete_def
    by (rule mp.bnd [OF mp.pre]) (auto intro: mp.ret)
qed

lemma pin_create_ok:
  assumes P: "stable (task_inv hist body V) evolves P"
  shows "triple (task_inv hist body V) evolves P (pin_create V target lifetime)
    (\<lambda>p w. P w \<and> (\<exists>u. P u \<and> at_most u (pin_manifest_id p)) \<and> (\<forall>K. at_most w K \<longrightarrow> pin_manifest_id p \<le> K))"
proof -
  let ?Q = "\<lambda>mid w. P w \<and> (\<exists>u. P u \<and> at_most u mid) \<and> (\<forall>K. at_most w K \<longrightarrow> mid \<le> K)"
  have "triple (task_inv hist body V) evolves P
      (admin_checkpoint V (me_create_checkpoint V \<lparr>co_lifetime = Some lifetime, co_name = Some (pin_name target)\<rparr>))
      (\<lambda>a. ?Q (snd a))"
  proof (rule mp.conseq [OF admin_checkpoint_ok [OF P, where Q = "\<lambda>a w w'. at_most w (snd a) \<and> snd a \<in> manifest_ids w' AtSource"]])
    fix w r w' assume t: "task_inv hist body V w"
      and "me_create_checkpoint V \<lparr>co_lifetime = Some lifetime, co_name = Some (pin_name target)\<rparr> w = (r, w')"
    moreover have "typed w AtSource" "checkpoint_calls body V"
      using t by (auto simp: task_inv_def mirror_inv_def env_ok_def)
    ultimately have "source_change body w w'"
      and "\<forall>pid mid. r = Inr (pid, mid) \<longrightarrow> at_most w mid \<and> mid \<in> manifest_ids w' AtSource"
      unfolding checkpoint_calls_def by blast+
    then show "source_change body w w' \<and> (\<forall>a. r = Inr a \<longrightarrow> at_most w (snd a) \<and> snd a \<in> manifest_ids w' AtSource)"
      by (metis prod.collapse)
  next
    fix a w assume "P w \<and> (\<exists>u w1. P u \<and> task_inv hist body V u \<and> (at_most u (snd a) \<and> snd a \<in> manifest_ids w1 AtSource)
        \<and> w = w1\<lparr>w_cache := w_cache u\<rparr>)"
    then obtain u w1 where "P w" "P u" "at_most u (snd a)" "snd a \<in> manifest_ids w1 AtSource" "w = w1\<lparr>w_cache := w_cache u\<rparr>"
      by blast
    moreover from this have "snd a \<in> manifest_ids w AtSource" by (simp add: manifest_ids_def)
    ultimately show "?Q (snd a) w" unfolding at_most_def by blast
  qed
  then show ?thesis unfolding pin_create_def
  proof (rule mp.bnd)
    show "triple (task_inv hist body V) evolves (?Q (snd a))
      (case a of (pid, mid) \<Rightarrow> bnd get_instant (\<lambda>now. ret \<lparr>pin_id = pid, pin_manifest_id = mid, pin_lifetime = lifetime,
          pin_refresh_due = now + lifetime div 2, pin_deadline = now + lifetime\<rparr>)) (\<lambda>p. ?Q (pin_manifest_id p))" for a
    proof -
      have "triple (task_inv hist body V) evolves (?Q (snd a)) get_instant (\<lambda>_. ?Q (snd a))" by (rule mp.instant)
      then show ?thesis by (cases a, simp del: split_paired_All split_paired_Ex) (rule mp.bnd, assumption, rule mp.ret, simp)
    qed
  qed
qed

subsection \<open>The commit\<close>

definition staged :: "(nat \<Rightarrow> vmanifest) \<Rightarrow> nat \<Rightarrow> datetime \<Rightarrow> closure \<Rightarrow> nat set \<Rightarrow> world \<Rightarrow> bool" where
  "staged hist L now c present w \<longleftrightarrow>
     now \<le> w_now w \<and> (\<forall>K. at_most w K \<longrightarrow> L \<le> K) \<and> (\<forall>n \<in> names_of (closure_objects c). has w AtDest n)
     \<and> (\<forall>i \<in> present. i \<in> manifest_ids w AtDest)"

lemma stable_staged: "stable (task_inv hist body V) evolves (staged hist L now c present)"
  unfolding staged_def by (intro stable_facts)

lemma live_earlier: "checkpoint_live cp t \<Longrightarrow> t' \<le> t \<Longrightarrow> checkpoint_live cp t'"
  by (auto simp: checkpoint_live_def split: option.splits)

lemma closure_below_head:
  assumes "history_ok hist" and "closure_ok hist L now c" and "i \<in> keys (cl_manifests c)"
  shows "i \<le> L"
  using assms by (auto simp: closure_ok_def history_ok_def)

lemma checkpoint_continues:
  assumes "history_ok hist" and "i \<le> j" and "j \<le> k" and "cp \<in> set (vm_checkpoints (hist i))"
    and "cp' \<in> set (vm_checkpoints (hist k))" and "cp_id cp' = cp_id cp"
  shows "\<exists>c \<in> set (vm_checkpoints (hist j)). cp_id c = cp_id cp \<and> cp_manifest_id c = cp_manifest_id cp
    \<and> (\<forall>t. checkpoint_live cp t \<longrightarrow> checkpoint_live c t)"
  using assms unfolding history_ok_def by blast

lemma commit_supported:
  assumes h: "history_ok hist" and c: "closure_ok hist L now c" and ks: "map fst (cl_manifests c) = pre @ i # ids"
    and st: "staged hist L now c present w" and pre: "\<forall>j \<in> set pre. j \<in> manifest_ids w AtDest" and K: "at_most w K"
  shows "supported hist (w_now w) K i (put_object AtDest (manifest_rel i) b w)"
  unfolding supported_def
proof (intro ballI allI impI, elim conjE)
  fix cp t k cp'
  assume cp: "cp \<in> set (vm_checkpoints (hist i))" and t: "w_now w \<le> t" and k: "K \<le> k"
    and cp': "cp' \<in> set (vm_checkpoints (hist k))" "checkpoint_live cp t" "checkpoint_live cp' t" "cp_id cp' = cp_id cp"
  let ?m = "cp_manifest_id cp"
  have iL: "i \<le> L" by (rule closure_below_head [OF h c]) (simp add: keys_def ks del: set_map)
  have Lk: "L \<le> k" using st K k unfolding staged_def using order_trans by blast
  obtain c' where c': "c' \<in> set (vm_checkpoints (hist L))" "cp_manifest_id c' = ?m" "checkpoint_live c' t"
    using checkpoint_continues [OF h iL Lk cp cp'(1,4)] cp'(2) by blast
  have "now \<le> t" using st t unfolding staged_def by simp
  then have "?m \<in> keys (cl_manifests c)"
    using c c'(1,2) live_earlier [OF c'(3)] unfolding closure_ok_def by (metis (mono_tags, lifting) insertCI mem_Collect_eq)
  then have "?m \<in> set (pre @ i # ids)" by (simp add: keys_def ks del: set_map)
  moreover have "?m \<le> i" using h cp by (simp add: history_ok_def)
  moreover have "sorted_wrt (<) (pre @ i # ids)"
    using c unfolding closure_ok_def members_ok_def bt_wf_def ks [symmetric] by (simp add: sorted_wrt_map)
  ultimately have "?m = i \<or> ?m \<in> set pre" by (auto simp: sorted_wrt_append)
  then show "?m \<in> manifest_ids (put_object AtDest (manifest_rel i) b w) AtDest"
    using pre by (auto simp: manifest_ids_def has_put_object)
qed

lemma source_manifest:
  assumes "task_inv hist body V w" and "held w d (manifest_rel i) = Some x"
  shows "so_bytes x = body (manifest_rel i) \<and> typed_name (manifest_rel i)"
  using assms by (cases d) (auto simp: task_inv_def mirror_inv_def faithful_def typed_def has_def layout_names_def)

lemma create_manifest_ok:
  fixes present :: "nat set"
  assumes h: "history_ok hist" and c: "closure_ok hist L now c" and ks: "map fst (cl_manifests c) = pre @ i # ids"
    and d: "db_side dest = AtDest" and ty: "typed_name (manifest_rel i)"
  defines "S \<equiv> \<lambda>w. staged hist L now c present w \<and> (\<forall>j \<in> set pre. j \<in> manifest_ids w AtDest)"
  shows "triple (task_inv hist body V) evolves S (store_create V dest (manifest_rel i) (body (manifest_rel i)))
    (\<lambda>_ w. S w \<and> i \<in> manifest_ids w AtDest)"
proof -
  have st: "stable (task_inv hist body V) evolves S" unfolding S_def by (intro stable_facts stable_staged)
  show ?thesis
  proof (rule mp.store_create [OF st], unfold d)
    fix w assume w: "task_inv hist body V w" "S w" "\<not> has w AtDest (manifest_rel i)"
    let ?w = "put_object AtDest (manifest_rel i) (body (manifest_rel i)) w"
    have "mirror_inv hist body ?w"
    proof (rule mirror_inv_put)
      show "mirror_inv hist body w" using w(1) by (simp add: task_inv_def)
      show "has w AtDest m" if "manifest_rel i = manifest_rel j" "m \<in> names_of (objects_of (hist j))" for j m
      proof -
        have "j \<in> keys (cl_manifests c)" using that(1) by (simp add: keys_def ks del: set_map)
        moreover have "members_ok hist (cl_manifests c)" using c unfolding closure_ok_def by blast
        ultimately have "m \<in> names_of (closure_objects c)" using that(2) closure_names by blast
        then show ?thesis using w(2) by (simp add: S_def staged_def)
      qed
      show "supported hist (w_now w) K j ?w" if "manifest_rel i = manifest_rel j" "at_most w K" for j K
        using commit_supported [OF h c ks _ _ that(2)] w(2) that(1) by (auto simp: S_def)
    qed (use ty in \<open>simp_all add: layout_names_def\<close>)
    then have t: "task_inv hist body V ?w" using w(1) by (simp add: task_inv_def cache_ok_def)
    moreover have "S ?w" using st w(1,2) t evolves_put unfolding stable_def by blast
    ultimately show "task_inv hist body V ?w \<and> evolves w ?w \<and> S ?w \<and> i \<in> manifest_ids ?w AtDest"
      by (simp add: evolves_put manifest_ids_def has_put_object)
  qed
qed

lemma commit_existing_ok:
  assumes S: "stable (task_inv hist body V) evolves S" and d: "db_side dest = AtDest"
  shows "triple (task_inv hist body V) evolves S
     (bnd (map_err (\<lambda>e. Fatal (MStore e)) (store_get V dest (manifest_rel i))) (\<lambda>get.
      bnd (map_err (\<lambda>e. Fatal (MStore e)) (store_bytes V get)) (\<lambda>existing.
      if existing \<noteq> bs then fail (Fatal (Diverged (db_url dest) i head_id)) else ret False)))
     (\<lambda>_ w. S w \<and> i \<in> manifest_ids w AtDest)"
proof -
  let ?D = "\<lambda>w. S w \<and> i \<in> manifest_ids w AtDest"
  have get: "triple (task_inv hist body V) evolves S (store_get V dest (manifest_rel i)) (\<lambda>x. ?D)"
    by (rule mp.store_get [OF S]) (auto simp: d manifest_ids_def has_def)
  have st: "stable (task_inv hist body V) evolves ?D" by (intro stable_facts S)
  have bytes: "triple (task_inv hist body V) evolves ?D (store_bytes V x) (\<lambda>_. ?D)" for x
    by (rule mp.store_bytes [OF st])
  show ?thesis
    by (rule mp.bnd [OF mp.map_err [OF get]], rule mp.bnd [OF mp.map_err [OF bytes]]) (auto intro: mp.fail mp.ret)
qed

lemma commit_one_ok:
  fixes present :: "nat set"
  assumes h: "history_ok hist" and c: "closure_ok hist L now c" and ks: "map fst (cl_manifests c) = pre @ i # ids"
    and sides: "db_side source = AtSource" "db_side dest = AtDest"
  defines "S \<equiv> \<lambda>w. staged hist L now c present w \<and> (\<forall>j \<in> set pre. j \<in> manifest_ids w AtDest)"
  shows "triple (task_inv hist body V) evolves S (commit_one V source dest head_id i) (\<lambda>_ w. S w \<and> i \<in> manifest_ids w AtDest)"
proof -
  let ?I = "task_inv hist body V" and ?T = "typed_name (manifest_rel i)" and ?b = "body (manifest_rel i)"
  let ?D = "\<lambda>w. S w \<and> i \<in> manifest_ids w AtDest"
  have st: "stable ?I evolves S" unfolding S_def by (intro stable_facts stable_staged)
  have st': "stable ?I evolves (\<lambda>w. S w \<and> C)" for C by (intro mp.stable_conj st mp.stable_const)
  have get: "triple ?I evolves S (store_get V source (manifest_rel i)) (\<lambda>x w. S w \<and> so_bytes x = ?b \<and> ?T)"
    by (rule mp.store_get [OF st]) (use source_manifest in blast)
  have bytes: "triple ?I evolves (\<lambda>w. S w \<and> so_bytes x = ?b \<and> ?T) (store_bytes V x) (\<lambda>bs w. S w \<and> bs = ?b \<and> ?T)" for x
    by (rule mp.store_bytes [OF st']) simp
  have "triple ?I evolves S (store_create V dest (manifest_rel i) ?b) (\<lambda>_. ?D)" if "?T"
    using create_manifest_ok [OF h c ks sides(2) that] unfolding S_def by blast
  then have create: "triple ?I evolves (\<lambda>w. S w \<and> bs = ?b \<and> ?T) (store_create V dest (manifest_rel i) bs) (\<lambda>_. ?D)" for bs
    by (intro mp.pull) simp
  note existing = commit_existing_ok [OF st sides(2), where head_id = head_id and i = i]
  show ?thesis unfolding commit_one_def
    by (rule mp.bnd_attempt [OF get st])
       (auto split: store_error.splits intro!: mp.fail mp.ret mp.bnd [OF mp.map_err [OF bytes]] mp.bnd_attempt [OF create st']
         intro: mp.pre [OF existing])
qed

lemma commit_each_ok:
  fixes present :: "nat set"
  assumes h: "history_ok hist" and c: "closure_ok hist L now c" and sides: "db_side source = AtSource" "db_side dest = AtDest"
  defines "S \<equiv> \<lambda>pre w. staged hist L now c present w \<and> (\<forall>j \<in> set pre. j \<in> manifest_ids w AtDest)"
  shows "map fst (cl_manifests c) = pre @ ids \<Longrightarrow>
    triple (task_inv hist body V) evolves (S pre) (commit_each V source dest present head_id ids n) (\<lambda>_. S (pre @ ids))"
proof (induction ids arbitrary: pre n)
  case Nil
  show ?case unfolding commit_each.simps by (rule mp.ret) simp
next
  case (Cons i ids)
  have snoc: "S pre w \<and> i \<in> manifest_ids w AtDest \<Longrightarrow> S (pre @ [i]) w" for w by (simp add: S_def)
  have ih: "triple (task_inv hist body V) evolves (S (pre @ [i])) (commit_each V source dest present head_id ids k)
      (\<lambda>_. S (pre @ i # ids))" for k
    using Cons.IH [of "pre @ [i]"] Cons.prems by simp
  have one: "triple (task_inv hist body V) evolves (S pre) (commit_one V source dest head_id i)
      (\<lambda>_ w. S pre w \<and> i \<in> manifest_ids w AtDest)"
    unfolding S_def by (rule commit_one_ok [OF h c Cons.prems sides])
  show ?case
  proof (cases "i \<in> present")
    case True
    show ?thesis unfolding commit_each.simps if_P [OF True]
      by (rule mp.pre [OF ih]) (use True in \<open>auto simp: S_def staged_def\<close>)
  next
    case False
    show ?thesis unfolding commit_each.simps if_not_P [OF False]
      by (rule mp.bnd [OF one mp.pre [OF ih]]) (rule snoc)
  qed
qed

lemma stable_restorable: "stable (task_inv hist body V) evolves (\<lambda>w. restorable hist w i)"
  unfolding stable_def
proof (intro allI impI, elim conjE)
  fix w w' assume ev: "evolves w w'" and r: "restorable hist w i"
  have live: "checkpoint_live cp (w_now w') \<Longrightarrow> checkpoint_live cp (w_now w)" for cp
    using ev live_earlier unfolding evolves_def by blast
  have keep: "has w AtDest n \<Longrightarrow> has w' AtDest n" for n using ev unfolding evolves_def by blast
  show "restorable hist w' i"
    using r keep live unfolding restorable_def manifest_ids_def mem_Collect_eq by meson
qed

definition reached :: "nat \<Rightarrow> world \<Rightarrow> bool" where
  "reached L w \<longleftrightarrow> (\<forall>K. at_most w K \<longrightarrow> L \<le> K)"

lemma stable_reached: "stable (task_inv hist body V) evolves (reached L)"
  unfolding reached_def by (rule stable_source_reached)

definition pass_done :: "(nat \<Rightarrow> vmanifest) \<Rightarrow> world \<Rightarrow> pass_outcome \<Rightarrow> world \<Rightarrow> bool" where
  "pass_done hist w0 out w \<longleftrightarrow>
     restorable hist w (pc_head out) \<and> at_most w0 (pc_head out)
     \<and> pc_next_wal_sst_id out = vm_next_wal_sst_id (hist (pc_head out))"

lemma stable_pass_done: "stable (task_inv hist body V) evolves (pass_done hist w0 out)"
  unfolding pass_done_def by (intro stable_facts stable_restorable)

lemma restorableI:
  assumes "task_inv hist body V w" and "L \<in> manifest_ids w AtDest"
    and "\<And>cp. cp \<in> set (vm_checkpoints (hist L)) \<Longrightarrow> checkpoint_live cp (w_now w) \<Longrightarrow> cp_manifest_id cp \<in> manifest_ids w AtDest"
  shows "restorable hist w L"
  unfolding restorable_def using assms complete_has [OF assms(1)] by blast

lemma committed_restorable:
  assumes w: "task_inv hist body V w" and c: "closure_ok hist L now c" and st: "staged hist L now c present w"
    and all: "\<forall>i \<in> set (map fst (cl_manifests c)). i \<in> manifest_ids w AtDest"
  shows "restorable hist w L"
proof (rule restorableI [OF w])
  have at: "i \<in> keys (cl_manifests c) \<Longrightarrow> i \<in> manifest_ids w AtDest" for i using all by (auto simp: keys_def)
  show "L \<in> manifest_ids w AtDest" using at c unfolding closure_ok_def by blast
  fix cp assume cp: "cp \<in> set (vm_checkpoints (hist L))" "checkpoint_live cp (w_now w)"
  have "checkpoint_live cp now" using live_earlier [OF cp(2)] st unfolding staged_def by blast
  then show "cp_manifest_id cp \<in> manifest_ids w AtDest" using at c cp(1) unfolding closure_ok_def by blast
qed

lemma commit_ok:
  assumes h: "history_ok hist" and sides: "db_side source = AtSource" "db_side dest = AtDest" and w0: "at_most w0 L"
  shows "triple (task_inv hist body V) evolves
    (\<lambda>w. diff_ok hist L d w \<and> reached L w \<and> (\<forall>n \<in> names_of (df_candidates d). has w AtDest n))
    (commit V source dest d (hist L) copied) (pass_done hist w0)"
proof (rule mp.pre [OF mp.ex_pre])
  let ?c = "df_closure d"
  let ?P = "\<lambda>now w. staged hist L now ?c (df_present d) w \<and> closure_ok hist L now ?c"
  fix now
  have id: "vm_id (hist L) = L" using h by (simp add: history_ok_def)
  show "triple (task_inv hist body V) evolves (?P now) (commit V source dest d (hist L) copied) (pass_done hist w0)"
  proof (rule mp.pull)
    assume c: "closure_ok hist L now ?c"
    note each = commit_each_ok [OF h c sides, where pre = "[]" and ids = "map fst (cl_manifests ?c)", simplified]
    show "triple (task_inv hist body V) evolves (staged hist L now ?c (df_present d))
        (commit V source dest d (hist L) copied) (pass_done hist w0)"
      unfolding commit_def id
    proof (rule mp.bnd [OF each], rule mp.ret)
      fix n w assume w: "task_inv hist body V w"
        and q: "staged hist L now ?c (df_present d) w \<and> (\<forall>e \<in> set (cl_manifests ?c). fst e \<in> manifest_ids w AtDest)"
      have "restorable hist w L" by (rule committed_restorable [OF w c]) (use q in auto)
      then show "pass_done hist w0 \<lparr>pc_head = L, pc_next_wal_sst_id = vm_next_wal_sst_id (hist L), pc_committed = True,
          pc_manifests_committed = n, pc_copied = copied\<rparr> w" using w0 by (simp add: pass_done_def)
    qed
  qed
next
  fix w assume "diff_ok hist L d w \<and> reached L w \<and> (\<forall>n \<in> names_of (df_candidates d). has w AtDest n)"
  then show "\<exists>now. staged hist L now (df_closure d) (df_present d) w \<and> closure_ok hist L now (df_closure d)"
    unfolding diff_ok_def staged_def reached_def by blast
qed

subsection \<open>The pass\<close>

definition ready :: "(nat \<Rightarrow> vmanifest) \<Rightarrow> world \<Rightarrow> datetime \<Rightarrow> vmanifest option \<Rightarrow> nat \<Rightarrow> world \<Rightarrow> bool" where
  "ready hist w0 T wm L w \<longleftrightarrow> watermark_ok hist T L wm w \<and> reached L w \<and> at_most w0 L"

lemma stable_ready: "stable (task_inv hist body V) evolves (ready hist w0 T wm L)"
  unfolding ready_def by (intro stable_facts stable_watermark stable_reached)

lemma diff_and_plan_ok:
  assumes h: "history_ok hist" and V: "streams_ok V" and d: "db_side dest = AtDest" "ck_dest c = dest"
    and f: "\<And>df work. set work \<subseteq> data_names \<Longrightarrow> triple (task_inv hist body V) evolves
      (\<lambda>w. ready hist w0 T wm L w \<and> diff_ok hist L df w \<and> (\<forall>n \<in> names_of (df_candidates df) - set work. has w AtDest n))
      (f df work) Q"
  shows "triple (task_inv hist body V) evolves (ready hist w0 T wm L)
    (bnd (diff_against_watermark V source (hist L) wm) (\<lambda>df.
     bnd (map_err Fatal (plan_work V c dest df (wm = None))) (f df))) Q"
proof (rule mp.bnd)
  show "triple (task_inv hist body V) evolves (ready hist w0 T wm L) (diff_against_watermark V source (hist L) wm)
      (\<lambda>df w. ready hist w0 T wm L w \<and> diff_ok hist L df w)"
    by (rule mp.conseq [OF diff_against_watermark_ok [OF stable_ready h order_refl]]) (auto simp: ready_def)
  fix df
  have st: "stable (task_inv hist body V) evolves (\<lambda>w. ready hist w0 T wm L w \<and> diff_ok hist L df w)"
    by (intro stable_facts stable_ready stable_diff)
  show "triple (task_inv hist body V) evolves (\<lambda>w. ready hist w0 T wm L w \<and> diff_ok hist L df w)
      (bnd (map_err Fatal (plan_work V c dest df (wm = None))) (f df)) Q"
  proof (cases "finite_objects (df_candidates df)")
    case True
    show ?thesis
    proof (rule mp.bnd [OF mp.map_err [OF plan_work_ok [OF st d V True]]])
      fix work
      have "triple (task_inv hist body V) evolves
        (\<lambda>w. (ready hist w0 T wm L w \<and> diff_ok hist L df w \<and> (\<forall>n \<in> names_of (df_candidates df) - set work. has w AtDest n))
           \<and> set work \<subseteq> names_of (df_candidates df)) (f df work) Q"
        by (rule mp.pull, rule f) (use names_of_data in blast)
      then show "triple (task_inv hist body V) evolves
        (\<lambda>w. (ready hist w0 T wm L w \<and> diff_ok hist L df w) \<and> set work \<subseteq> names_of (df_candidates df)
           \<and> (\<forall>n \<in> names_of (df_candidates df) - set work. has w AtDest n)) (f df work) Q"
        by (rule mp.pre) blast
    qed
  qed (auto simp: triple_def diff_ok_def)
qed

lemma copy_and_commit_ok:
  assumes h: "history_ok hist" and V: "streams_ok V" and sides: "db_side source = AtSource" "db_side dest = AtDest"
    and c: "ck_source c = source" "ck_dest c = dest" and w: "set work \<subseteq> data_names" and w0: "at_most w0 L"
  shows "triple (task_inv hist body V) evolves
    (\<lambda>w. (diff_ok hist L d w \<and> reached L w) \<and> (\<forall>n \<in> names_of (df_candidates d) - set work. has w AtDest n))
    (copy_and_commit V source dest c d (hist L) work p)
    (pass_done hist w0)"
proof -
  let ?P = "\<lambda>w. (diff_ok hist L d w \<and> reached L w) \<and> (\<forall>n \<in> names_of (df_candidates d) - set work. has w AtDest n)"
  let ?C = "\<lambda>w. diff_ok hist L d w \<and> reached L w \<and> (\<forall>n \<in> names_of (df_candidates d). has w AtDest n)"
  have st: "stable (task_inv hist body V) evolves ?P" by (intro stable_facts stable_diff stable_reached)
  have "triple (task_inv hist body V) evolves ?P (copy_under_pin V c work p) (\<lambda>_ w. ?P w \<and> (\<forall>n \<in> set work. has w AtDest n))"
    unfolding copy_under_pin_def by (rule copier_copy_ok [OF refresh_when_due_quiet st _ _ V w]) (simp_all add: c sides)
  then have copy: "triple (task_inv hist body V) evolves ?P (copy_under_pin V c work p) (\<lambda>_. ?C)"
    by (rule mp.conseq) blast+
  have lapsed: "triple (task_inv hist body V) evolves ?C (pin_lapsed p') (\<lambda>_. ?C)" for p'
    unfolding pin_lapsed_def by (rule mp.bnd [OF mp.instant mp.ret])
  show ?thesis unfolding copy_and_commit_def
  proof (rule mp.bnd [OF copy])
    fix cp
    have "triple (task_inv hist body V) evolves ?C
      (bnd (pin_lapsed p') (\<lambda>lapsed. if lapsed then fail (Restart ''pin lapsed before commit'')
        else commit V source dest d (hist L) cd)) (pass_done hist w0)" for p' cd
      by (rule mp.bnd [OF lapsed]) (simp add: mp.fail commit_ok [OF h sides w0])
    then show "triple (task_inv hist body V) evolves ?C
      (case cp of (copied, p) \<Rightarrow> bnd (pin_lapsed p) (\<lambda>lapsed. if lapsed then fail (Restart ''pin lapsed before commit'')
        else commit V source dest d (hist L) copied)) (pass_done hist w0)" by (cases cp) simp
  qed
qed

lemma ready_later:
  assumes "ready hist w0 T wm L w" and "L \<le> M" and "reached M w"
  shows "ready hist w0 T wm M w"
proof -
  have "watermark_ok hist T M wm w"
    using assms(1,2) supported_mono [of hist T L _ w T M w] unfolding ready_def watermark_ok_def by blast
  then show ?thesis using assms unfolding ready_def at_most_def by (meson order_trans)
qed

lemma unpin_after_ok:
  assumes m: "triple (task_inv hist body V) evolves P m (pass_done hist w0)"
  shows "triple (task_inv hist body V) evolves P (unpin_after V p m) (pass_done hist w0)"
  unfolding unpin_after_def
proof (rule mp.bnd [OF mp.attempt [OF m]])
  fix r :: "'b + pass_outcome"
  have "stable (task_inv hist body V) evolves (\<lambda>w. \<forall>out. r = Inr out \<longrightarrow> pass_done hist w0 out w)"
    by (intro stable_facts stable_pass_done)
  note unpin = pin_delete_ok [OF this]
  show "triple (task_inv hist body V) evolves (\<lambda>w. \<forall>out. r = Inr out \<longrightarrow> pass_done hist w0 out w)
      (bnd (pin_delete V p) (\<lambda>_. case r of Inl e \<Rightarrow> fail e | Inr outcome \<Rightarrow> ret outcome)) (pass_done hist w0)"
    by (rule mp.bnd [OF unpin]) (auto split: sum.splits intro: mp.fail mp.ret)
qed

lemma pin_ready:
  "triple (task_inv hist body V) evolves (ready hist w0 T wm L) (pin_create V target lifetime)
     (\<lambda>p. ready hist w0 T wm (pin_manifest_id p))"
proof (rule mp.conseq [OF pin_create_ok [OF stable_ready]])
  fix p :: pin and w
  assume q: "ready hist w0 T wm L w \<and> (\<exists>u. ready hist w0 T wm L u \<and> at_most u (pin_manifest_id p))
      \<and> (\<forall>K. at_most w K \<longrightarrow> pin_manifest_id p \<le> K)"
  then have "L \<le> pin_manifest_id p" unfolding ready_def reached_def by blast
  then show "ready hist w0 T wm (pin_manifest_id p) w" using q ready_later unfolding reached_def by blast
qed

lemma pinned_pass_ok:
  assumes h: "history_ok hist" and V: "streams_ok V" and sides: "db_side source = AtSource" "db_side dest = AtDest"
    and c: "ck_source c = source" "ck_dest c = dest"
  shows "triple (task_inv hist body V) evolves (ready hist w0 T wm L)
    (pinned_pass V source dest target settings c wm) (pass_done hist w0)"
  unfolding pinned_pass_def
proof (rule mp.bnd [OF mp.map_err [OF pin_ready]])
  fix p :: pin
  let ?M = "pin_manifest_id p"
  let ?f = "\<lambda>head. bnd (diff_against_watermark V source head wm) (\<lambda>d.
         bnd (map_err Fatal (plan_work V c dest d (wm = None))) (\<lambda>work.
         unpin_after V p (copy_and_commit V source dest c d head work p)))"
  let ?gone = "bnd (pin_delete V p) (\<lambda>_. fail (Restart ''the pin's own manifest already vanished''))"
  have st: "stable (task_inv hist body V) evolves (ready hist w0 T wm ?M)" by (rule stable_ready)
  have body: "triple (task_inv hist body V) evolves
      (\<lambda>w. ((diff_ok hist ?M d w \<and> reached ?M w) \<and> (\<forall>n \<in> names_of (df_candidates d) - set work. has w AtDest n)) \<and> at_most w0 ?M)
      (unpin_after V p (copy_and_commit V source dest c d (hist ?M) work p)) (pass_done hist w0)"
    if "set work \<subseteq> data_names" for d work
    by (rule unpin_after_ok, rule mp.pull) (rule copy_and_commit_ok [OF h V sides c that])
  have some: "triple (task_inv hist body V) evolves (ready hist w0 T wm ?M) (?f (hist ?M)) (pass_done hist w0)"
    by (rule diff_and_plan_ok [OF h V sides(2) c(2)], rule mp.pre [OF body]) (auto simp: ready_def)
  have none: "triple (task_inv hist body V) evolves (ready hist w0 T wm ?M) ?gone (pass_done hist w0)"
    by (rule mp.bnd [OF pin_delete_ok [OF st] mp.fail])
  show "triple (task_inv hist body V) evolves (ready hist w0 T wm ?M)
     (bnd (map_err Fatal (cache_read V source ?M)) (\<lambda>r. case r of None \<Rightarrow> ?gone | Some head \<Rightarrow> ?f head)) (pass_done hist w0)"
  proof (rule mp.bnd [OF mp.map_err [OF cache_read_ok [OF st]]])
    fix r
    show "triple (task_inv hist body V) evolves (\<lambda>w. ready hist w0 T wm ?M w \<and> (\<forall>m. r = Some m \<longrightarrow> m = hist ?M))
      (case r of None \<Rightarrow> ?gone | Some head \<Rightarrow> ?f head) (pass_done hist w0)"
    proof (cases r)
      case None
      show ?thesis unfolding None option.case by (rule mp.pre [OF none]) blast
    next
      case (Some m)
      have "triple (task_inv hist body V) evolves (\<lambda>w. ready hist w0 T wm ?M w \<and> m = hist ?M) (?f m) (pass_done hist w0)"
        by (rule mp.pull) (use some in simp)
      then show ?thesis unfolding Some option.case by (rule mp.pre) blast
    qed
  qed
qed

definition marked :: "(nat \<Rightarrow> vmanifest) \<Rightarrow> world \<Rightarrow> vmanifest option \<Rightarrow> world \<Rightarrow> bool" where
  "marked hist w0 wm w \<longleftrightarrow>
     (\<exists>T. \<forall>K. at_most w K \<longrightarrow> watermark_ok hist T K wm w) \<and> evolves w0 w"

lemma stable_marked: "stable (task_inv hist body V) evolves (marked hist w0 wm)"
  unfolding stable_def
proof (intro allI impI, elim conjE)
  fix w w' assume w: "task_inv hist body V w" "task_inv hist body V w'" "evolves w w'" and m: "marked hist w0 wm w"
  obtain T where T: "\<And>K. at_most w K \<Longrightarrow> watermark_ok hist T K wm w" using m unfolding marked_def by blast
  have "at_most w' K \<Longrightarrow> watermark_ok hist T K wm w'" for K
  proof -
    assume "at_most w' K"
    then have "watermark_ok hist T K wm w" using T w(3) unfolding evolves_def by blast
    then show "watermark_ok hist T K wm w'" using stable_watermark [of hist body V T K wm] w unfolding stable_def by blast
  qed
  then show "marked hist w0 wm w'" using m w(3) evolves_trans unfolding marked_def by blast
qed

lemma read_watermark_ok:
  assumes d: "db_side dest = AtDest"
  shows "triple (task_inv hist body V) evolves (evolves w0) (admin_read_manifest V dest None) (marked hist w0)"
proof (rule mp.admin_read_manifest [OF mp.stable_since])
  fix w wm assume w: "task_inv hist body V w" "evolves w0 w" "me_read_manifest V w (db_side dest) None = Inr wm"
  have "watermark_ok hist (w_now w) K wm w" if K: "at_most w K" for K
    unfolding watermark_ok_def
  proof (intro conjI allI impI)
    fix m assume "wm = Some m"
    then obtain W where "newest w AtDest W" "m = hist W" using read_newest [OF w(1)] w(3) d by metis
    then show "\<exists>W. m = hist W \<and> W \<in> manifest_ids w AtDest \<and> supported hist (w_now w) K W w"
      using w(1) K unfolding task_inv_def mirror_inv_def newest_def by blast
  qed simp
  then show "marked hist w0 wm w" using w(2) unfolding marked_def by blast
qed

lemma read_head_ok:
  assumes s: "db_side source = AtSource"
  shows "triple (task_inv hist body V) evolves (marked hist w0 wm) (read_head V source)
    (\<lambda>head w. head = hist (vm_id head) \<and> (\<exists>T. ready hist w0 T wm (vm_id head) w))"
  unfolding read_head_def
proof (rule mp.bnd [OF mp.admin_read_manifest [OF stable_marked]])
  let ?Q = "\<lambda>r w. \<forall>head. r = Some head \<longrightarrow> head = hist (vm_id head) \<and> (\<exists>T. ready hist w0 T wm (vm_id head) w)"
  show "?Q r w" if w: "task_inv hist body V w" "marked hist w0 wm w" "me_read_manifest V w (db_side source) None = Inr r" for w r
  proof (intro allI impI)
    fix head assume "r = Some head"
    then obtain L where L: "newest w AtSource L" "head = hist L" using read_newest [OF w(1)] w(3) s by metis
    have id: "vm_id head = L" using w(1) L(2) by (simp add: task_inv_def env_ok_def history_ok_def)
    have most: "at_most w L" and "reached L w" using L(1) unfolding newest_def at_most_def reached_def by blast+
    moreover obtain T where "watermark_ok hist T L wm w" using w(2) most unfolding marked_def by blast
    moreover have "at_most w0 L" using w(2) most unfolding marked_def evolves_def by blast
    ultimately show "head = hist (vm_id head) \<and> (\<exists>T. ready hist w0 T wm (vm_id head) w)"
      unfolding ready_def id using L(2) by blast
  qed
  show "triple (task_inv hist body V) evolves (?Q r) (case r of None \<Rightarrow> fail (NotADatabase (db_url source)) | Some head \<Rightarrow> ret head)
     (\<lambda>head w. head = hist (vm_id head) \<and> (\<exists>T. ready hist w0 T wm (vm_id head) w))" for r
    by (cases r) (simp_all add: mp.fail, rule mp.ret, blast)
qed

lemma caught_up:
  assumes w: "task_inv hist body V w" and r: "ready hist w0 T (Some m) L w" and "vm_id m = L"
  shows "restorable hist w L"
proof -
  obtain W where W: "m = hist W" "W \<in> manifest_ids w AtDest" "supported hist T L W w" and T: "T \<le> w_now w"
    using r unfolding ready_def watermark_ok_def by blast
  have "W = L" using assms(3) W(1) w by (simp add: task_inv_def env_ok_def history_ok_def)
  then have "cp \<in> set (vm_checkpoints (hist L)) \<Longrightarrow> checkpoint_live cp (w_now w) \<Longrightarrow> cp_manifest_id cp \<in> manifest_ids w AtDest" for cp
    using supported_get [OF W(3), of cp "w_now w" L cp] T by simp
  then show ?thesis using restorableI [OF w] W(2) \<open>W = L\<close> by blast
qed

lemma advance_same:
  assumes "vm_id m = vm_id head" and hd: "head = hist (vm_id head)"
  shows "triple (task_inv hist body V) evolves (ready hist w0 T (Some m) (vm_id head))
    (ret \<lparr>pc_head = vm_id head, pc_next_wal_sst_id = vm_next_wal_sst_id head, pc_committed = False,
          pc_manifests_committed = 0, pc_copied = nothing_copied\<rparr>) (pass_done hist w0)"
proof (rule mp.ret)
  fix w assume w: "task_inv hist body V w" "ready hist w0 T (Some m) (vm_id head) w"
  have "vm_next_wal_sst_id head = vm_next_wal_sst_id (hist (vm_id head))" using hd by (rule arg_cong)
  then show "pass_done hist w0 \<lparr>pc_head = vm_id head, pc_next_wal_sst_id = vm_next_wal_sst_id head, pc_committed = False,
      pc_manifests_committed = 0, pc_copied = nothing_copied\<rparr> w"
    using caught_up [OF w assms(1)] w(2) by (simp add: pass_done_def ready_def)
qed

lemma commit_or_pin_ok:
  assumes h: "history_ok hist" and V: "streams_ok V" and sides: "db_side source = AtSource" "db_side dest = AtDest"
    and c: "ck_source c = source" "ck_dest c = dest"
  shows "triple (task_inv hist body V) evolves
    (\<lambda>w. ready hist w0 T wm L w \<and> diff_ok hist L d w \<and> (\<forall>n \<in> names_of (df_candidates d) - set work. has w AtDest n))
    (if work = [] then commit V source dest d (hist L) nothing_copied
     else pinned_pass V source dest target settings c wm) (pass_done hist w0)"
proof (cases "work = []")
  case True
  have "triple (task_inv hist body V) evolves
    (\<lambda>w. (diff_ok hist L d w \<and> reached L w \<and> (\<forall>n \<in> names_of (df_candidates d). has w AtDest n)) \<and> at_most w0 L)
    (commit V source dest d (hist L) nothing_copied) (pass_done hist w0)"
    by (rule mp.pull) (rule commit_ok [OF h sides])
  then show ?thesis unfolding True by (simp, elim mp.pre) (auto simp: ready_def)
next
  case False
  then show ?thesis by (simp, intro mp.pre [OF pinned_pass_ok [OF h V sides c]]) auto
qed

lemma advance_target_ok:
  assumes h: "history_ok hist" and V: "streams_ok V" and sides: "db_side source = AtSource" "db_side dest = AtDest"
    and c: "ck_source c = source" "ck_dest c = dest" and hd: "head = hist (vm_id head)"
  shows "triple (task_inv hist body V) evolves (ready hist w0 T wm (vm_id head))
    (advance_target V source dest target settings c wm head) (pass_done hist w0)"
proof -
  have "triple (task_inv hist body V) evolves (ready hist w0 T wm (vm_id head))
    (bnd (diff_against_watermark V source (hist (vm_id head)) wm) (\<lambda>d.
     bnd (map_err Fatal (plan_work V c dest d (wm = None))) (\<lambda>work.
     if work = [] then commit V source dest d (hist (vm_id head)) nothing_copied
     else pinned_pass V source dest target settings c wm))) (pass_done hist w0)"
    by (rule diff_and_plan_ok [OF h V sides(2) c(2)]) (rule commit_or_pin_ok [OF h V sides c])
  note tail = this [unfolded hd [symmetric]]
  show ?thesis
  proof (cases wm)
    case None
    show ?thesis using tail unfolding None advance_target_def by simp
  next
    case (Some m)
    consider "vm_id head < vm_id m" | "vm_id m = vm_id head" | "vm_id m < vm_id head" by linarith
    then show ?thesis
    proof cases
      case 2
      show ?thesis using advance_same [where hist = hist, OF 2 hd] Some 2 by (simp add: advance_target_def)
    next
      case 3
      then show ?thesis using tail unfolding Some advance_target_def by simp
    qed (simp add: Some advance_target_def mp.fail)
  qed
qed

lemma pass_once_ok:
  assumes "history_ok hist" and "streams_ok V" and sides: "db_side source = AtSource" "db_side dest = AtDest"
    and "ck_source c = source" "ck_dest c = dest"
  shows "triple (task_inv hist body V) evolves (evolves w0) (pass_once V source dest target settings c) (pass_done hist w0)"
  unfolding pass_once_def
proof (rule mp.bnd [OF mp.map_err [OF read_watermark_ok [OF sides(2)]]],
    rule mp.bnd [OF mp.map_err [OF read_head_ok [OF sides(1)]]])
  fix wm :: "vmanifest option" and head :: vmanifest
  let ?H = "\<lambda>w. head = hist (vm_id head) \<and> (\<exists>T. ready hist w0 T wm (vm_id head) w)"
  have check: "triple (task_inv hist body V) evolves ?H (lift_result (check_source (db_url source) head)) (\<lambda>_. ?H)"
    unfolding lift_result_def by (cases "check_source (db_url source) head") (simp_all add: mp.fail mp.ret)
  have "triple (task_inv hist body V) evolves (\<lambda>w. (\<exists>T. ready hist w0 T wm (vm_id head) w) \<and> head = hist (vm_id head))
      (advance_target V source dest target settings c wm head) (pass_done hist w0)"
    by (rule mp.pull, rule mp.ex_pre) (rule advance_target_ok [OF assms])
  then have advance: "triple (task_inv hist body V) evolves ?H
      (advance_target V source dest target settings c wm head) (pass_done hist w0)" by (rule mp.pre) blast
  show "triple (task_inv hist body V) evolves ?H
     (bnd (map_err Fatal (lift_result (check_source (db_url source) head))) (\<lambda>_.
      advance_target V source dest target settings c wm head)) (pass_done hist w0)"
    by (rule mp.bnd [OF mp.map_err [OF check] advance])
qed

lemma sync_attempts_ok:
  assumes "history_ok hist" and "streams_ok V" and "db_side source = AtSource" "db_side dest = AtDest"
    and "ck_source c = source" "ck_dest c = dest"
  shows "triple (task_inv hist body V) evolves (evolves w0)
    (sync_attempts n reason V source dest target settings c) (pass_done hist w0)"
proof (induction n arbitrary: reason)
  case 0
  show ?case unfolding sync_attempts.simps by (rule mp.fail)
next
  case (Suc n)
  note pass = pass_once_ok [OF assms, where target = target and settings = settings and body = body]
  have "triple (task_inv hist body V) evolves (evolves w0) (attempt (pass_once V source dest target settings c))
      (\<lambda>r w. (\<forall>out. r = Inr out \<longrightarrow> pass_done hist w0 out w) \<and> evolves w0 w)"
    by (rule mp.pre [OF mp.frame [OF mp.attempt [OF pass] mp.stable_since]]) simp
  then show ?case unfolding sync_attempts.simps
  proof (rule mp.bnd)
    fix r :: "pass_error + pass_outcome"
    show "triple (task_inv hist body V) evolves (\<lambda>w. (\<forall>out. r = Inr out \<longrightarrow> pass_done hist w0 out w) \<and> evolves w0 w)
      (case r of Inl (Restart reason) \<Rightarrow> sync_attempts n reason V source dest target settings c
       | Inl (Fatal e) \<Rightarrow> fail e | Inr outcome \<Rightarrow> ret outcome) (pass_done hist w0)"
      by (cases r) (auto split: pass_error.splits intro: mp.fail mp.ret mp.pre [OF Suc.IH])
  qed
qed

lemma sync_pass_ok:
  assumes "history_ok hist" and "streams_ok V" and "db_side source = AtSource" "db_side dest = AtDest"
  shows "triple (task_inv hist body V) evolves (evolves w0)
    (sync_pass V source dest target settings rclone) (pass_done hist w0)"
  unfolding sync_pass_def
proof (rule mp.bnd)
  show "triple (task_inv hist body V) evolves (evolves w0) cache_reset (\<lambda>_. evolves w0)"
    by (rule tripleI) (auto simp: cache_reset_def task_inv_def cache_ok_def evolves_refl)
  show "triple (task_inv hist body V) evolves (evolves w0)
     (sync_attempts MAX_RESTARTS [] V source dest target settings (copier_new settings rclone source dest)) (pass_done hist w0)"
    by (rule sync_attempts_ok [OF assms]) (simp_all add: copier_new_def)
qed

lemma sync_pass_run:
  assumes "env_ok hist body V" and "mirror_inv hist body w" and "db_side source = AtSource" and "db_side dest = AtDest"
    and "sync_pass V source dest target settings rclone w = (r, w')"
  shows "mirror_inv hist body w' \<and> evolves w w' \<and> (\<forall>out. r = Inr out \<longrightarrow> pass_done hist w out w')"
proof -
  let ?w = "w\<lparr>w_cache := Map.empty\<rparr>"
  have hv: "history_ok hist" "streams_ok V" using assms(1) by (simp_all add: env_ok_def)
  have t: "task_inv hist body V ?w" using assms(1,2) by (simp add: task_inv_def cache_ok_def)
  have e: "evolves w ?w" by (simp add: evolves_refl)
  have "sync_pass V source dest target settings rclone ?w = (r, w')"
    using assms(5) by (simp add: sync_pass_def bnd_def cache_reset_def)
  from tripleD [OF sync_pass_ok [OF hv assms(3,4)] t e this] show ?thesis
    using evolves_trans [OF e] unfolding task_inv_def by blast
qed

text \<open>
  C1. Crash safety of the sync pass. Whatever the environment does between requests, wherever
  requests fail, and whatever the pass returns, the target is a mirror afterwards if it was one
  before: every object at it is the source's byte for byte, every manifest at it has all its data
  objects, and no object the target held is gone. So stopping the pass at any request never leaves
  a manifest that points at missing data.
\<close>

theorem sync_pass_crash_safe:
  assumes "env_ok hist body V" and "mirror_inv hist body w" and "db_side source = AtSource" and "db_side dest = AtDest"
    and "sync_pass V source dest target settings rclone w = (r, w')"
  shows "mirror_inv hist body w' \<and> (\<forall>n. has w AtDest n \<longrightarrow> has w' AtDest n)"
  using sync_pass_run [OF assms] unfolding evolves_def by blast

text \<open>
  C5. A pass that returns success has caught up: the head it reports is at least every manifest
  the source had when the pass started, and the target holds that manifest, all data objects it
  references, and for each of its live checkpoints the pinned manifest with all its data objects,
  so the target can be opened or restored at the reported head. The tail floor it reports is that
  manifest's.
\<close>

theorem sync_pass_catches_up:
  assumes "env_ok hist body V" and "mirror_inv hist body w" and "db_side source = AtSource" and "db_side dest = AtDest"
    and "sync_pass V source dest target settings rclone w = (Inr out, w')"
  shows "restorable hist w' (pc_head out) \<and> (\<forall>i \<in> manifest_ids w AtSource. i \<le> pc_head out)
    \<and> pc_next_wal_sst_id out = vm_next_wal_sst_id (hist (pc_head out))"
  using sync_pass_run [OF assms] unfolding pass_done_def at_most_def by blast

subsection \<open>The pass on a concrete database\<close>

lemma demo_objects: "objects_of (demo_hist i) = \<lparr>mo_compacted = {}, mo_wal = {1}\<rparr>"
  by (auto simp: objects_of_def demo_hist_def no_objects_def tree_objects_def)

lemmas demo_eval = demo_read_def demo_max_def demo_ids_def List.map_filter_simps demo_foreign manifest_name_roundtrip has_def held_def
  demo_stored_def demo_create_def demo_objects put_object_def

lemma demo_hist_sel [simp]: "vm_id (demo_hist i) = i" "vm_checkpoints (demo_hist i) = []" "vm_external_dbs (demo_hist i) = []"
  "vm_wal_object_store_uri (demo_hist i) = None" "vm_next_wal_sst_id (demo_hist i) = 2"
  by (simp_all add: demo_hist_def)

lemma first_attempt:
  assumes "pass_once V source dest target settings (copier_new settings rclone source dest) (w\<lparr>w_cache := Map.empty\<rparr>) = (Inr out, w')"
  shows "sync_pass V source dest target settings rclone w = (Inr out, w')"
  using assms by (simp add: sync_pass_def bnd_def cache_reset_def MAX_RESTARTS_def attempt_def ret_def numeral_eq_Suc)

lemma demo_env_sel [simp]:
  "env_turn demo_env w = w\<lparr>w_requests := Suc (w_requests w)\<rparr>" "me_fault demo_env n = None"
  "me_order demo_env k = [0..<k]" "me_read_manifest demo_env = demo_read" "me_create_checkpoint demo_env = demo_create"
  "me_delete_checkpoint demo_env c w = (Inr (), w)"
  by (simp_all add: demo_env_def env_turn_def)

lemma demo_handles [simp]: "db_side demo_source = AtSource" "db_side demo_dest = AtDest"
  by (simp_all add: demo_source_def demo_dest_def)

lemma demo_wal_size: "length (wal_rel (Suc 0)) = 28" "28 \<le> MULTIPART_THRESHOLD"
  by (simp_all add: wal_rel_def WAL_DIR_def length_fmt_020 MULTIPART_THRESHOLD_def)

lemmas run_simps = bnd_def ret_def map_err_def attempt_def Let_def request_def get_now_def get_instant_def
  admin_read_manifest_def admin_checkpoint_def store_head_def store_get_def store_bytes_def store_put_def store_create_def
  pass_once_def advance_target_def read_head_def lift_result_def check_source_def cache_read_def
  diff_against_watermark_def closure_of_def proven_present_def closure_objects_def
  mo_extend_def mo_difference_def no_objects_def plan_work_def plan_compacted_def copier_new_def wal_misses_def
  head_misses_def completion_order_def

lemmas pinned_simps = pinned_pass_def pin_create_def copy_under_pin_def copier_copy_def copy_builtin_def copy_object_def
  hooked_def refresh_when_due_def pin_lapsed_def commit_def commit_one_def pin_delete_def copy_and_commit_def unpin_after_def

lemma demo_run:
  "\<exists>w'. sync_pass demo_env demo_source demo_dest ''dr'' demo_settings None demo_world =
     (Inr \<lparr>pc_head = 2, pc_next_wal_sst_id = 2, pc_committed = True, pc_manifests_committed = 1,
           pc_copied = \<lparr>cd_objects = 1, cd_bytes = 28\<rparr>\<rparr>, w')"
  by (rule exI, rule first_attempt)
     (simp add: run_simps demo_eval demo_world_def demo_settings_def default_resolved_mirror_target_def,
      simp add: run_simps demo_eval pinned_simps from_secs_def demo_wal_size)

theorem sync_pass_crash_safe_witness:
  "\<exists>r w'. sync_pass demo_env demo_source demo_dest ''dr'' demo_settings None demo_world = (r, w')
     \<and> mirror_inv demo_hist (\<lambda>n. n) w'"
proof -
  obtain r w' where run: "sync_pass demo_env demo_source demo_dest ''dr'' demo_settings None demo_world = (r, w')"
    by fastforce
  from sync_pass_crash_safe [OF demo_env_ok demo_world_inv demo_handles run] show ?thesis using run by blast
qed

theorem sync_pass_catches_up_witness:
  "\<exists>out w'. sync_pass demo_env demo_source demo_dest ''dr'' demo_settings None demo_world = (Inr out, w')
     \<and> pc_head out = 2 \<and> restorable demo_hist w' 2 \<and> has w' AtDest (wal_rel 1)"
proof -
  obtain out w' where run: "sync_pass demo_env demo_source demo_dest ''dr'' demo_settings None demo_world = (Inr out, w')"
    and head: "pc_head out = 2" using demo_run by force
  have r: "restorable demo_hist w' 2"
    using sync_pass_catches_up [OF demo_env_ok demo_world_inv demo_handles run] head by simp
  have "wal_rel 1 \<in> names_of (objects_of (demo_hist 2))" by (simp add: demo_objects names_of_def)
  then have "has w' AtDest (wal_rel 1)" using r unfolding restorable_def by blast
  then show ?thesis using run head r by blast
qed

end
