(* ===== verification/Mirror_Tail.thy ===== *)
theory Mirror_Tail
  imports Mirror_Safety
begin

text \<open>
  Two more promises of \<^verbatim>\<open>src/mirror/pass.rs\<close>. The commit never overwrites a manifest and
  notices a forked target: this is proved with no assumption that the two roots agree, in
  storage nobody else changes, through a second interpretation of the logic. The write-ahead-log
  tail copies ids densely and in order, keeps the target a mirror, and stops.
\<close>

subsection \<open>The commit and a forked target\<close>

definition still :: "mirror_env \<Rightarrow> bool" where
  "still V \<longleftrightarrow> (\<forall>n w. w_objects (me_step V n w) = w_objects w)"

definition only_adds :: "world \<Rightarrow> world \<Rightarrow> bool" where
  "only_adds w w' \<longleftrightarrow>
     held w' AtSource = held w AtSource \<and> (\<forall>n x. held w AtDest n = Some x \<longrightarrow> held w' AtDest n = Some x)"

lemma held_still: "still V \<Longrightarrow> held (env_turn V w) = held w"
  by (simp add: still_def env_turn_def held_def fun_eq_iff)

interpretation cm: env_logic "\<lambda>w. still V" only_adds V for V
proof unfold_locales
  show "only_adds w w" for w by (simp add: only_adds_def)
  show "only_adds u v \<Longrightarrow> only_adds v w \<Longrightarrow> only_adds u w" for u v w by (simp add: only_adds_def)
  show "still V \<Longrightarrow> still V \<and> only_adds w (env_turn V w)" for w by (simp add: only_adds_def held_still)
qed

definition source_bytes :: "world \<Rightarrow> nat \<Rightarrow> string option" where
  "source_bytes w i = map_option so_bytes (held w AtSource (manifest_rel i))"

definition dest_bytes :: "world \<Rightarrow> nat \<Rightarrow> string option" where
  "dest_bytes w i = map_option so_bytes (held w AtDest (manifest_rel i))"

definition same_manifest :: "world \<Rightarrow> nat \<Rightarrow> bool" where
  "same_manifest w i \<longleftrightarrow> source_bytes w i \<noteq> None \<and> dest_bytes w i = source_bytes w i"

lemma stable_source_bytes: "stable (\<lambda>w. still V) only_adds (\<lambda>w. source_bytes w i = b)"
  by (simp add: stable_def only_adds_def source_bytes_def)

lemma stable_dest_bytes: "stable (\<lambda>w. still V) only_adds (\<lambda>w. dest_bytes w i = Some b)"
  by (auto simp: stable_def only_adds_def dest_bytes_def)

lemma stable_same_manifest: "stable (\<lambda>w. still V) only_adds (\<lambda>w. same_manifest w i)"
  unfolding stable_def same_manifest_def only_adds_def source_bytes_def dest_bytes_def by fastforce

lemma commit_one_same:
  assumes P: "stable (\<lambda>w. still V) only_adds P" and sides: "db_side source = AtSource" "db_side dest = AtDest"
  shows "triple (\<lambda>w. still V) only_adds P (commit_one V source dest head_id i) (\<lambda>_ w. P w \<and> same_manifest w i)"
proof -
  let ?S = "\<lambda>b w. P w \<and> source_bytes w i = Some b"
  have st: "stable (\<lambda>w. still V) only_adds (?S b)" for b by (intro cm.stable_conj P stable_source_bytes)
  have get: "triple (\<lambda>w. still V) only_adds P (store_get V source (manifest_rel i)) (\<lambda>x. ?S (so_bytes x))"
    by (rule cm.store_get [OF P]) (simp add: sides source_bytes_def)
  have bytes: "triple (\<lambda>w. still V) only_adds (?S (so_bytes x)) (store_bytes V x) ?S" for x
    by (rule cm.store_bytes [OF st])
  have "triple (\<lambda>w. still V) only_adds (?S b) (store_create V dest (manifest_rel i) b) (\<lambda>_ w. P w \<and> same_manifest w i)" for b
  proof (rule cm.store_create [OF st], unfold sides)
    fix w assume w: "still V" "?S b w" "\<not> has w AtDest (manifest_rel i)"
    let ?w = "put_object AtDest (manifest_rel i) b w"
    have ev: "only_adds w ?w" using w(3) by (auto simp: only_adds_def held_put_object has_def)
    moreover have "P ?w" using P w(1,2) ev unfolding stable_def by blast
    ultimately show "still V \<and> only_adds w ?w \<and> P ?w \<and> same_manifest ?w i"
      using w by (auto simp: same_manifest_def source_bytes_def dest_bytes_def held_put_object)
  qed
  from cm.frame [OF cm.attempt [OF this] st]
  have create: "triple (\<lambda>w. still V) only_adds (?S b) (attempt (store_create V dest (manifest_rel i) b))
      (\<lambda>r w. (\<forall>u. r = Inr u \<longrightarrow> P w \<and> same_manifest w i) \<and> ?S b w)" for b by (rule cm.pre) simp
  have get': "triple (\<lambda>w. still V) only_adds (?S b) (store_get V dest (manifest_rel i))
      (\<lambda>x w. ?S b w \<and> dest_bytes w i = Some (so_bytes x))" for b
    by (rule cm.store_get [OF st]) (simp add: sides dest_bytes_def)
  have bytes': "triple (\<lambda>w. still V) only_adds (\<lambda>w. ?S b w \<and> dest_bytes w i = Some (so_bytes x)) (store_bytes V x)
      (\<lambda>e w. ?S b w \<and> dest_bytes w i = Some e)" for b x
    by (rule cm.store_bytes) (intro cm.stable_conj st stable_dest_bytes, simp)
  have existing: "triple (\<lambda>w. still V) only_adds (?S b)
     (bnd (map_err (\<lambda>e. Fatal (MStore e)) (store_get V dest (manifest_rel i))) (\<lambda>get.
      bnd (map_err (\<lambda>e. Fatal (MStore e)) (store_bytes V get)) (\<lambda>existing.
      if existing \<noteq> b then fail (Fatal (Diverged (db_url dest) i head_id)) else ret False)))
     (\<lambda>_ w. P w \<and> same_manifest w i)" for b
    by (rule cm.bnd [OF cm.map_err [OF get']], rule cm.bnd [OF cm.map_err [OF bytes']])
       (auto intro: cm.fail cm.ret simp: same_manifest_def)
  show ?thesis unfolding commit_one_def
    by (rule cm.bnd [OF cm.attempt [OF get]])
       (auto split: sum.splits store_error.splits intro!: cm.fail cm.ret cm.pre [OF cm.bnd [OF cm.map_err [OF bytes]]]
          cm.bnd [OF create] intro: cm.pre [OF existing])
qed

lemma commit_each_same:
  assumes sides: "db_side source = AtSource" "db_side dest = AtDest"
    and P: "stable (\<lambda>w. still V) only_adds P"
  shows "triple (\<lambda>w. still V) only_adds P (commit_each V source dest present head_id ids n)
    (\<lambda>_ w. P w \<and> (\<forall>i \<in> set ids - present. same_manifest w i))"
  using P
proof (induction ids arbitrary: n P)
  case Nil
  show ?case unfolding commit_each.simps by (rule cm.ret) simp
next
  case (Cons i ids)
  show ?case
  proof (cases "i \<in> present")
    case True
    show ?thesis unfolding commit_each.simps if_P [OF True] by (rule cm.conseq [OF Cons.IH [OF Cons.prems]]) (use True in auto)
  next
    case False
    have st: "stable (\<lambda>w. still V) only_adds (\<lambda>w. P w \<and> same_manifest w i)"
      by (intro cm.stable_conj Cons.prems stable_same_manifest)
    show ?thesis unfolding commit_each.simps if_not_P [OF False]
      by (rule cm.bnd [OF commit_one_same [OF Cons.prems sides] cm.conseq [OF Cons.IH [OF st]]]) auto
  qed
qed


definition demo_fork :: world where
  "demo_fork =
     demo_world\<lparr>w_objects := (\<lambda>d. case d of AtSource \<Rightarrow> [demo_stored (manifest_rel 1)]
                                  | AtDest \<Rightarrow> [(manifest_rel 1, \<lparr>so_bytes = ''fork'', so_modified = 0\<rparr>)])\<rparr>"

definition demo_diff :: diff where
  "demo_diff = \<lparr>df_closure = \<lparr>cl_head = 1, cl_manifests = [(1, no_objects)]\<rparr>, df_candidates = no_objects, df_present = {}\<rparr>"

lemma demo_fork_run:
  "fst (commit demo_env demo_source demo_dest demo_diff (demo_hist 1) nothing_copied demo_fork)
     = Inl (Fatal (Diverged ''s3://b/db'' 1 1))"
proof -
  have "manifest_rel 1 \<noteq> ''fork''" by (simp add: manifest_rel_def MANIFEST_DIR_def)
  then show ?thesis
    by (simp add: run_simps commit_def commit_one_def demo_diff_def demo_fork_def demo_world_def demo_stored_def held_def has_def
        demo_dest_def demo_source_def fail_def)
qed


subsection \<open>The tail\<close>

text \<open>The objects \<open>n\<close> to \<open>n'\<close> are at the target and were counted on top of \<open>c\<close>.\<close>

definition dense_from :: "nat \<Rightarrow> nat \<Rightarrow> (nat \<times> nat) option \<Rightarrow> world \<Rightarrow> bool" where
  "dense_from n c r w \<longleftrightarrow> (\<forall>c' n'. r = Some (c', n') \<longrightarrow>
     c \<le> c' \<and> n' = n + (c' - c) \<and> (\<forall>i \<in> {n..<n'}. has w AtDest (wal_rel i)))"

lemma dense_from_Suc:
  assumes "has w AtDest (wal_rel n)" and "dense_from (n + 1) (c + 1) r w"
  shows "dense_from n c r w"
  unfolding dense_from_def
proof (intro allI impI conjI)
  fix c' n' assume "r = Some (c', n')"
  then have *: "c + 1 \<le> c'" "n' = (n + 1) + (c' - (c + 1))" "\<forall>i \<in> {n + 1..<n'}. has w AtDest (wal_rel i)"
    using assms(2) unfolding dense_from_def by blast+
  then show "c \<le> c'" "n' = n + (c' - c)" by auto
  have "i = n \<or> i \<in> {n + 1..<n'}" if "i \<in> {n..<n'}" for i using that by auto
  then show "\<forall>i \<in> {n..<n'}. has w AtDest (wal_rel i)" using *(3) assms(1) by blast
qed

lemma tail_step_dense:
  assumes sides: "db_side source = AtSource" "db_side dest = AtDest"
  shows "stable (task_inv hist body V) evolves P \<Longrightarrow>
    triple (task_inv hist body V) evolves P (tail_step fuel V source dest n c)
      (\<lambda>r w. P w \<and> (n + fuel < 2 ^ 64 \<longrightarrow> dense_from n c r w))"
proof (induction fuel arbitrary: n c P)
  case 0
  show ?case unfolding tail_step.simps by (rule mp.ret) (simp add: dense_from_def)
next
  case (Suc fuel)
  note P = Suc.prems
  let ?I = "task_inv hist body V" and ?n = "wal_rel n"
  let ?Q = "\<lambda>r w. P w \<and> (n + Suc fuel < 2 ^ 64 \<longrightarrow> dense_from n c r w)"
  have d: "?n \<in> data_names" by (simp add: data_names_def)
  have st: "stable ?I evolves (\<lambda>w. P w \<and> C)" for C by (intro mp.stable_conj P mp.stable_const)
  have get: "triple ?I evolves P (store_get V source ?n) (\<lambda>x w. P w \<and> so_bytes x = body ?n \<and> typed_name ?n)"
    by (rule mp.store_get [OF P]) (use source_object d sides in auto)
  have bytes: "triple ?I evolves (\<lambda>w. P w \<and> so_bytes x = body ?n \<and> typed_name ?n) (store_bytes V x)
      (\<lambda>b w. P w \<and> b = body ?n \<and> typed_name ?n)" for x
    by (rule mp.store_bytes [OF st]) simp
  have put: "triple ?I evolves (\<lambda>w. P w \<and> b = body ?n \<and> typed_name ?n) (store_put V dest ?n b)
      (\<lambda>_ w. P w \<and> has w AtDest ?n)" for b
    by (rule mp.pull, elim conjE) (rule store_put_data [OF P sides(2) d])
  have stn: "stable ?I evolves (\<lambda>w. P w \<and> has w AtDest ?n)" by (intro stable_facts P)
  have rest: "triple ?I evolves (\<lambda>w. P w \<and> has w AtDest ?n) (tail_step fuel V source dest (u64_add n 1) (c + 1)) ?Q"
    by (rule mp.conseq [OF Suc.IH [OF stn, of "u64_add n 1" "c + 1"]]) (use dense_from_Suc in auto)
  show ?case unfolding tail_step.simps
    apply (rule mp.bnd_attempt [OF get P])
    subgoal for e by (cases e) (simp_all add: mp.fail mp.ret dense_from_def)
    unfolding sum.case by (rule mp.bnd [OF mp.map_err [OF bytes] mp.bnd [OF mp.map_err [OF put] rest]])
qed

definition wal_bounded :: "nat \<Rightarrow> world \<Rightarrow> bool" where
  "wal_bounded B w \<longleftrightarrow> (\<forall>i \<ge> B. \<not> has w AtSource (wal_rel i))"

definition keeps_bound :: "mirror_env \<Rightarrow> nat \<Rightarrow> bool" where
  "keeps_bound V B \<longleftrightarrow> (\<forall>n w. wal_bounded B w \<longrightarrow> wal_bounded B (me_step V n w))"

lemma wal_bounded_turn: "wal_bounded B (env_turn V w) = wal_bounded B (me_step V (w_requests w) w)"
  by (simp add: wal_bounded_def env_turn_def has_def held_def)

interpretation tb: env_logic "\<lambda>w. keeps_bound V B \<and> wal_bounded B w" "\<lambda>_ _. True" V for V B
  by unfold_locales (auto simp: wal_bounded_turn keeps_bound_def)

lemma tail_step_ends:
  assumes sides: "db_side source = AtSource" "db_side dest = AtDest"
  shows "B - n < fuel \<Longrightarrow> n + fuel < 2 ^ 64 \<Longrightarrow>
    triple (\<lambda>w. keeps_bound V B \<and> wal_bounded B w) (\<lambda>_ _. True) (\<lambda>w. True) (tail_step fuel V source dest n c) (\<lambda>r w. r \<noteq> None)"
proof (induction fuel arbitrary: n c)
  case (Suc fuel)
  let ?I = "\<lambda>w. keeps_bound V B \<and> wal_bounded B w" and ?R = "\<lambda>(_ :: world) (_ :: world). True"
  have st: "stable ?I ?R (\<lambda>w. C)" for C by (rule tb.stable_const)
  have get: "triple ?I ?R (\<lambda>w. True) (store_get V source (wal_rel n)) (\<lambda>_ _. n < B)"
    by (rule tb.store_get [OF st]) (auto simp: sides wal_bounded_def has_def leI not_le [symmetric])
  have bytes: "triple ?I ?R (\<lambda>w. n < B) (store_bytes V x) (\<lambda>_ _. n < B)" for x by (rule tb.store_bytes [OF st])
  have put: "triple ?I ?R (\<lambda>w. n < B) (store_put V dest (wal_rel n) b) (\<lambda>_ _. n < B)" for b
    by (rule tb.store_put [OF st]) (auto simp: sides wal_bounded_def has_put_object)
  have rest: "triple ?I ?R (\<lambda>w. n < B) (tail_step fuel V source dest (u64_add n 1) (c + 1)) (\<lambda>r w. r \<noteq> None)"
  proof (cases "n < B")
    case True
    then show ?thesis using Suc.IH [of "n + 1" "c + 1"] Suc.prems by simp
  qed (simp add: triple_def)
  show ?case unfolding tail_step.simps
  proof (rule tb.bnd [OF tb.attempt [OF get]])
    fix r
    show "triple ?I ?R (\<lambda>w. \<forall>a. r = Inr a \<longrightarrow> n < B)
     (case r of
        Inl NotFound \<Rightarrow> ret (Some (c, n))
      | Inl e \<Rightarrow> fail (MStore e)
      | Inr get \<Rightarrow>
          bnd (map_err MStore (store_bytes V get)) (\<lambda>bytes.
          bnd (map_err MStore (store_put V dest (wal_rel n) bytes)) (\<lambda>_.
          tail_step fuel V source dest (u64_add n 1) (c + 1)))) (\<lambda>r w. r \<noteq> None)"
    proof (cases r)
      case (Inl e)
      then show ?thesis by (cases e) (simp_all add: tb.fail tb.ret)
    next
      case (Inr x)
      show ?thesis unfolding Inr sum.case
        by (rule tb.pre [OF tb.bnd [OF tb.map_err [OF bytes] tb.bnd [OF tb.map_err [OF put] rest]]]) blast
    qed
  qed
qed simp

text \<open>
  C28. The write-ahead-log tail. In any well-behaved environment and whatever it returns, a tail
  step keeps the target a mirror and loses nothing; if it returns, it has advanced by exactly the
  number of files it counted and every id it passed is at the target, so the tail has no gap. It
  does return, rather than loop, when the source holds no file from some id on: fuel beyond that
  bound is never used up.
\<close>

theorem tail_step_dense_and_ends:
  assumes "env_ok hist body V" and "mirror_inv hist body w" and "cache_ok hist w"
    and sides: "db_side source = AtSource" "db_side dest = AtDest" and fuel: "n + fuel < 2 ^ 64"
    and run: "tail_step fuel V source dest n 0 w = (r, w')"
  shows "mirror_inv hist body w' \<and> (\<forall>m. has w AtDest m \<longrightarrow> has w' AtDest m)
    \<and> (\<forall>c n'. r = Inr (Some (c, n')) \<longrightarrow> n' = n + c \<and> (\<forall>i \<in> {n..<n'}. has w' AtDest (wal_rel i)))
    \<and> (keeps_bound V B \<and> wal_bounded B w \<and> B - n < fuel \<longrightarrow> r \<noteq> Inr None)"
proof -
  have t: "task_inv hist body V w" using assms(1-3) by (simp add: task_inv_def)
  have st: "stable (task_inv hist body V) evolves (\<lambda>w. True)" by (rule mp.stable_const)
  from tripleD [OF tail_step_dense [OF sides st] t TrueI run]
  have dense: "task_inv hist body V w'" "evolves w w'"
      "\<forall>a. r = Inr a \<longrightarrow> (\<forall>c n'. a = Some (c, n') \<longrightarrow> n' = n + c \<and> (\<forall>i \<in> {n..<n'}. has w' AtDest (wal_rel i)))"
    using fuel unfolding dense_from_def by auto
  have "r \<noteq> Inr None" if "keeps_bound V B \<and> wal_bounded B w" "B - n < fuel"
    using tripleD [OF tail_step_ends [OF sides that(2) fuel] that(1) TrueI run] by blast
  then show ?thesis using dense unfolding task_inv_def evolves_def by blast
qed

lemma demo_bounded: "keeps_bound demo_env 2" "wal_bounded 2 demo_world"
  by (auto simp: keeps_bound_def demo_env_def wal_bounded_def has_def demo_world_objects)

lemma demo_tail_run:
  "\<exists>w'. tail_step 3 demo_env demo_source demo_dest 1 0 demo_world = (Inr (Some (1, 2)), w')"
  by (simp add: numeral_3_eq_3 run_simps demo_eval demo_world_def)

theorem tail_step_dense_and_ends_witness:
  "\<exists>w'. tail_step 3 demo_env demo_source demo_dest 1 0 demo_world = (Inr (Some (1, 2)), w')
     \<and> has w' AtDest (wal_rel 1) \<and> mirror_inv demo_hist (\<lambda>n. n) w'"
proof -
  obtain w' where run: "tail_step 3 demo_env demo_source demo_dest 1 0 demo_world = (Inr (Some (1, 2)), w')"
    using demo_tail_run by blast
  have "cache_ok demo_hist demo_world" by (simp add: cache_ok_def demo_world_def)
  from tail_step_dense_and_ends [OF demo_env_ok demo_world_inv this demo_handles _ run]
  show ?thesis using run by auto
qed

end
