(* ===== verification/Mirror_Prune.thy ===== *)
theory Mirror_Prune
  imports Mirror_Tail
begin

text \<open>
  \<^verbatim>\<open>src/mirror/prune.rs\<close>: restore-point retention, the only deletion at a target. The prune
  first surveys both roots and then deletes, manifests before data objects; \<open>prune_survey\<close> and
  \<open>prune_apply\<close> are these two halves of \<^verbatim>\<open>prune_at\<close>, and \<open>prune_plan\<close> is what the first
  hands to the second. The decoded-manifest cache of the prune is the cache of the world, emptied
  when the prune starts to decode.
\<close>

record prune_report =
  pr_kept_manifests :: nat
  pr_deleted_manifests :: nat
  pr_deleted_objects :: nat
  pr_data_deletion_ran :: bool

definition nothing_pruned :: prune_report where
  "nothing_pruned = \<lparr>pr_kept_manifests = 0, pr_deleted_manifests = 0, pr_deleted_objects = 0, pr_data_deletion_ran = False\<rparr>"

subsection \<open>The survey\<close>

fun closure_entries ::
  "mirror_env \<Rightarrow> db_handle \<Rightarrow> nat \<Rightarrow> checkpoint list \<Rightarrow> nat set \<Rightarrow> manifest_objects \<Rightarrow> (mirror_error, manifest_objects) act" where
  "closure_entries V source latest_id [] seen objects = ret objects"
| "closure_entries V source latest_id (cp # cps) seen objects =
     (if cp_manifest_id cp = latest_id \<or> cp_manifest_id cp \<in> seen
      then closure_entries V source latest_id cps seen objects
      else bnd (admin_read_manifest V source (Some (cp_manifest_id cp))) (\<lambda>r.
           closure_entries V source latest_id cps (insert (cp_manifest_id cp) seen)
             (case r of Some pinned \<Rightarrow> mo_extend objects (objects_of pinned) | None \<Rightarrow> objects)))"

definition source_closure :: "mirror_env \<Rightarrow> db_handle \<Rightarrow> (mirror_error, manifest_objects) act" where
  "source_closure V source =
     bnd (read_head V source) (\<lambda>latest.
     closure_entries V source (vm_id latest) (vm_checkpoints latest) {} (objects_of latest))"

definition admin_list_checkpoints :: "mirror_env \<Rightarrow> string \<Rightarrow> (mirror_error, checkpoint list) act" where
  "admin_list_checkpoints V name w =
     (let w1 = env_turn V w in
      case me_list_checkpoints V w1 name of
        Inl e \<Rightarrow> (Inl (MSlateDb e), w1)
      | Inr pins \<Rightarrow> (Inr pins, w1))"

definition pin_floor :: "mirror_env \<Rightarrow> string \<Rightarrow> int \<Rightarrow> mirror_error + manifest_objects \<Rightarrow> (mirror_error, datetime option) act" where
  "pin_floor V target_name min_age spared =
     (case spared of
        Inl _ \<Rightarrow> ret None
      | Inr _ \<Rightarrow>
          bnd (attempt (admin_list_checkpoints V (pin_name target_name))) (\<lambda>r.
          case r of
            Inl _ \<Rightarrow> ret None
          | Inr pins \<Rightarrow> ret (if pins = [] then None else Some (Min (set (map (\<lambda>cp. cp_create_time cp - min_age) pins))))))"

definition restore_points :: "datetime \<Rightarrow> int \<Rightarrow> nat \<Rightarrow> (nat \<times> object_meta) list \<Rightarrow> nat list" where
  "restore_points now keep latest manifests =
     map fst (filter (\<lambda>e. fst e = latest \<or> now - om_last_modified (snd e) < keep) manifests)"

fun keep_support :: "mirror_env \<Rightarrow> db_handle \<Rightarrow> datetime \<Rightarrow> nat set \<Rightarrow> nat list \<Rightarrow> nat set \<Rightarrow> (mirror_error, nat set) act" where
  "keep_support V dest now dest_ids [] kept = ret kept"
| "keep_support V dest now dest_ids (i # ids) kept =
     bnd (cache_read V dest i) (\<lambda>r.
     keep_support V dest now dest_ids ids
       (insert i kept
          \<union> (case r of
               None \<Rightarrow> {}
             | Some m \<Rightarrow> dest_ids \<inter> set (map cp_manifest_id (filter (\<lambda>cp. checkpoint_live cp now) (vm_checkpoints m))))))"

fun decode_kept :: "mirror_env \<Rightarrow> db_handle \<Rightarrow> nat list \<Rightarrow> manifest_objects \<Rightarrow> bool \<Rightarrow> (mirror_error, manifest_objects \<times> bool) act" where
  "decode_kept V dest [] objects decoded = ret (objects, decoded)"
| "decode_kept V dest (i # ids) objects decoded =
     bnd (cache_read V dest i) (\<lambda>r.
     case r of
       Some m \<Rightarrow> decode_kept V dest ids (mo_extend objects (objects_of m)) decoded
     | None \<Rightarrow> decode_kept V dest ids objects False)"

record prune_plan =
  pp_manifests :: "(nat \<times> object_meta) list"
  pp_compacted :: "(string \<times> object_meta) list"
  pp_wals :: "(nat \<times> object_meta) list"
  pp_spared :: "mirror_error + manifest_objects"
  pp_floor :: "datetime option"
  pp_kept :: "nat set"
  pp_kept_objects :: manifest_objects
  pp_kept_decoded :: bool
  pp_tail_floor :: nat

definition survey_kept ::
  "mirror_env \<Rightarrow> db_handle \<Rightarrow> int \<Rightarrow> datetime \<Rightarrow> (nat \<times> object_meta) list \<Rightarrow> nat \<Rightarrow> (string \<times> object_meta) list
     \<Rightarrow> (nat \<times> object_meta) list \<Rightarrow> mirror_error + manifest_objects \<Rightarrow> datetime option \<Rightarrow> (mirror_error, prune_plan option) act" where
  "survey_kept V dest keep now manifests latest compacted wals spared floor =
     bnd (keep_support V dest now (set (map fst manifests)) (restore_points now keep latest manifests) {}) (\<lambda>kept.
     bnd (decode_kept V dest (sorted_list_of_set kept) no_objects True) (\<lambda>(kept_objects, kept_decoded).
     bnd (cache_read V dest latest) (\<lambda>m.
     ret (Some \<lparr>pp_manifests = manifests, pp_compacted = compacted, pp_wals = wals, pp_spared = spared,
                pp_floor = floor, pp_kept = kept, pp_kept_objects = kept_objects, pp_kept_decoded = kept_decoded,
                pp_tail_floor = (case m of Some m \<Rightarrow> vm_next_wal_sst_id m | None \<Rightarrow> 0)\<rparr>))))"

definition survey_latest ::
  "mirror_env \<Rightarrow> db_handle \<Rightarrow> db_handle \<Rightarrow> string \<Rightarrow> int \<Rightarrow> int \<Rightarrow> datetime \<Rightarrow> (nat \<times> object_meta) list \<Rightarrow> nat
     \<Rightarrow> (mirror_error, prune_plan option) act" where
  "survey_latest V source dest target_name keep min_age now manifests latest =
     bnd (list_compacted V dest) (\<lambda>compacted.
     bnd (list_wals V dest) (\<lambda>wals.
     bnd (attempt (source_closure V source)) (\<lambda>spared.
     bnd (pin_floor V target_name min_age spared) (\<lambda>floor.
     survey_kept V dest keep now manifests latest compacted wals spared floor))))"

definition prune_survey ::
  "mirror_env \<Rightarrow> db_handle \<Rightarrow> db_handle \<Rightarrow> string \<Rightarrow> int \<Rightarrow> int \<Rightarrow> datetime \<Rightarrow> (mirror_error, prune_plan option) act" where
  "prune_survey V source dest target_name keep min_age now =
     bnd cache_reset (\<lambda>_.
     bnd (list_manifests V dest) (\<lambda>manifests.
     case last_opt manifests of
       None \<Rightarrow> ret None
     | Some (latest, _) \<Rightarrow> survey_latest V source dest target_name keep min_age now manifests latest))"

subsection \<open>The deletion\<close>

definition delete_object :: "mirror_env \<Rightarrow> db_handle \<Rightarrow> string \<Rightarrow> (mirror_error, unit) act" where
  "delete_object V dest name =
     bnd (attempt (store_delete V dest name)) (\<lambda>r.
     case r of Inr _ \<Rightarrow> ret () | Inl NotFound \<Rightarrow> ret () | Inl e \<Rightarrow> fail (MStore e))"

fun delete_all :: "mirror_env \<Rightarrow> db_handle \<Rightarrow> string list \<Rightarrow> nat \<Rightarrow> (mirror_error, nat) act" where
  "delete_all V dest [] n = ret n"
| "delete_all V dest (name # names) n =
     bnd (delete_object V dest name) (\<lambda>_. delete_all V dest names (n + 1))"

definition guarded :: "datetime \<Rightarrow> int \<Rightarrow> datetime option \<Rightarrow> datetime \<Rightarrow> bool" where
  "guarded now min_age floor modified \<longleftrightarrow>
     now - modified \<le> min_age \<or> (case floor of Some f \<Rightarrow> f \<le> modified | None \<Rightarrow> False)"

definition doomed_manifests :: "prune_plan \<Rightarrow> string list" where
  "doomed_manifests p = map (\<lambda>e. manifest_rel (fst e)) (filter (\<lambda>e. fst e \<notin> pp_kept p) (pp_manifests p))"

definition doomed_compacted :: "datetime \<Rightarrow> int \<Rightarrow> prune_plan \<Rightarrow> manifest_objects \<Rightarrow> string list" where
  "doomed_compacted now min_age p spared =
     map (\<lambda>e. om_location (snd e))
       (filter (\<lambda>e. \<not> (fst e \<in> mo_compacted (pp_kept_objects p) \<or> fst e \<in> mo_compacted spared
                        \<or> guarded now min_age (pp_floor p) (om_last_modified (snd e)))) (pp_compacted p))"

definition doomed_wals :: "datetime \<Rightarrow> int \<Rightarrow> prune_plan \<Rightarrow> manifest_objects \<Rightarrow> string list" where
  "doomed_wals now min_age p spared =
     map (\<lambda>e. om_location (snd e))
       (filter (\<lambda>e. \<not> (pp_tail_floor p \<le> fst e \<or> fst e \<in> mo_wal (pp_kept_objects p) \<or> fst e \<in> mo_wal spared
                        \<or> guarded now min_age (pp_floor p) (om_last_modified (snd e)))) (pp_wals p))"

definition prune_apply :: "mirror_env \<Rightarrow> db_handle \<Rightarrow> int \<Rightarrow> datetime \<Rightarrow> prune_plan \<Rightarrow> (mirror_error, prune_report) act" where
  "prune_apply V dest min_age now p =
     bnd (delete_all V dest (doomed_manifests p) 0) (\<lambda>deleted_manifests.
     let report = \<lparr>pr_kept_manifests = card (pp_kept p), pr_deleted_manifests = deleted_manifests, pr_deleted_objects = 0,
                   pr_data_deletion_ran = (case pp_spared p of Inr _ \<Rightarrow> True | Inl _ \<Rightarrow> False) \<and> pp_kept_decoded p\<rparr> in
     case pp_spared p of
       Inl _ \<Rightarrow> ret report
     | Inr spared \<Rightarrow>
         if \<not> pp_kept_decoded p then ret report
         else
           bnd (delete_all V dest (doomed_compacted now min_age p spared) 0) (\<lambda>n.
           bnd (delete_all V dest (doomed_wals now min_age p spared) n) (\<lambda>n.
           ret (report\<lparr>pr_deleted_objects := n\<rparr>))))"

definition prune_at ::
  "mirror_env \<Rightarrow> db_handle \<Rightarrow> db_handle \<Rightarrow> string \<Rightarrow> resolved_mirror_target \<Rightarrow> datetime \<Rightarrow> (mirror_error, prune_report) act" where
  "prune_at V source dest target_name settings now =
     (case rt_keep settings of
        None \<Rightarrow> ret nothing_pruned
      | Some keep \<Rightarrow>
          bnd (prune_survey V source dest target_name (int keep) (int (rt_min_age settings)) now) (\<lambda>r.
          case r of
            None \<Rightarrow> ret nothing_pruned
          | Some plan \<Rightarrow> prune_apply V dest (int (rt_min_age settings)) now plan))"

definition prune ::
  "mirror_env \<Rightarrow> db_handle \<Rightarrow> db_handle \<Rightarrow> string \<Rightarrow> resolved_mirror_target \<Rightarrow> (mirror_error, prune_report) act" where
  "prune V source dest target_name settings =
     bnd get_now (\<lambda>now. prune_at V source dest target_name settings now)"

subsection \<open>What the survey finds\<close>

text \<open>
  A prune runs beside a source that moves on: \<open>alone\<close> says that between its requests writers and
  garbage collection change the source as they like, while the target is changed by nobody else.
\<close>

definition onward :: "(string \<Rightarrow> string) \<Rightarrow> world \<Rightarrow> world \<Rightarrow> bool" where
  "onward body w w' \<longleftrightarrow>
     w_now w \<le> w_now w' \<and> (\<forall>K. at_most w' K \<longrightarrow> at_most w K)
     \<and> (faithful body w AtSource \<longrightarrow> faithful body w' AtSource) \<and> (typed w AtSource \<longrightarrow> typed w' AtSource)"

definition alone :: "(string \<Rightarrow> string) \<Rightarrow> mirror_env \<Rightarrow> bool" where
  "alone body V \<longleftrightarrow> (\<forall>n w. source_change body w (me_step V n w))"

lemma onward_refl: "onward body w w"
  by (simp add: onward_def)

lemma onward_trans: "onward body u v \<Longrightarrow> onward body v w \<Longrightarrow> onward body u w"
  unfolding onward_def by (meson order_trans)

lemma source_change_iff: "source_change body w w' \<longleftrightarrow> onward body w w' \<and> w_objects w' AtDest = w_objects w AtDest"
  unfolding source_change_def onward_def by blast

lemma onward_same:
  assumes "w_objects w' AtSource = w_objects w AtSource" and "w_now w \<le> w_now w'"
  shows "onward body w w'"
proof -
  have "held w' AtSource = held w AtSource" using assms(1) by (simp add: held_def fun_eq_iff)
  then have "has w' AtSource = has w AtSource" by (simp add: has_def fun_eq_iff)
  then show ?thesis
    using assms \<open>held w' AtSource = held w AtSource\<close>
    by (simp add: onward_def at_most_def manifest_ids_def faithful_def typed_def)
qed

lemma source_change_same [simp]:
  "source_change body w w" "source_change body w (w\<lparr>w_cache := c\<rparr>)"
  by (simp_all add: source_change_iff onward_same)

lemma source_change_trans: "source_change body u v \<Longrightarrow> source_change body v w \<Longrightarrow> source_change body u w"
  unfolding source_change_iff using onward_trans by (metis (no_types))

lemma alone_turn:
  assumes "alone body V"
  shows "source_change body w (env_turn V w)"
proof -
  let ?u = "me_step V (w_requests w) w"
  have "source_change body w ?u" using assms by (simp add: alone_def)
  moreover have "source_change body ?u (env_turn V w)" by (simp add: source_change_iff onward_same env_turn_def)
  ultimately show ?thesis by (rule source_change_trans)
qed

definition survey_inv :: "(nat \<Rightarrow> vmanifest) \<Rightarrow> (string \<Rightarrow> string) \<Rightarrow> mirror_env \<Rightarrow> world \<Rightarrow> world \<Rightarrow> bool" where
  "survey_inv hist body V w0 w \<longleftrightarrow>
     alone body V \<and> history_ok hist \<and> manifest_reads hist body V \<and> mirror_inv hist body w0
     \<and> source_change body w0 w \<and> cache_ok hist w"

interpretation sv: env_logic "survey_inv hist body V w0" "source_change body" V for hist body V w0
proof unfold_locales
  show "source_change body w w" for w by simp
  show "source_change body u v \<Longrightarrow> source_change body v w \<Longrightarrow> source_change body u w" for u v w by (rule source_change_trans)
  show "survey_inv hist body V w0 w \<Longrightarrow> survey_inv hist body V w0 (env_turn V w) \<and> source_change body w (env_turn V w)" for w
    using alone_turn source_change_trans unfolding survey_inv_def cache_ok_def by (metis cache_turn)
qed

lemma survey_objects: "survey_inv hist body V w0 w \<Longrightarrow> w_objects w AtDest = w_objects w0 AtDest"
  by (simp add: survey_inv_def source_change_iff)

lemma survey_held: "survey_inv hist body V w0 w \<Longrightarrow> held w AtDest = held w0 AtDest"
  by (simp add: survey_objects held_def fun_eq_iff)

lemma survey_ids: "survey_inv hist body V w0 w \<Longrightarrow> manifest_ids w AtDest = manifest_ids w0 AtDest"
  by (simp add: manifest_ids_def has_def survey_held)

lemma survey_sound:
  assumes "survey_inv hist body V w0 w"
  shows "faithful body w d \<and> typed w d"
proof (cases d)
  case AtSource
  then show ?thesis using assms by (auto simp: survey_inv_def mirror_inv_def source_change_def)
next
  case AtDest
  then show ?thesis using assms survey_held [OF assms] survey_objects [OF assms]
    by (auto simp: survey_inv_def mirror_inv_def faithful_def typed_def has_def)
qed

lemma survey_reads:
  assumes "survey_inv hist body V w0 w"
  shows "me_read_manifest V w d (Some i) = Inr (Some m) \<Longrightarrow> m = hist i"
    and "me_read_manifest V w d (Some i) = Inr None \<Longrightarrow> i \<notin> manifest_ids w d"
    and "me_read_manifest V w d None = Inr (Some m) \<Longrightarrow> \<exists>i. newest w d i \<and> m = hist i"
proof -
  have r: "(\<forall>i m. me_read_manifest V w d (Some i) = Inr (Some m) \<longrightarrow> i \<in> manifest_ids w d \<and> m = hist i)
      \<and> (\<forall>i. me_read_manifest V w d (Some i) = Inr None \<longrightarrow> i \<notin> manifest_ids w d)
      \<and> (\<forall>m. me_read_manifest V w d None = Inr (Some m) \<longrightarrow> (\<exists>i. newest w d i \<and> m = hist i))"
    using assms survey_sound [OF assms, of d] unfolding survey_inv_def manifest_reads_def by blast
  show "me_read_manifest V w d (Some i) = Inr (Some m) \<Longrightarrow> m = hist i" using r by blast
  show "me_read_manifest V w d (Some i) = Inr None \<Longrightarrow> i \<notin> manifest_ids w d" using r by blast
  show "me_read_manifest V w d None = Inr (Some m) \<Longrightarrow> \<exists>i. newest w d i \<and> m = hist i" using r by blast
qed

definition listed :: "('a \<Rightarrow> string) \<Rightarrow> world \<Rightarrow> ('a \<times> object_meta) list \<Rightarrow> bool" where
  "listed rel w es \<longleftrightarrow>
     (\<forall>e \<in> set es. om_location (snd e) = rel (fst e)
        \<and> (\<exists>x. held w AtDest (rel (fst e)) = Some x \<and> om_last_modified (snd e) = so_modified x))"

lemma meta_of_held:
  assumes "distinct (map fst (w_objects w d))"
  shows "m \<in> set (metas d dir w) \<longleftrightarrow>
    (\<exists>x. held w d (om_location m) = Some x \<and> take (length dir + 1) (om_location m) = dir @ ''/''
       \<and> m = \<lparr>om_location = om_location m, om_last_modified = so_modified x, om_size = length (so_bytes x), om_e_tag = None\<rparr>)"
  using assms by (force simp: metas_def held_def image_iff)

lemma listing_exact:
  assumes inv: "mirror_inv hist body w" and es: "es = parsed_metas parse (metas AtDest dir w)"
    and dir: "\<And>n. n \<in> layout_names \<Longrightarrow> take (length dir + 1) n = dir @ ''/'' \<longleftrightarrow> n \<in> range rel"
    and parse: "\<And>a. typed_name (rel a) \<Longrightarrow> Option.bind (filename (rel a)) parse = Some a"
  shows "listed rel w es \<and> set (map fst es) = {a. has w AtDest (rel a)}"
proof -
  have dist: "distinct (map fst (w_objects w AtDest))" and ty: "\<And>n. has w AtDest n \<Longrightarrow> typed_name n"
    and lay: "\<And>n. has w AtDest n \<Longrightarrow> n \<in> layout_names"
    using inv by (auto simp: mirror_inv_def typed_def)
  have entry: "om_location (snd e) = rel (fst e) \<and> (\<exists>x. held w AtDest (rel (fst e)) = Some x \<and> om_last_modified (snd e) = so_modified x)"
    if e_in: "e \<in> set es" for e
  proof -
    obtain a m where e: "e = (a, m)" "m \<in> set (metas AtDest dir w)" "Option.bind (filename (om_location m)) parse = Some a"
      using e_in es by (auto simp: parsed_metas_def List.map_filter_def)
    obtain x where x: "held w AtDest (om_location m) = Some x" "take (length dir + 1) (om_location m) = dir @ ''/''"
        "om_last_modified m = so_modified x"
      using e(2) unfolding meta_of_held [OF dist] by (metis object_meta.select_convs(2))
    then have h: "has w AtDest (om_location m)" by (simp add: has_def)
    then obtain b where b: "om_location m = rel b" using dir [OF lay] x(2) by blast
    then have "b = a" using parse [of b] ty [OF h] e(3) by simp
    then show ?thesis using e(1) x b by simp
  qed
  moreover have "a \<in> set (map fst es)" if h: "has w AtDest (rel a)" for a
  proof -
    obtain x where x: "held w AtDest (rel a) = Some x" using h by (auto simp: has_def)
    let ?m = "\<lparr>om_location = rel a, om_last_modified = so_modified x, om_size = length (so_bytes x), om_e_tag = None\<rparr>"
    have "take (length dir + 1) (rel a) = dir @ ''/''" using dir [OF lay [OF h]] by blast
    then have "?m \<in> set (metas AtDest dir w)" unfolding meta_of_held [OF dist] using x by simp
    moreover have "Option.bind (filename (om_location ?m)) parse = Some a" using parse ty [OF h] by simp
    ultimately have "(a, ?m) \<in> set es" unfolding es parsed_metas_def List.map_filter_def by force
    then show ?thesis by force
  qed
  moreover have "has w AtDest (rel a)" if "a \<in> set (map fst es)" for a using entry that by (force simp: has_def)
  ultimately show ?thesis unfolding listed_def by blast
qed

lemma dir_takes:
  "take (Suc (length MANIFEST_DIR)) (manifest_rel i) = MANIFEST_DIR @ ''/''"
  "take (Suc (length MANIFEST_DIR)) (wal_rel i) \<noteq> MANIFEST_DIR @ ''/''"
  "take (Suc (length MANIFEST_DIR)) (compacted_rel u) \<noteq> MANIFEST_DIR @ ''/''"
  "take (Suc (length WAL_DIR)) (wal_rel i) = WAL_DIR @ ''/''"
  "take (Suc (length WAL_DIR)) (manifest_rel i) \<noteq> WAL_DIR @ ''/''"
  "take (Suc (length WAL_DIR)) (compacted_rel u) \<noteq> WAL_DIR @ ''/''"
  "take (Suc (length COMPACTED_DIR)) (compacted_rel u) = COMPACTED_DIR @ ''/''"
  "take (Suc (length COMPACTED_DIR)) (manifest_rel i) \<noteq> COMPACTED_DIR @ ''/''"
  "take (Suc (length COMPACTED_DIR)) (wal_rel i) \<noteq> COMPACTED_DIR @ ''/''"
  by (simp_all add: manifest_rel_def wal_rel_def compacted_rel_def MANIFEST_DIR_def WAL_DIR_def COMPACTED_DIR_def)

lemma dir_names:
  assumes "n \<in> layout_names"
  shows "take (length MANIFEST_DIR + 1) n = MANIFEST_DIR @ ''/'' \<longleftrightarrow> n \<in> range manifest_rel"
    and "take (length WAL_DIR + 1) n = WAL_DIR @ ''/'' \<longleftrightarrow> n \<in> range wal_rel"
    and "take (length COMPACTED_DIR + 1) n = COMPACTED_DIR @ ''/'' \<longleftrightarrow> n \<in> range compacted_rel"
  using assms unfolding layout_names_def data_names_def by (auto simp: dir_takes)

lemma by_id_set: "set (by_id es) = set es"
  by (simp add: by_id_def)

lemma sorted_by_id: "sorted (map fst (by_id es))"
proof -
  have "map fst (by_id es) = sort_by (\<le>) (map fst es)" unfolding by_id_def by (rule sort_by_map)
  moreover have "sorted_wrt (\<le>) (sort_by (\<le>) (map fst es))"
    by (rule comparator.sorted_sort_by) (unfold_locales, auto)
  ultimately show ?thesis by simp
qed

lemma list_manifests_survey:
  assumes d: "db_side dest = AtDest"
  shows "triple (survey_inv hist body V w0) (source_change body) (\<lambda>w. True) (list_manifests V dest)
    (\<lambda>ms w. ms = [] \<or> listed manifest_rel w0 ms \<and> set (map fst ms) = manifest_ids w0 AtDest \<and> sorted (map fst ms))"
proof -
  let ?Q = "\<lambda>ms. ms = [] \<or> listed manifest_rel w0 ms \<and> set (map fst ms) = manifest_ids w0 AtDest \<and> sorted (map fst ms)"
  have "?Q (by_id (parsed_metas parse_manifest_name (metas AtDest MANIFEST_DIR w)))" if w: "survey_inv hist body V w0 w" for w
  proof -
    have inv: "mirror_inv hist body w0" using w by (simp add: survey_inv_def)
    have m: "metas AtDest MANIFEST_DIR w = metas AtDest MANIFEST_DIR w0" using w by (simp add: metas_def survey_objects [OF w])
    have "listed manifest_rel w0 es \<and> set (map fst es) = {a. has w0 AtDest (manifest_rel a)}"
      if "es = parsed_metas parse_manifest_name (metas AtDest MANIFEST_DIR w0)" for es
      by (rule listing_exact [OF inv that dir_names(1)]) (auto simp: typed_name_def manifest_name_roundtrip)
    then show ?thesis using sorted_by_id [of "parsed_metas parse_manifest_name (metas AtDest MANIFEST_DIR w)"]
      by (simp add: m listed_def manifest_ids_def by_id_set)
  qed
  then have "triple (survey_inv hist body V w0) (source_change body) (\<lambda>w. True) (list_dir V dest MANIFEST_DIR)
      (\<lambda>ms w. ?Q (by_id (parsed_metas parse_manifest_name ms)))"
    by (intro sv.list_dir sv.stable_const) (auto simp: d parsed_metas_def by_id_def List.map_filter_def)
  then show ?thesis unfolding list_manifests_def by (rule sv.bnd) (rule sv.ret)
qed

lemma list_wals_survey:
  assumes d: "db_side dest = AtDest"
  shows "triple (survey_inv hist body V w0) (source_change body) (\<lambda>w. True) (list_wals V dest) (\<lambda>es w. listed wal_rel w0 es)"
proof -
  have "listed wal_rel w0 (by_id (parsed_metas parse_wal_name (metas AtDest WAL_DIR w)))" if w: "survey_inv hist body V w0 w" for w
  proof -
    have inv: "mirror_inv hist body w0" and m: "metas AtDest WAL_DIR w = metas AtDest WAL_DIR w0"
      using w by (simp_all add: survey_inv_def metas_def survey_objects [OF w])
    have "listed wal_rel w0 (parsed_metas parse_wal_name (metas AtDest WAL_DIR w0))"
      by (rule listing_exact [OF inv refl dir_names(2), THEN conjunct1]) (auto simp: typed_name_def wal_name_roundtrip)
    then show ?thesis by (simp add: m listed_def by_id_set)
  qed
  then have "triple (survey_inv hist body V w0) (source_change body) (\<lambda>w. True) (list_dir V dest WAL_DIR)
      (\<lambda>ms w. listed wal_rel w0 (by_id (parsed_metas parse_wal_name ms)))"
    by (intro sv.list_dir sv.stable_const) (auto simp: d parsed_metas_def by_id_def List.map_filter_def listed_def)
  then show ?thesis unfolding list_wals_def by (rule sv.bnd) (rule sv.ret)
qed

lemma list_compacted_survey:
  assumes d: "db_side dest = AtDest"
  shows "triple (survey_inv hist body V w0) (source_change body) (\<lambda>w. True) (list_compacted V dest) (\<lambda>es w. listed compacted_rel w0 es)"
proof -
  have "listed compacted_rel w0 (parsed_metas parse_compacted_name (metas AtDest COMPACTED_DIR w))"
    if w: "survey_inv hist body V w0 w" for w
  proof -
    have inv: "mirror_inv hist body w0" and m: "metas AtDest COMPACTED_DIR w = metas AtDest COMPACTED_DIR w0"
      using w by (simp_all add: survey_inv_def metas_def survey_objects [OF w])
    show ?thesis unfolding m
      by (rule listing_exact [OF inv refl dir_names(3), THEN conjunct1]) (auto simp: typed_name_def filename_compacted)
  qed
  then have "triple (survey_inv hist body V w0) (source_change body) (\<lambda>w. True) (list_dir V dest COMPACTED_DIR)
      (\<lambda>ms w. listed compacted_rel w0 (parsed_metas parse_compacted_name ms))"
    by (intro sv.list_dir sv.stable_const) (auto simp: d parsed_metas_def List.map_filter_def listed_def)
  then show ?thesis unfolding list_compacted_def by (rule sv.bnd) (rule sv.ret)
qed

lemma cache_read_survey:
  assumes d: "db_side dest = AtDest"
  shows "triple (survey_inv hist body V w0) (source_change body) (\<lambda>w. C) (cache_read V dest i)
     (\<lambda>r w. C \<and> (r = Some (hist i) \<or> r = None \<and> i \<notin> manifest_ids w0 AtDest))"
proof (rule sv.cache_read [OF sv.stable_const])
  fix w r assume w: "survey_inv hist body V w0 w" "C" "me_read_manifest V w (db_side dest) (Some i) = Inr r"
  have r: "r = Some (hist i) \<or> r = None \<and> i \<notin> manifest_ids w0 AtDest"
    using survey_reads(1) [OF w(1)] survey_reads(2) [OF w(1), of AtDest i] w(3) survey_ids [OF w(1)] d by (cases r) auto
  have change: "source_change body w (cached i r w)" by (simp add: cached_def split: option.splits)
  moreover have "survey_inv hist body V w0 (cached i r w)"
    using w(1) r change source_change_trans by (auto simp: survey_inv_def cached_def cache_ok_def split: option.splits)
  ultimately show "survey_inv hist body V w0 (cached i r w) \<and> source_change body w (cached i r w)
      \<and> (C \<and> (r = Some (hist i) \<or> r = None \<and> i \<notin> manifest_ids w0 AtDest))" using w(2) r by blast
qed (auto simp: survey_inv_def cache_ok_def)

lemma keep_support_survey:
  assumes d: "db_side dest = AtDest"
  shows "triple (survey_inv hist body V w0) (source_change body) (\<lambda>w. True) (keep_support V dest now dest_ids ids kept)
    (\<lambda>K w. kept \<union> set ids \<subseteq> K \<and> K \<subseteq> kept \<union> set ids \<union> dest_ids
       \<and> (\<forall>i \<in> set ids \<inter> manifest_ids w0 AtDest. \<forall>cp \<in> set (vm_checkpoints (hist i)).
            checkpoint_live cp now \<and> cp_manifest_id cp \<in> dest_ids \<longrightarrow> cp_manifest_id cp \<in> K))"
proof (induction ids arbitrary: kept)
  case Nil
  show ?case unfolding keep_support.simps by (rule sv.ret) simp
next
  case (Cons i ids)
  show ?case unfolding keep_support.simps
    by (rule sv.bnd [OF cache_read_survey [OF d]], rule sv.pull, rule sv.conseq [OF Cons.IH]) auto
qed

lemma decode_kept_survey:
  assumes d: "db_side dest = AtDest"
  shows "triple (survey_inv hist body V w0) (source_change body) (\<lambda>w. True) (decode_kept V dest ids objects decoded)
    (\<lambda>r w. names_of objects \<subseteq> names_of (fst r)
       \<and> (snd r \<longrightarrow> decoded \<and> (\<forall>i \<in> set ids. names_of (objects_of (hist i)) \<subseteq> names_of (fst r))))"
proof (induction ids arbitrary: objects decoded)
  case Nil
  show ?case unfolding decode_kept.simps by (rule sv.ret) simp
next
  case (Cons i ids)
  let ?Q = "\<lambda>r w. names_of objects \<subseteq> names_of (fst r)
       \<and> (snd r \<longrightarrow> decoded \<and> (\<forall>j \<in> set (i # ids). names_of (objects_of (hist j)) \<subseteq> names_of (fst r)))"
  have some: "triple (survey_inv hist body V w0) (source_change body) (\<lambda>w. True)
      (decode_kept V dest ids (mo_extend objects (objects_of (hist i))) decoded) ?Q"
    by (rule sv.conseq [OF Cons.IH]) auto
  have none: "triple (survey_inv hist body V w0) (source_change body) (\<lambda>w. True) (decode_kept V dest ids objects False) ?Q"
    by (rule sv.conseq [OF Cons.IH]) auto
  show ?case unfolding decode_kept.simps
  proof (rule sv.bnd [OF cache_read_survey [OF d]])
    fix r
    show "triple (survey_inv hist body V w0) (source_change body) (\<lambda>w. True \<and> (r = Some (hist i) \<or> r = None \<and> i \<notin> manifest_ids w0 AtDest))
      (case r of None \<Rightarrow> decode_kept V dest ids objects False
       | Some m \<Rightarrow> decode_kept V dest ids (mo_extend objects (objects_of m)) decoded) ?Q"
    proof (cases r)
      case None
      show ?thesis unfolding None option.case by (rule sv.pre [OF none]) simp
    next
      case (Some m)
      have "triple (survey_inv hist body V w0) (source_change body) (\<lambda>w. True \<and> m = hist i)
          (decode_kept V dest ids (mo_extend objects (objects_of m)) decoded) ?Q"
        by (rule sv.pull) (use some in simp)
      then show ?thesis unfolding Some option.case by (rule sv.pre) blast
    qed
  qed
qed

lemma newest_unique: "newest w d i \<Longrightarrow> newest w d j \<Longrightarrow> i = j"
  unfolding newest_def by (meson order_antisym)

definition source_gone :: "(string \<Rightarrow> string) \<Rightarrow> world \<Rightarrow> world \<Rightarrow> nat \<Rightarrow> bool" where
  "source_gone body v w j \<longleftrightarrow> (\<exists>u. onward body v u \<and> onward body u w \<and> j \<notin> manifest_ids u AtSource)"

lemma source_gone_later: "source_gone body v w j \<Longrightarrow> onward body w w' \<Longrightarrow> source_gone body v w' j"
  unfolding source_gone_def using onward_trans by blast

lemma onward_step: "onward body v w \<Longrightarrow> source_change body w w' \<Longrightarrow> onward body v w'"
  using onward_trans by (simp add: source_change_iff)

lemma stable_onward: "stable (survey_inv hist body V w0) (source_change body) (onward body v)"
  unfolding stable_def using onward_step by blast

lemma stable_source_gone:
  "stable (survey_inv hist body V w0) (source_change body) (\<lambda>w. A \<or> B \<and> source_gone body v w j)"
  unfolding stable_def source_change_iff using source_gone_later by blast

lemma closure_entries_survey:
  assumes s: "db_side source = AtSource"
  shows "triple (survey_inv hist body V w0) (source_change body) (onward body v) (closure_entries V source l cps seen objects)
    (\<lambda>r w. onward body v w \<and> names_of objects \<subseteq> names_of r
       \<and> (\<forall>cp \<in> set cps. cp_manifest_id cp \<noteq> l \<and> cp_manifest_id cp \<notin> seen
            \<longrightarrow> names_of (objects_of (hist (cp_manifest_id cp))) \<subseteq> names_of r \<or> source_gone body v w (cp_manifest_id cp)))"
proof (induction cps arbitrary: seen objects)
  case Nil
  show ?case unfolding closure_entries.simps by (rule sv.ret) simp
next
  case (Cons cp cps)
  let ?m = "cp_manifest_id cp"
  let ?G = "\<lambda>r w. r = Some (hist ?m) \<or> r = None \<and> source_gone body v w ?m"
  show ?case
  proof (cases "?m = l \<or> ?m \<in> seen")
    case True
    show ?thesis unfolding closure_entries.simps if_P [OF True] by (rule sv.conseq [OF Cons.IH]) (use True in auto)
  next
    case False
    have read: "triple (survey_inv hist body V w0) (source_change body) (onward body v) (admin_read_manifest V source (Some ?m))
        (\<lambda>r w. onward body v w \<and> ?G r w)"
    proof (rule sv.admin_read_manifest [OF stable_onward])
      fix w r assume w: "survey_inv hist body V w0 w" "onward body v w" "me_read_manifest V w (db_side source) (Some ?m) = Inr r"
      have "r = None \<Longrightarrow> source_gone body v w ?m"
        using survey_reads(2) [OF w(1)] w(2,3) s onward_refl unfolding source_gone_def by metis
      then show "onward body v w \<and> ?G r w" using survey_reads(1) [OF w(1)] w(2,3) by (cases r) auto
    qed
    show ?thesis unfolding closure_entries.simps if_not_P [OF False]
    proof (rule sv.bnd [OF read], rule sv.conseq [OF sv.frame [OF Cons.IH stable_source_gone]])
      fix r a w
      assume q: "(onward body v w \<and> names_of (case r of Some pinned \<Rightarrow> mo_extend objects (objects_of pinned) | None \<Rightarrow> objects) \<subseteq> names_of a
          \<and> (\<forall>c \<in> set cps. cp_manifest_id c \<noteq> l \<and> cp_manifest_id c \<notin> insert ?m seen
               \<longrightarrow> names_of (objects_of (hist (cp_manifest_id c))) \<subseteq> names_of a \<or> source_gone body v w (cp_manifest_id c))) \<and> ?G r w"
      have objs: "names_of objects \<subseteq> names_of a" using q by (auto split: option.splits)
      have m: "names_of (objects_of (hist ?m)) \<subseteq> names_of a \<or> source_gone body v w ?m" using q by auto
      show "onward body v w \<and> names_of objects \<subseteq> names_of a
       \<and> (\<forall>c \<in> set (cp # cps). cp_manifest_id c \<noteq> l \<and> cp_manifest_id c \<notin> seen
            \<longrightarrow> names_of (objects_of (hist (cp_manifest_id c))) \<subseteq> names_of a \<or> source_gone body v w (cp_manifest_id c))"
        using objs m q by (metis insert_iff set_ConsD)
    qed
  qed
qed

definition spares_source :: "(string \<Rightarrow> string) \<Rightarrow> (nat \<Rightarrow> vmanifest) \<Rightarrow> world \<Rightarrow> world \<Rightarrow> manifest_objects \<Rightarrow> bool" where
  "spares_source body hist w w' s \<longleftrightarrow>
     (\<exists>v L. onward body w v \<and> onward body v w' \<and> newest v AtSource L
        \<and> names_of (objects_of (hist L)) \<subseteq> names_of s
        \<and> (\<forall>cp \<in> set (vm_checkpoints (hist L)).
             names_of (objects_of (hist (cp_manifest_id cp))) \<subseteq> names_of s \<or> source_gone body v w' (cp_manifest_id cp)))"

lemma spares_source_later: "spares_source body hist w w' s \<Longrightarrow> onward body w' w'' \<Longrightarrow> spares_source body hist w w'' s"
  unfolding spares_source_def using onward_trans source_gone_later by meson

lemma stable_spares:
  "stable (survey_inv hist body V w0) (source_change body) (\<lambda>w. \<forall>s. spared = Inr s \<longrightarrow> spares_source body hist w0 w s)"
  unfolding stable_def source_change_iff using spares_source_later by blast

lemma source_closure_survey:
  assumes s: "db_side source = AtSource"
  shows "triple (survey_inv hist body V w0) (source_change body) (\<lambda>w. True) (source_closure V source)
    (\<lambda>r w. spares_source body hist w0 w r)"
proof -
  let ?I = "survey_inv hist body V w0"
  let ?H = "\<lambda>v head. onward body w0 v \<and> newest v AtSource (vm_id head) \<and> head = hist (vm_id head)"
  have read: "triple ?I (source_change body) (\<lambda>w. True) (read_head V source) (\<lambda>head w. \<exists>v. onward body v w \<and> ?H v head)"
    unfolding read_head_def
  proof (rule sv.bnd [OF sv.admin_read_manifest [OF sv.stable_const]])
    let ?Q = "\<lambda>r w. \<forall>head. r = Some head \<longrightarrow> (\<exists>v. onward body v w \<and> ?H v head)"
    show "?Q r w" if w: "?I w" "me_read_manifest V w (db_side source) None = Inr r" for w r
    proof (intro allI impI)
      fix head assume "r = Some head"
      then obtain i where i: "newest w AtSource i" "head = hist i" using survey_reads(3) [OF w(1), of AtSource] w(2) s by auto
      moreover have "vm_id (hist i) = i" "onward body w0 w"
        using w(1) by (simp_all add: survey_inv_def history_ok_def source_change_iff)
      ultimately show "\<exists>v. onward body v w \<and> ?H v head" using onward_refl by metis
    qed
    show "triple ?I (source_change body) (?Q r)
       (case r of None \<Rightarrow> fail (NotADatabase (db_url source)) | Some head \<Rightarrow> ret head)
       (\<lambda>head w. \<exists>v. onward body v w \<and> ?H v head)" for r
      by (cases r) (simp_all add: sv.fail, rule sv.ret, blast)
  qed
  show ?thesis unfolding source_closure_def
  proof (rule sv.bnd [OF read], rule sv.ex_pre, rule sv.pull)
    fix head v assume H: "?H v head"
    show "triple ?I (source_change body) (onward body v)
      (closure_entries V source (vm_id head) (vm_checkpoints head) {} (objects_of head)) (\<lambda>r w. spares_source body hist w0 w r)"
    proof (rule sv.conseq [OF closure_entries_survey [OF s]])
      fix r w
      assume q: "onward body v w \<and> names_of (objects_of head) \<subseteq> names_of r
       \<and> (\<forall>cp \<in> set (vm_checkpoints head). cp_manifest_id cp \<noteq> vm_id head \<and> cp_manifest_id cp \<notin> {}
            \<longrightarrow> names_of (objects_of (hist (cp_manifest_id cp))) \<subseteq> names_of r \<or> source_gone body v w (cp_manifest_id cp))"
      obtain L where L: "onward body w0 v" "newest v AtSource L" "head = hist L" "vm_id head = L" using H by blast
      have "names_of (objects_of (hist (cp_manifest_id cp))) \<subseteq> names_of r \<or> source_gone body v w (cp_manifest_id cp)"
        if "cp \<in> set (vm_checkpoints (hist L))" for cp
        using q that L(3,4) by (cases "cp_manifest_id cp = L") auto
      then show "spares_source body hist w0 w r" unfolding spares_source_def using L q by blast
    qed simp
  qed
qed

definition restore_point :: "world \<Rightarrow> datetime \<Rightarrow> int \<Rightarrow> nat \<Rightarrow> bool" where
  "restore_point w now keep i \<longleftrightarrow>
     newest w AtDest i \<or> (\<exists>x. held w AtDest (manifest_rel i) = Some x \<and> now - so_modified x < keep)"

lemma restore_points_listed:
  assumes "listed manifest_rel w ms" and "set (map fst ms) = manifest_ids w AtDest" and "newest w AtDest latest"
  shows "set (restore_points now keep latest ms) = {i \<in> manifest_ids w AtDest. restore_point w now keep i}"
proof -
  have e: "\<exists>x. held w AtDest (manifest_rel (fst e)) = Some x \<and> om_last_modified (snd e) = so_modified x" if "e \<in> set ms" for e
    using assms(1) that unfolding listed_def by blast
  have "i \<in> set (restore_points now keep latest ms) \<longleftrightarrow> i \<in> manifest_ids w AtDest \<and> restore_point w now keep i" for i
  proof
    assume "i \<in> set (restore_points now keep latest ms)"
    then obtain m where m: "(i, m) \<in> set ms" "i = latest \<or> now - om_last_modified m < keep"
      by (auto simp: restore_points_def)
    then show "i \<in> manifest_ids w AtDest \<and> restore_point w now keep i"
      using e [OF m(1)] assms(2,3) unfolding restore_point_def by (force simp: manifest_ids_def has_def newest_def)
  next
    assume i: "i \<in> manifest_ids w AtDest \<and> restore_point w now keep i"
    then obtain m where m: "(i, m) \<in> set ms" using assms(2) by force
    have "i = latest \<or> now - om_last_modified m < keep"
      using i e [OF m] newest_unique [OF assms(3)] unfolding restore_point_def by force
    then show "i \<in> set (restore_points now keep latest ms)" using m by (force simp: restore_points_def)
  qed
  then show ?thesis by blast
qed

lemma last_newest:
  assumes "set (map fst ms) = manifest_ids w AtDest" and "sorted (map fst ms)" and "last_opt ms = Some (latest, m)"
  shows "newest w AtDest latest"
proof -
  have ms: "ms = butlast ms @ [(latest, m)]" using assms(3) by (metis append_butlast_last_id last_opt_def option.discI option.inject)
  have "sorted (map fst (butlast ms) @ [latest])" using assms(2) by (subst (asm) ms) simp
  then have "\<forall>j \<in> set (map fst ms). j \<le> latest" by (subst ms) (auto simp: sorted_append)
  moreover have "latest \<in> set (map fst ms)" by (subst ms) simp
  ultimately show ?thesis unfolding newest_def assms(1) [symmetric] by blast
qed

lemma pin_floor_survey:
  "triple (survey_inv hist body V w0) (source_change body) (\<lambda>w. True) (pin_floor V t a spared) (\<lambda>_ w. True)"
proof -
  have l: "triple (survey_inv hist body V w0) (source_change body) (\<lambda>w. True) (admin_list_checkpoints V n) (\<lambda>_ w. True)" for n
    by (rule tripleI) (use sv.turn in \<open>auto simp: admin_list_checkpoints_def Let_def split: sum.splits\<close>)
  have "triple (survey_inv hist body V w0) (source_change body) (\<lambda>w. True) (attempt (admin_list_checkpoints V n)) (\<lambda>_ w. True)" for n
    by (rule sv.conseq [OF sv.attempt [OF l]]) simp_all
  then show ?thesis unfolding pin_floor_def
    by (cases spared) (auto intro!: sv.ret sv.bnd split: sum.splits)
qed

definition kept_ok :: "(nat \<Rightarrow> vmanifest) \<Rightarrow> world \<Rightarrow> datetime \<Rightarrow> int \<Rightarrow> nat set \<Rightarrow> bool" where
  "kept_ok hist w now keep K \<longleftrightarrow>
     K \<subseteq> manifest_ids w AtDest
     \<and> (\<forall>i \<in> manifest_ids w AtDest. restore_point w now keep i \<longrightarrow>
          i \<in> K \<and> (\<forall>cp \<in> set (vm_checkpoints (hist i)).
             checkpoint_live cp now \<and> cp_manifest_id cp \<in> manifest_ids w AtDest \<longrightarrow> cp_manifest_id cp \<in> K))"

definition plan_ok :: "(nat \<Rightarrow> vmanifest) \<Rightarrow> world \<Rightarrow> datetime \<Rightarrow> int \<Rightarrow> prune_plan \<Rightarrow> bool" where
  "plan_ok hist w now keep p \<longleftrightarrow>
     listed manifest_rel w (pp_manifests p) \<and> set (map fst (pp_manifests p)) = manifest_ids w AtDest
     \<and> listed compacted_rel w (pp_compacted p) \<and> listed wal_rel w (pp_wals p)
     \<and> kept_ok hist w now keep (pp_kept p)
     \<and> (pp_kept_decoded p \<longrightarrow> (\<forall>i \<in> pp_kept p. names_of (objects_of (hist i)) \<subseteq> names_of (pp_kept_objects p)))
     \<and> (\<forall>L. newest w AtDest L \<longrightarrow> L \<in> pp_kept p \<and> pp_tail_floor p = vm_next_wal_sst_id (hist L))"

lemma survey_kept_ok:
  assumes d: "db_side dest = AtDest"
    and ms: "listed manifest_rel w0 ms" "set (map fst ms) = manifest_ids w0 AtDest" "newest w0 AtDest latest"
    and lists: "listed compacted_rel w0 cs" "listed wal_rel w0 ws"
  shows "triple (survey_inv hist body V w0) (source_change body) (\<lambda>w. True) (survey_kept V dest keep now ms latest cs ws spared floor)
    (\<lambda>p w. \<forall>plan. p = Some plan \<longrightarrow> plan_ok hist w0 now keep plan \<and> pp_spared plan = spared)"
proof -
  let ?plan = "\<lambda>K r t. \<lparr>pp_manifests = ms, pp_compacted = cs, pp_wals = ws, pp_spared = spared,
                pp_floor = floor, pp_kept = K, pp_kept_objects = fst r, pp_kept_decoded = snd r, pp_tail_floor = t\<rparr>"
  let ?D = "\<lambda>K r. snd r \<longrightarrow> (\<forall>i \<in> K. names_of (objects_of (hist i)) \<subseteq> names_of (fst r))"
  note rp = restore_points_listed [OF ms, of now keep]
  have keep: "triple (survey_inv hist body V w0) (source_change body) (\<lambda>w. True)
      (keep_support V dest now (set (map fst ms)) (restore_points now keep latest ms) {}) (\<lambda>K w. True \<and> kept_ok hist w0 now keep K)"
    by (rule sv.conseq [OF keep_support_survey [OF d]]) (use ms(2) in \<open>simp_all add: rp kept_ok_def, blast\<close>)
  have dec: "triple (survey_inv hist body V w0) (source_change body) (\<lambda>w. True)
      (decode_kept V dest (sorted_list_of_set K) no_objects True) (\<lambda>r w. True \<and> ?D K r)" if "kept_ok hist w0 now keep K" for K
  proof -
    have "finite (manifest_ids w0 AtDest)" unfolding ms(2) [symmetric] by (rule finite_set)
    then have "finite K" using that finite_subset unfolding kept_ok_def by blast
    then show ?thesis by (intro sv.conseq [OF decode_kept_survey [OF d]]) simp_all
  qed
  have plan: "plan_ok hist w0 now keep (?plan K r (vm_next_wal_sst_id (hist latest)))"
    if K: "kept_ok hist w0 now keep K" and D: "?D K r" for K and r :: "manifest_objects \<times> bool"
  proof -
    have "latest \<in> K" using K ms(3) unfolding kept_ok_def newest_def restore_point_def by blast
    then have "\<forall>L. newest w0 AtDest L \<longrightarrow> L \<in> K \<and> vm_next_wal_sst_id (hist latest) = vm_next_wal_sst_id (hist L)"
      using newest_unique [OF ms(3)] by blast
    then show ?thesis unfolding plan_ok_def prune_plan.select_convs by (intro conjI ms(1,2) lists K D)
  qed
  have last: "triple (survey_inv hist body V w0) (source_change body) (\<lambda>w. True)
      (case r of (ko, kd) \<Rightarrow> bnd (cache_read V dest latest) (\<lambda>m.
         ret (Some \<lparr>pp_manifests = ms, pp_compacted = cs, pp_wals = ws, pp_spared = spared,
                pp_floor = floor, pp_kept = K, pp_kept_objects = ko, pp_kept_decoded = kd,
                pp_tail_floor = (case m of Some m \<Rightarrow> vm_next_wal_sst_id m | None \<Rightarrow> 0)\<rparr>)))
      (\<lambda>p w. \<forall>plan. p = Some plan \<longrightarrow> plan_ok hist w0 now keep plan \<and> pp_spared plan = spared)" if "kept_ok hist w0 now keep K" "?D K r" for K r
  proof -
    have "latest \<in> manifest_ids w0 AtDest" using ms(3) by (simp add: newest_def)
    then have "triple (survey_inv hist body V w0) (source_change body) (\<lambda>w. True)
      (bnd (cache_read V dest latest) (\<lambda>m. ret (Some (?plan K r (case m of Some m \<Rightarrow> vm_next_wal_sst_id m | None \<Rightarrow> 0)))))
      (\<lambda>p w. \<forall>plan. p = Some plan \<longrightarrow> plan_ok hist w0 now keep plan \<and> pp_spared plan = spared)"
      by (intro sv.bnd [OF cache_read_survey [OF d]] sv.pull sv.ret) (use plan [OF that] d in auto)
    then show ?thesis by (cases r) simp
  qed
  show ?thesis unfolding survey_kept_def
    by (rule sv.bnd [OF keep], rule sv.pull, rule sv.bnd [OF dec], assumption, rule sv.pull) (rule last)
qed

definition plan_found ::
  "(string \<Rightarrow> string) \<Rightarrow> (nat \<Rightarrow> vmanifest) \<Rightarrow> world \<Rightarrow> datetime \<Rightarrow> int \<Rightarrow> prune_plan option \<Rightarrow> world \<Rightarrow> bool" where
  "plan_found body hist w0 now keep p w \<longleftrightarrow>
     (\<forall>plan. p = Some plan \<longrightarrow> plan_ok hist w0 now keep plan
        \<and> (\<forall>s. pp_spared plan = Inr s \<longrightarrow> spares_source body hist w0 w s))"

lemma survey_latest_ok:
  assumes sides: "db_side source = AtSource" "db_side dest = AtDest"
    and ms: "listed manifest_rel w0 ms" "set (map fst ms) = manifest_ids w0 AtDest" "newest w0 AtDest latest"
  shows "triple (survey_inv hist body V w0) (source_change body) (\<lambda>w. True)
    (survey_latest V source dest target keep min_age now ms latest) (plan_found body hist w0 now keep)"
proof -
  let ?I = "survey_inv hist body V w0" and ?R = "source_change body"
  let ?S = "\<lambda>r w. True \<and> (\<forall>s. r = Inr s \<longrightarrow> spares_source body hist w0 w s)"
  have spared: "triple ?I ?R (\<lambda>w. True) (attempt (source_closure V source)) ?S"
    by (rule sv.conseq [OF sv.attempt [OF source_closure_survey [OF sides(1)]]]) simp_all
  have floor: "triple ?I ?R (?S r) (pin_floor V t a r) (\<lambda>_. ?S r)" for r t a
    by (rule sv.frame [OF pin_floor_survey stable_spares])
  have wals: "triple ?I ?R (\<lambda>w. True) (list_wals V dest) (\<lambda>es w. True \<and> listed wal_rel w0 es)"
    by (rule sv.conseq [OF list_wals_survey [OF sides(2)]]) simp_all
  have comp: "triple ?I ?R (\<lambda>w. True) (list_compacted V dest) (\<lambda>es w. True \<and> listed compacted_rel w0 es)"
    by (rule sv.conseq [OF list_compacted_survey [OF sides(2)]]) simp_all
  have plan: "triple ?I ?R (?S r) (survey_kept V dest keep now ms latest cs ws r f) (plan_found body hist w0 now keep)"
    if "listed compacted_rel w0 cs" "listed wal_rel w0 ws" for cs ws r f
    by (rule sv.conseq [OF sv.frame [OF survey_kept_ok [OF sides(2) ms that] stable_spares]])
       (auto simp: plan_found_def)
  show ?thesis unfolding survey_latest_def
    by (rule sv.bnd [OF comp], rule sv.pull, rule sv.bnd [OF wals], rule sv.pull, rule sv.bnd [OF spared],
        rule sv.bnd [OF floor], rule plan)
qed

lemma cache_reset_survey: "triple (survey_inv hist body V w0) (source_change body) (\<lambda>w. True) cache_reset (\<lambda>_ w. True)"
  by (rule tripleI) (use source_change_trans source_change_same(2) in \<open>auto simp: cache_reset_def survey_inv_def cache_ok_def\<close>)

lemma prune_survey_ok:
  assumes sides: "db_side source = AtSource" "db_side dest = AtDest"
  shows "triple (survey_inv hist body V w0) (source_change body) (\<lambda>w. True) (prune_survey V source dest target keep min_age now)
    (plan_found body hist w0 now keep)"
  unfolding prune_survey_def
proof (rule sv.bnd [OF cache_reset_survey], rule sv.bnd [OF list_manifests_survey [OF sides(2)]])
  fix ms
  let ?M = "ms = [] \<or> listed manifest_rel w0 ms \<and> set (map fst ms) = manifest_ids w0 AtDest \<and> sorted (map fst ms)"
  have "triple (survey_inv hist body V w0) (source_change body) (\<lambda>w. True)
      (case last_opt ms of None \<Rightarrow> ret None
       | Some (latest, _) \<Rightarrow> survey_latest V source dest target keep min_age now ms latest)
      (plan_found body hist w0 now keep)" if M: "?M"
  proof (cases "last_opt ms")
    case None
    show ?thesis unfolding None option.case by (rule sv.ret) (simp add: plan_found_def)
  next
    case (Some lm)
    obtain latest m where lm: "lm = (latest, m)" by fastforce
    have "ms \<noteq> []" using Some by (auto simp: last_opt_def)
    then have l: "listed manifest_rel w0 ms" "set (map fst ms) = manifest_ids w0 AtDest" "sorted (map fst ms)" using M by blast+
    have "newest w0 AtDest latest" using last_newest [OF l(2,3)] Some lm by blast
    then show ?thesis unfolding Some lm option.case prod.case by (rule survey_latest_ok [OF sides l(1,2)])
  qed
  then have "triple (survey_inv hist body V w0) (source_change body) (\<lambda>w. True \<and> ?M)
      (case last_opt ms of None \<Rightarrow> ret None
       | Some (latest, _) \<Rightarrow> survey_latest V source dest target keep min_age now ms latest)
      (plan_found body hist w0 now keep)" by (intro sv.pull)
  then show "triple (survey_inv hist body V w0) (source_change body) (\<lambda>w. ?M)
      (case last_opt ms of None \<Rightarrow> ret None
       | Some (latest, _) \<Rightarrow> survey_latest V source dest target keep min_age now ms latest)
      (plan_found body hist w0 now keep)" by (rule sv.pre) simp
qed

subsection \<open>What the deletion removes\<close>

definition honest :: "mirror_env \<Rightarrow> bool" where
  "honest V \<longleftrightarrow> (\<forall>n. me_fault V n \<noteq> Some NotFound)"

definition shrinks :: "(string \<Rightarrow> string) \<Rightarrow> string set \<Rightarrow> world \<Rightarrow> world \<Rightarrow> bool" where
  "shrinks body D w w' \<longleftrightarrow>
     onward body w w'
     \<and> (distinct (map fst (w_objects w AtDest)) \<longrightarrow> distinct (map fst (w_objects w' AtDest)))
     \<and> (\<forall>n. held w' AtDest n = held w AtDest n \<or> held w' AtDest n = None \<and> n \<in> D)"

lemma shrinks_at: "shrinks body D w w' \<Longrightarrow> held w' AtDest n = held w AtDest n \<or> held w' AtDest n = None \<and> n \<in> D"
  by (simp add: shrinks_def)

lemma shrinks_refl: "shrinks body D w w"
  by (simp add: shrinks_def onward_refl)

lemma shrinks_trans: "shrinks body D u v \<Longrightarrow> shrinks body D v w \<Longrightarrow> shrinks body D u w"
  unfolding shrinks_def using onward_trans by (metis (no_types))

lemma shrinks_mono: "shrinks body D w w' \<Longrightarrow> D \<subseteq> E \<Longrightarrow> shrinks body E w w'"
  unfolding shrinks_def by blast

interpretation de: env_logic "\<lambda>w. alone body V \<and> honest V" "shrinks body D" V for V body D
proof unfold_locales
  show "shrinks body D w w" for w by (rule shrinks_refl)
  show "shrinks body D u v \<Longrightarrow> shrinks body D v w \<Longrightarrow> shrinks body D u w" for u v w by (rule shrinks_trans)
  show "alone body V \<and> honest V \<Longrightarrow>
      (alone body V \<and> honest V) \<and> shrinks body D w (env_turn V w)" for w
    using alone_turn [of body V w] by (simp add: shrinks_def source_change_iff held_def)
qed

lemma shrinks_drop: "n \<in> D \<Longrightarrow> shrinks body D w (drop_object AtDest n w)"
  by (auto simp: shrinks_def held_drop_object) (auto simp: drop_object_def distinct_delete onward_same)

lemma stable_gone: "stable (\<lambda>w. alone body V \<and> honest V) (shrinks body D) (\<lambda>w. \<not> has w AtDest n)"
  unfolding stable_def shrinks_def has_def by metis

lemma delete_object_ok:
  assumes P: "stable (\<lambda>w. alone body V \<and> honest V) (shrinks body D) P" and d: "db_side dest = AtDest" and n: "n \<in> D"
  shows "triple (\<lambda>w. alone body V \<and> honest V) (shrinks body D) P (delete_object V dest n) (\<lambda>_ w. P w \<and> \<not> has w AtDest n)"
proof (rule tripleI)
  fix w r w' assume w: "alone body V \<and> honest V" "P w" "delete_object V dest n w = (r, w')"
  let ?u = "env_turn V w"
  have u: "shrinks body D w ?u" "P ?u" using de.turn [OF w(1)] de.stable_turn [OF P w(1,2)] by blast+
  consider e where "me_fault V (w_requests w) = Some e" "e \<noteq> NotFound" | "me_fault V (w_requests w) = None"
    using w(1) unfolding honest_def by (metis option.exhaust)
  then show "(alone body V \<and> honest V) \<and> shrinks body D w w' \<and> (\<forall>a. r = Inr a \<longrightarrow> P w' \<and> \<not> has w' AtDest n)"
  proof cases
    case (1 e)
    then have "w' = ?u \<and> r = Inl (MStore e)"
      using w(3) by (cases e) (auto simp: delete_object_def bnd_def attempt_def store_delete_def request_def fail_def)
    then show ?thesis using w(1) u by simp
  next
    case 2
    show ?thesis
    proof (cases "has ?u AtDest n")
      case True
      then have "w' = drop_object AtDest n ?u"
        using w(3) 2 d by (auto simp: delete_object_def bnd_def attempt_def store_delete_def request_def ret_def)
      moreover have "shrinks body D ?u (drop_object AtDest n ?u)" by (rule shrinks_drop [OF n])
      ultimately show ?thesis
        using u w(1) P shrinks_trans unfolding stable_def by (metis has_drop_object)
    next
      case False
      then have "w' = ?u"
        using w(3) 2 d by (auto simp: delete_object_def bnd_def attempt_def store_delete_def request_def ret_def)
      then show ?thesis using w(1) u False by simp
    qed
  qed
qed

lemma delete_all_ok:
  assumes d: "db_side dest = AtDest" and D: "set names \<subseteq> D"
    and P: "stable (\<lambda>w. alone body V \<and> honest V) (shrinks body D) P"
  shows "triple (\<lambda>w. alone body V \<and> honest V) (shrinks body D) P (delete_all V dest names k)
    (\<lambda>_ w. P w \<and> (\<forall>n \<in> set names. \<not> has w AtDest n))"
  using D P
proof (induction names arbitrary: k P)
  case Nil
  show ?case unfolding delete_all.simps by (rule de.ret) simp
next
  case (Cons n names)
  have "stable (\<lambda>w. alone body V \<and> honest V) (shrinks body D) (\<lambda>w. P w \<and> \<not> has w AtDest n)"
    by (intro de.stable_conj Cons.prems(2) stable_gone)
  note rest = Cons.IH [OF _ this]
  show ?case unfolding delete_all.simps
    by (rule de.bnd [OF delete_object_ok [OF Cons.prems(2) d]], use Cons.prems(1) in simp,
        rule de.conseq [OF rest]) (use Cons.prems(1) in auto)
qed

definition doomed_data :: "datetime \<Rightarrow> int \<Rightarrow> prune_plan \<Rightarrow> manifest_objects \<Rightarrow> string set" where
  "doomed_data now min_age p s = set (doomed_compacted now min_age p s) \<union> set (doomed_wals now min_age p s)"

lemma prune_apply_result:
  assumes I: "alone body V \<and> honest V" and d: "db_side dest = AtDest"
    and run: "prune_apply V dest min_age now p w = (r, w')"
  shows "shrinks body (set (doomed_manifests p)) w w'
    \<or> (\<exists>s. pp_spared p = Inr s \<and> pp_kept_decoded p \<and> (\<forall>n \<in> set (doomed_manifests p). \<not> has w' AtDest n)
         \<and> shrinks body (set (doomed_manifests p) \<union> doomed_data now min_age p s) w w')"
proof -
  let ?I = "\<lambda>w. alone body V \<and> honest V" and ?M = "set (doomed_manifests p)"
  obtain r1 w1 where 1: "delete_all V dest (doomed_manifests p) 0 w = (r1, w1)" by fastforce
  have s1: "shrinks body ?M w w1" and gone: "\<forall>a. r1 = Inr a \<longrightarrow> (\<forall>n \<in> ?M. \<not> has w1 AtDest n)"
    using tripleD [OF delete_all_ok [OF d order_refl de.stable_const [of _ _ _ True]] I TrueI 1] by blast+
  show ?thesis
  proof (cases r1)
    case (Inl e)
    then have "w' = w1" using run 1 by (simp add: prune_apply_def bnd_def)
    then show ?thesis using s1 by blast
  next
    case (Inr k)
    show ?thesis
    proof (cases "\<exists>s. pp_spared p = Inr s \<and> pp_kept_decoded p")
      case False
      then have "w' = w1" using run 1 Inr by (auto simp: prune_apply_def bnd_def ret_def Let_def split: sum.splits)
      then show ?thesis using s1 by blast
    next
      case True
      then obtain s where s: "pp_spared p = Inr s" "pp_kept_decoded p" by blast
      let ?D = "?M \<union> doomed_data now min_age p s"
      let ?m = "bnd (delete_all V dest (doomed_compacted now min_age p s) 0) (\<lambda>n. delete_all V dest (doomed_wals now min_age p s) n)"
      have c: "set (doomed_compacted now min_age p s) \<subseteq> ?D" "set (doomed_wals now min_age p s) \<subseteq> ?D"
        by (auto simp: doomed_data_def)
      let ?G = "\<lambda>w. \<forall>n \<in> ?M. \<not> has w AtDest n"
      have st: "stable ?I (shrinks body ?D) ?G" by (intro de.stable_ball stable_gone)
      have t: "triple ?I (shrinks body ?D) ?G ?m (\<lambda>_. ?G)"
        by (rule de.bnd [OF de.conseq [OF delete_all_ok [OF d c(1) st]] de.conseq [OF delete_all_ok [OF d c(2) st]]]) auto
      obtain r2 where 2: "?m w1 = (r2, w')"
        using run 1 Inr s by (auto simp: prune_apply_def bnd_def ret_def Let_def split: sum.splits prod.splits)
      have "shrinks body ?D w1 w'" using tripleD [OF t I _ 2] gone Inr by blast
      moreover have "?G w'" using calculation gone Inr unfolding shrinks_def has_def by metis
      ultimately show ?thesis using s shrinks_trans [OF shrinks_mono [OF s1]] by blast
    qed
  qed
qed

subsection \<open>The target after a prune\<close>

lemma doomed_manifest_iff:
  assumes "plan_ok hist w now keep p"
  shows "manifest_rel i \<in> set (doomed_manifests p) \<longleftrightarrow> i \<in> manifest_ids w AtDest \<and> i \<notin> pp_kept p"
proof -
  have "set (map fst (pp_manifests p)) = manifest_ids w AtDest" using assms unfolding plan_ok_def by blast
  then have "manifest_ids w AtDest = fst ` set (pp_manifests p)" by simp
  then show ?thesis by (force simp: doomed_manifests_def image_iff)
qed

lemma doomed_manifests_not_data:
  "n \<in> set (doomed_manifests p) \<Longrightarrow> n \<notin> data_names"
  by (auto simp: doomed_manifests_def)

lemma doomed_data_facts:
  assumes p: "plan_ok hist w now keep p" and n: "n \<in> doomed_data now min_age p s"
  shows "n \<in> data_names \<and> n \<notin> names_of (pp_kept_objects p) \<and> n \<notin> names_of s
    \<and> (\<exists>x. held w AtDest n = Some x \<and> \<not> guarded now min_age (pp_floor p) (so_modified x))
    \<and> (\<forall>j. n = wal_rel j \<longrightarrow> j < pp_tail_floor p)"
proof -
  consider e where "e \<in> set (pp_compacted p)" "n = om_location (snd e)"
      "\<not> (fst e \<in> mo_compacted (pp_kept_objects p) \<or> fst e \<in> mo_compacted s \<or> guarded now min_age (pp_floor p) (om_last_modified (snd e)))"
    | e where "e \<in> set (pp_wals p)" "n = om_location (snd e)"
      "\<not> (pp_tail_floor p \<le> fst e \<or> fst e \<in> mo_wal (pp_kept_objects p) \<or> fst e \<in> mo_wal s
          \<or> guarded now min_age (pp_floor p) (om_last_modified (snd e)))"
    using n unfolding doomed_data_def doomed_compacted_def doomed_wals_def by auto
  then show ?thesis
  proof cases
    case (1 e)
    then obtain x where "n = compacted_rel (fst e)" "held w AtDest n = Some x" "om_last_modified (snd e) = so_modified x"
      using p unfolding plan_ok_def listed_def by metis
    then show ?thesis using 1(3) by (auto simp: names_of_def data_names_def)
  next
    case (2 e)
    then obtain x where "n = wal_rel (fst e)" "held w AtDest n = Some x" "om_last_modified (snd e) = so_modified x"
      using p unfolding plan_ok_def listed_def by metis
    then show ?thesis using 2(3) by (auto simp: names_of_def data_names_def)
  qed
qed

definition intact :: "(nat \<Rightarrow> vmanifest) \<Rightarrow> world \<Rightarrow> nat \<Rightarrow> bool" where
  "intact hist w i \<longleftrightarrow> i \<in> manifest_ids w AtDest \<and> (\<forall>n \<in> names_of (objects_of (hist i)). has w AtDest n)"

definition pruned :: "(string \<Rightarrow> string) \<Rightarrow> prune_plan \<Rightarrow> datetime \<Rightarrow> int \<Rightarrow> world \<Rightarrow> world \<Rightarrow> bool" where
  "pruned body p now min_age w w' \<longleftrightarrow>
     shrinks body (set (doomed_manifests p)) w w'
     \<or> (\<exists>s. pp_spared p = Inr s \<and> pp_kept_decoded p \<and> (\<forall>n \<in> set (doomed_manifests p). \<not> has w' AtDest n)
          \<and> shrinks body (set (doomed_manifests p) \<union> doomed_data now min_age p s) w w')"

lemma pruned_keeps_manifest:
  assumes p: "plan_ok hist w now keep p" and "pruned body p now min_age w w'" and i: "i \<in> pp_kept p"
  shows "i \<in> manifest_ids w' AtDest"
proof -
  have h: "has w AtDest (manifest_rel i)" using p i unfolding plan_ok_def kept_ok_def manifest_ids_def by blast
  have "manifest_rel i \<notin> set (doomed_manifests p)" using doomed_manifest_iff [OF p] i by blast
  moreover have "manifest_rel i \<notin> doomed_data now min_age p s" for s
    using doomed_data_facts [OF p] manifest_rel_not_data by blast
  ultimately have "held w' AtDest (manifest_rel i) = held w AtDest (manifest_rel i)"
    using assms(2) unfolding pruned_def shrinks_def by (metis Un_iff)
  then show ?thesis using h by (simp add: manifest_ids_def has_def)
qed

lemma pruned_keeps_data:
  assumes p: "plan_ok hist w now keep p" and "pruned body p now min_age w w'" and i: "i \<in> manifest_ids w' AtDest"
    and n: "n \<in> names_of (objects_of (hist i))" and h: "has w AtDest n"
  shows "has w' AtDest n"
  using assms(2) unfolding pruned_def
proof (elim disjE exE conjE)
  assume "shrinks body (set (doomed_manifests p)) w w'"
  then show ?thesis using h doomed_manifests_not_data names_of_data [OF n] unfolding shrinks_def has_def by metis
next
  fix s assume s: "pp_kept_decoded p" "\<forall>n \<in> set (doomed_manifests p). \<not> has w' AtDest n"
    "shrinks body (set (doomed_manifests p) \<union> doomed_data now min_age p s) w w'"
  have "has w AtDest (manifest_rel i)"
    using i shrinks_at [OF s(3), of "manifest_rel i"] by (auto simp: manifest_ids_def has_def)
  moreover have "manifest_rel i \<notin> set (doomed_manifests p)" using i s(2) unfolding manifest_ids_def by blast
  ultimately have "i \<in> pp_kept p" using doomed_manifest_iff [OF p] unfolding manifest_ids_def by blast
  moreover have "\<forall>i \<in> pp_kept p. names_of (objects_of (hist i)) \<subseteq> names_of (pp_kept_objects p)"
    using p s(1) unfolding plan_ok_def by (elim conjE) simp
  ultimately have "n \<in> names_of (pp_kept_objects p)" using n by blast
  then have "n \<notin> doomed_data now min_age p s" using doomed_data_facts [OF p] by blast
  moreover have "n \<notin> set (doomed_manifests p)" using doomed_manifests_not_data names_of_data [OF n] by blast
  ultimately show ?thesis using h s(3) unfolding shrinks_def has_def by (metis Un_iff)
qed

lemma pruned_only_deletes:
  assumes "pruned body p now min_age w w'"
  shows "onward body w w'
    \<and> (distinct (map fst (w_objects w AtDest)) \<longrightarrow> distinct (map fst (w_objects w' AtDest)))
    \<and> (\<forall>n x. held w' AtDest n = Some x \<longrightarrow> held w AtDest n = Some x)"
  using assms unfolding pruned_def shrinks_def by (metis option.distinct(1))

lemma pruned_inv:
  assumes p: "plan_ok hist w now keep p" and pr: "pruned body p now min_age w w'" and inv: "mirror_inv hist body w" and "now \<le> w_now w"
  shows "mirror_inv hist body w'"
proof -
  note only = pruned_only_deletes [OF pr]
  have src: "faithful body w' AtSource \<and> typed w' AtSource" and clock: "w_now w \<le> w_now w'"
    and ahead: "\<And>K. at_most w' K \<Longrightarrow> at_most w K" using inv only unfolding mirror_inv_def onward_def by blast+
  have sub: "has w' AtDest n \<Longrightarrow> has w AtDest n" for n using only unfolding has_def by (metis not_Some_eq)
  have "faithful body w' AtSource \<and> faithful body w' AtDest"
    using inv only src unfolding mirror_inv_def faithful_def by blast
  moreover have "typed w' AtSource \<and> typed w' AtDest"
    using inv only sub src unfolding mirror_inv_def typed_def by auto
  moreover have "\<forall>n. has w' AtDest n \<longrightarrow> n \<in> layout_names" using inv sub unfolding mirror_inv_def by blast
  moreover have "complete hist w'" unfolding complete_def
  proof (intro ballI)
    fix i n assume i: "i \<in> manifest_ids w' AtDest" and n: "n \<in> names_of (objects_of (hist i))"
    have "i \<in> manifest_ids w AtDest" using i sub unfolding manifest_ids_def by blast
    then have "has w AtDest n" using inv n unfolding mirror_inv_def complete_def by blast
    then show "has w' AtDest n" by (rule pruned_keeps_data [OF p pr i n])
  qed
  moreover have "supported hist (w_now w') K i w'" if i: "newest w' AtDest i" and K: "at_most w' K" for i K
    unfolding supported_def
  proof (intro ballI allI impI, elim conjE)
    fix cp t k cp' assume cp: "cp \<in> set (vm_checkpoints (hist i))" "w_now w' \<le> t" "K \<le> k" "cp' \<in> set (vm_checkpoints (hist k))"
      "checkpoint_live cp t" "checkpoint_live cp' t" "cp_id cp' = cp_id cp"
    have iw: "i \<in> manifest_ids w AtDest" using i sub unfolding newest_def manifest_ids_def by blast
    have fin: "finite (manifest_ids w AtDest)" using p unfolding plan_ok_def by (metis finite_set)
    have L: "newest w AtDest (Max (manifest_ids w AtDest))" unfolding newest_def using Max_in [OF fin] iw Max_ge [OF fin] by blast
    then have "Max (manifest_ids w AtDest) \<in> manifest_ids w' AtDest"
      using pruned_keeps_manifest [OF p pr] p unfolding plan_ok_def by blast
    then have new: "newest w AtDest i" using L i iw unfolding newest_def by (metis order_antisym)
    have "at_most w K" by (rule ahead [OF K])
    then have "supported hist (w_now w) K i w" using inv new unfolding mirror_inv_def by blast
    moreover have t: "w_now w \<le> t" using cp(2) clock by linarith
    ultimately have m: "cp_manifest_id cp \<in> manifest_ids w AtDest" using supported_get cp by blast
    have "checkpoint_live cp now" by (rule live_earlier [OF cp(5)]) (use t \<open>now \<le> w_now w\<close> in linarith)
    then have "cp_manifest_id cp \<in> pp_kept p"
      using p iw new m cp(1) unfolding plan_ok_def kept_ok_def restore_point_def by blast
    then show "cp_manifest_id cp \<in> manifest_ids w' AtDest" by (rule pruned_keeps_manifest [OF p pr])
  qed
  ultimately show ?thesis unfolding mirror_inv_def by blast
qed

lemma shrinks_from: "shrinks body D u w' \<Longrightarrow> source_change body w u \<Longrightarrow> shrinks body D w w'"
  unfolding shrinks_def source_change_iff held_def using onward_trans by (metis (no_types))

lemma pruned_from:
  assumes "pruned body p now min_age u w'" and "source_change body w u"
  shows "pruned body p now min_age w w'"
  using assms(1) shrinks_from [OF _ assms(2)] unfolding pruned_def by blast

lemma prune_run:
  assumes env: "alone body V" "honest V" "history_ok hist" "manifest_reads hist body V"
    and inv: "mirror_inv hist body w" and sides: "db_side source = AtSource" "db_side dest = AtDest"
    and run: "prune V source dest target settings w = (r, w')"
  shows "source_change body w w'
    \<or> (\<exists>keep p. rt_keep settings = Some keep \<and> plan_ok hist w (w_now w) (int keep) p
         \<and> (\<forall>s. pp_spared p = Inr s \<longrightarrow> spares_source body hist w w' s)
         \<and> pruned body p (w_now w) (int (rt_min_age settings)) w w')"
proof (cases "rt_keep settings")
  case None
  then show ?thesis using run by (simp add: prune_def prune_at_def bnd_def get_now_def ret_def)
next
  case (Some keep)
  let ?now = "w_now w" and ?age = "int (rt_min_age settings)"
  let ?w = "w\<lparr>w_cache := Map.empty\<rparr>"
  obtain r1 u where s: "prune_survey V source dest target (int keep) ?age ?now ?w = (r1, u)" by fastforce
  have s': "prune_survey V source dest target (int keep) ?age ?now w = (r1, u)"
    using s by (simp add: prune_survey_def bnd_def cache_reset_def)
  have "survey_inv hist body V w ?w" using env inv by (simp add: survey_inv_def cache_ok_def)
  from tripleD [OF prune_survey_ok [OF sides] this TrueI s]
  have u: "source_change body w u" "\<forall>p. r1 = Inr (Some p) \<longrightarrow> plan_found body hist w ?now (int keep) (Some p) u"
    by (auto simp: survey_inv_def)
  show ?thesis
  proof (cases "\<exists>p. r1 = Inr (Some p)")
    case True
    then obtain p where p: "r1 = Inr (Some p)" by blast
    then have "prune_apply V dest ?age ?now p u = (r, w')"
      using run Some s' by (simp add: prune_def prune_at_def bnd_def get_now_def)
    then have pr: "pruned body p ?now ?age u w'" unfolding pruned_def
      using prune_apply_result [OF _ sides(2)] env(1,2) by blast
    have f: "plan_ok hist w ?now (int keep) p" "\<forall>s. pp_spared p = Inr s \<longrightarrow> spares_source body hist w u s"
      using u(2) p unfolding plan_found_def by blast+
    have "onward body u w'" using pruned_only_deletes [OF pr] by blast
    then have "\<forall>s. pp_spared p = Inr s \<longrightarrow> spares_source body hist w w' s" using f(2) spares_source_later by blast
    then show ?thesis using Some f(1) pruned_from [OF pr u(1)] by blast
  next
    case False
    then have "w' = u"
      using run Some s' by (cases r1) (auto simp: prune_def prune_at_def bnd_def get_now_def ret_def split: option.splits)
    then show ?thesis using u by simp
  qed
qed

lemma prune_mirror:
  assumes "alone body V" "honest V" "history_ok hist" "manifest_reads hist body V"
    and inv: "mirror_inv hist body w" and "db_side source = AtSource" "db_side dest = AtDest"
    and "prune V source dest target settings w = (r, w')"
  shows "mirror_inv hist body w' \<and> onward body w w'
    \<and> (\<forall>n x. held w' AtDest n = Some x \<longrightarrow> held w AtDest n = Some x)
    \<and> (\<forall>i. newest w AtDest i \<longrightarrow> i \<in> manifest_ids w' AtDest)"
  using prune_run [OF assms]
proof (elim disjE exE conjE)
  assume ch: "source_change body w w'"
  then have "held w' AtDest = held w AtDest" by (simp add: source_change_iff held_def fun_eq_iff)
  then show ?thesis
    using source_change_inv [OF inv ch] ch by (simp add: source_change_iff newest_def manifest_ids_def has_def)
next
  fix keep p
  assume p: "plan_ok hist w (w_now w) (int keep) p" and pr: "pruned body p (w_now w) (int (rt_min_age settings)) w w'"
  have "i \<in> pp_kept p" if "newest w AtDest i" for i using p that unfolding plan_ok_def by blast
  then show ?thesis
    using pruned_inv [OF p pr inv order_refl] pruned_only_deletes [OF pr] pruned_keeps_manifest [OF p pr] by blast
qed

subsection \<open>Properties of a prune\<close>

text \<open>
  C6. A prune never costs a restore point. Beside a source that writers and garbage collection
  keep changing, whatever fails and wherever it stops, a prune only deletes; the target is still a
  mirror afterwards; the newest manifest and every manifest younger than the retention are still
  there with every object they reference, and so are the manifests their live checkpoints pin; and
  without a retention nothing is deleted at all.
\<close>

theorem prune_keeps_restore_points:
  assumes "alone body V" "honest V" "history_ok hist" "manifest_reads hist body V"
    and inv: "mirror_inv hist body w" and "db_side source = AtSource" "db_side dest = AtDest"
    and "prune V source dest target settings w = (r, w')"
  shows "mirror_inv hist body w' \<and> onward body w w'
    \<and> (\<forall>n x. held w' AtDest n = Some x \<longrightarrow> held w AtDest n = Some x)
    \<and> (rt_keep settings = None \<longrightarrow> w_objects w' AtDest = w_objects w AtDest)
    \<and> (\<forall>keep i. rt_keep settings = Some keep \<and> i \<in> manifest_ids w AtDest \<and> restore_point w (w_now w) (int keep) i \<longrightarrow>
         intact hist w' i
         \<and> (\<forall>cp \<in> set (vm_checkpoints (hist i)). checkpoint_live cp (w_now w) \<and> cp_manifest_id cp \<in> manifest_ids w AtDest \<longrightarrow>
              intact hist w' (cp_manifest_id cp)))"
proof -
  note m = prune_mirror [OF assms]
  have intact: "intact hist w' i \<longleftrightarrow> i \<in> manifest_ids w' AtDest" for i
    using m unfolding intact_def mirror_inv_def complete_def by blast
  have "(rt_keep settings = None \<longrightarrow> w_objects w' AtDest = w_objects w AtDest)
    \<and> (\<forall>keep i. rt_keep settings = Some keep \<and> i \<in> manifest_ids w AtDest \<and> restore_point w (w_now w) (int keep) i \<longrightarrow>
         intact hist w' i
         \<and> (\<forall>cp \<in> set (vm_checkpoints (hist i)). checkpoint_live cp (w_now w) \<and> cp_manifest_id cp \<in> manifest_ids w AtDest \<longrightarrow>
              intact hist w' (cp_manifest_id cp)))"
    using prune_run [OF assms]
  proof (elim disjE exE conjE)
    assume ch: "source_change body w w'"
    then have "manifest_ids w' AtDest = manifest_ids w AtDest"
      by (simp add: source_change_iff manifest_ids_def has_def held_def)
    then show ?thesis using ch by (simp add: intact source_change_iff)
  next
    fix keep p
    assume s: "rt_keep settings = Some keep" and p: "plan_ok hist w (w_now w) (int keep) p"
      and pr: "pruned body p (w_now w) (int (rt_min_age settings)) w w'"
    have "kept_ok hist w (w_now w) (int keep) (pp_kept p)" using p unfolding plan_ok_def by blast
    then have "\<forall>i. i \<in> manifest_ids w AtDest \<and> restore_point w (w_now w) (int keep) i \<longrightarrow>
        intact hist w' i \<and> (\<forall>cp \<in> set (vm_checkpoints (hist i)).
           checkpoint_live cp (w_now w) \<and> cp_manifest_id cp \<in> manifest_ids w AtDest \<longrightarrow> intact hist w' (cp_manifest_id cp))"
      using pruned_keeps_manifest [OF p pr] unfolding kept_ok_def intact by blast
    then show ?thesis using s by simp
  qed
  then show ?thesis using m by blast
qed


subsection \<open>A concrete prune\<close>

definition stale_world :: world where
  "stale_world =
     \<lparr>w_objects = (\<lambda>d. case d of
        AtSource \<Rightarrow> [demo_stored (manifest_rel 2), demo_stored (wal_rel 1)]
      | AtDest \<Rightarrow> [demo_stored (manifest_rel 1), demo_stored (manifest_rel 2), demo_stored (wal_rel 0), demo_stored (wal_rel 1)]),
      w_now = 10 ^ 18, w_instant = 0, w_requests = 0, w_cache = Map.empty\<rparr>"

definition stale_settings :: resolved_mirror_target where
  "stale_settings = default_resolved_mirror_target\<lparr>rt_keep := Some 1000\<rparr>"

lemma stale_world_objects:
  "held stale_world AtSource n = (if n = manifest_rel 2 \<or> n = wal_rel 1 then Some \<lparr>so_bytes = n, so_modified = 0\<rparr> else None)"
  "held stale_world AtDest n = (if n = manifest_rel 1 \<or> n = manifest_rel 2 \<or> n = wal_rel 0 \<or> n = wal_rel 1
     then Some \<lparr>so_bytes = n, so_modified = 0\<rparr> else None)"
  by (auto simp: stale_world_def held_def demo_stored_def)

lemma stale_world_inv: "mirror_inv demo_hist (\<lambda>n. n) stale_world"
proof -
  have "distinct (map fst (w_objects stale_world d))" for d
    by (cases d) (simp_all add: stale_world_def demo_stored_def)
  then have t: "typed stale_world d" for d
    by (cases d) (auto simp: typed_def has_def typed_name_def stale_world_objects split: if_splits)
  show ?thesis
    by (simp add: mirror_inv_def t) (auto simp: faithful_def has_def complete_def manifest_ids_def layout_names_def
          data_names_def stale_world_objects supported_def demo_objects names_of_def split: if_splits)
qed

definition stale_meta :: "string \<Rightarrow> object_meta" where
  "stale_meta n = \<lparr>om_location = n, om_last_modified = 0, om_size = length n, om_e_tag = None\<rparr>"

lemma stale_lists:
  assumes "w_objects w = w_objects stale_world"
  shows "list_manifests demo_env demo_dest w =
      (Inr [(1, stale_meta (manifest_rel 1)), (2, stale_meta (manifest_rel 2))], w\<lparr>w_requests := Suc (w_requests w)\<rparr>)"
    and "list_wals demo_env demo_dest w =
      (Inr [(0, stale_meta (wal_rel 0)), (1, stale_meta (wal_rel 1))], w\<lparr>w_requests := Suc (w_requests w)\<rparr>)"
    and "list_compacted demo_env demo_dest w = (Inr [], w\<lparr>w_requests := Suc (w_requests w)\<rparr>)"
  using assms
  by (simp_all add: list_manifests_def list_wals_def list_compacted_def list_dir_def store_list_def metas_def bnd_def ret_def
     attempt_def request_def stale_world_def demo_stored_def dir_takes stale_meta_def parsed_metas_def by_id_def
     List.map_filter_simps manifest_name_roundtrip wal_name_roundtrip)

lemma stale_reads:
  assumes "w_objects w = w_objects stale_world"
  shows "demo_read w AtSource None = Inr (Some (demo_hist 2))" and "demo_read w AtDest (Some 2) = Inr (Some (demo_hist 2))"
  using assms by (simp_all add: demo_eval stale_world_def)

lemma stale_run:
  "\<exists>r w'. prune demo_env demo_source demo_dest ''dr'' stale_settings stale_world = (r, w')
     \<and> \<not> has w' AtDest (manifest_rel 1) \<and> \<not> has w' AtDest (wal_rel 0)"
proof -
  have now: "w_now stale_world = 10 ^ 18" "me_list_checkpoints demo_env w name = Inr []" for w name
    by (simp_all add: stale_world_def demo_env_def)
  have d: "w_objects stale_world AtDest = [demo_stored (manifest_rel 1), demo_stored (manifest_rel 2), demo_stored (wal_rel 0), demo_stored (wal_rel 1)]"
    by (simp add: stale_world_def)
  show ?thesis
    by (simp add: prune_def prune_at_def prune_survey_def run_simps stale_settings_def cache_reset_def stale_lists last_opt_def
        survey_latest_def source_closure_def stale_reads pin_floor_def admin_list_checkpoints_def now survey_kept_def
        restore_points_def stale_meta_def demo_objects)
      (simp add: prune_apply_def doomed_manifests_def doomed_wals_def doomed_compacted_def run_simps delete_object_def
        store_delete_def guarded_def default_resolved_mirror_target_def from_secs_def drop_object_def has_def held_def d demo_stored_def)
qed

lemma demo_quiet: "alone (\<lambda>n. n) demo_env" "honest demo_env"
  by (simp_all add: alone_def honest_def) (simp add: demo_env_def)

theorem prune_keeps_restore_points_witness:
  "\<exists>r w'. prune demo_env demo_source demo_dest ''dr'' stale_settings stale_world = (r, w')
     \<and> \<not> has w' AtDest (manifest_rel 1) \<and> intact demo_hist w' 2 \<and> mirror_inv demo_hist (\<lambda>n. n) w'"
proof -
  obtain r w' where run: "prune demo_env demo_source demo_dest ''dr'' stale_settings stale_world = (r, w')"
    and gone: "\<not> has w' AtDest (manifest_rel 1)" using stale_run by blast
  have "newest stale_world AtDest 2"
    by (auto simp: newest_def manifest_ids_def has_def stale_world_objects split: if_splits)
  then have "2 \<in> manifest_ids stale_world AtDest \<and> restore_point stale_world (w_now stale_world) (int 1000) 2"
    by (simp add: restore_point_def newest_def)
  then have "intact demo_hist w' 2 \<and> mirror_inv demo_hist (\<lambda>n. n) w'"
    using prune_keeps_restore_points [OF demo_quiet demo_history demo_reads stale_world_inv demo_handles run]
    by (simp add: stale_settings_def)
  then show ?thesis using run gone by blast
qed


end
