(* ===== verification/Mirror_Restore.thy ===== *)
theory Mirror_Restore
  imports Mirror_Prune
begin

text \<open>
  \<^verbatim>\<open>src/mirror/restore.rs\<close>: restoring a backup at a chosen point into an empty root. The backup
  is the source side of the world and the restored root its destination side. Reading and printing
  timestamps is chrono's work: \<open>time_format\<close> is a parameter of the definitions, and so is
  SlateDB's sequence tracker (\<open>me_find_ts\<close>). The theorems say that a completed restore is a
  whole database at the requested point and that a root with anything in it is never touched.
\<close>

record time_format =
  tf_parse :: "string \<Rightarrow> datetime option"
  tf_rfc3339 :: "datetime \<Rightarrow> string"
  tf_debug :: "datetime \<Rightarrow> string"

datatype restore_at = Latest | Manifest nat | Time datetime

definition restore_parse :: "time_format \<Rightarrow> string \<Rightarrow> string + restore_at" where
  "restore_parse F at_arg =
     (case parse_u64 at_arg of
        Some i \<Rightarrow> Inr (Manifest i)
      | None \<Rightarrow>
          (case tf_parse F at_arg of
             Some t \<Rightarrow> Inr (Time t)
           | None \<Rightarrow> Inl (''--at '' @ debug_str at_arg @ '' is neither a manifest id nor an RFC 3339 timestamp'')))"

definition debug_point :: "time_format \<Rightarrow> restore_at \<Rightarrow> string" where
  "debug_point F point =
     (case point of
        Latest \<Rightarrow> ''Latest''
      | Manifest i \<Rightarrow> ''Manifest('' @ show_nat i @ '')''
      | Time t \<Rightarrow> ''Time('' @ tf_debug F t @ '')'')"

record restore_outcome =
  ro_manifest_id :: nat
  ro_manifests_committed :: nat
  ro_copied_objects :: nat
  ro_copied_bytes :: nat

subsection \<open>Choosing the point\<close>

fun newest_within ::
  "mirror_env \<Rightarrow> time_format \<Rightarrow> db_handle \<Rightarrow> vmanifest \<Rightarrow> datetime \<Rightarrow> nat list \<Rightarrow> (mirror_error, nat) act" where
  "newest_within V F backup head ts [] =
     fail (NoRestorePoint (tf_rfc3339 F ts) ''the timestamp predates the backup's tracked history'')"
| "newest_within V F backup head ts (i # ids) =
     bnd (admin_read_manifest V backup (Some i)) (\<lambda>r.
     case r of
       None \<Rightarrow> newest_within V F backup head ts ids
     | Some m \<Rightarrow>
         (case me_find_ts V head (vm_last_l0_seq m) of
            None \<Rightarrow> newest_within V F backup head ts ids
          | Some m_ts \<Rightarrow> if m_ts \<le> ts then ret i else newest_within V F backup head ts ids))"

definition resolve_point ::
  "mirror_env \<Rightarrow> time_format \<Rightarrow> db_handle \<Rightarrow> (nat \<times> object_meta) list \<Rightarrow> restore_at \<Rightarrow> (mirror_error, nat) act" where
  "resolve_point V F backup manifests point =
     (case point of
        Latest \<Rightarrow> ret (fst (last manifests))
      | Manifest i \<Rightarrow>
          if i \<in> set (map fst manifests) then ret i
          else fail (NoRestorePoint (show_nat i) (''the backup has no manifest '' @ show_nat i))
      | Time ts \<Rightarrow>
          bnd (admin_read_manifest V backup (Some (fst (last manifests)))) (\<lambda>r.
          case r of
            None \<Rightarrow> fail (NotADatabase (db_url backup))
          | Some head \<Rightarrow> newest_within V F backup head ts (rev (map fst manifests))))"

subsection \<open>Restoring\<close>

definition root_has_any :: "mirror_env \<Rightarrow> db_handle \<Rightarrow> (store_error, bool) act" where
  "root_has_any V db = request V (\<lambda>w. (Inr (w_objects w (db_side db) \<noteq> []), w))"

definition dangling :: "time_format \<Rightarrow> restore_at \<Rightarrow> nat \<Rightarrow> checkpoint \<Rightarrow> mirror_error" where
  "dangling F point chosen cp =
     NoRestorePoint (debug_point F point)
       (''manifest '' @ show_nat chosen @ '' is closure support, not a restore point: its live checkpoint pins manifest ''
          @ show_nat (cp_manifest_id cp) @ '', which the backup no longer has'')"

fun restore_members ::
  "mirror_env \<Rightarrow> db_handle \<Rightarrow> (checkpoint \<Rightarrow> mirror_error) \<Rightarrow> nat \<Rightarrow> datetime \<Rightarrow> checkpoint list
     \<Rightarrow> (nat, manifest_objects) btree \<Rightarrow> (mirror_error, (nat, manifest_objects) btree) act" where
  "restore_members V backup err chosen now [] members = ret members"
| "restore_members V backup err chosen now (cp # cps) members =
     (if \<not> checkpoint_live cp now \<or> cp_manifest_id cp = chosen then restore_members V backup err chosen now cps members
      else bnd (admin_read_manifest V backup (Some (cp_manifest_id cp))) (\<lambda>r.
        case r of
          Some pinned \<Rightarrow> restore_members V backup err chosen now cps (bt_insert (cp_manifest_id cp) (objects_of pinned) members)
        | None \<Rightarrow> fail (err cp)))"

fun restore_commit :: "mirror_env \<Rightarrow> db_handle \<Rightarrow> db_handle \<Rightarrow> nat list \<Rightarrow> nat \<Rightarrow> (mirror_error, nat) act" where
  "restore_commit V backup dest [] committed = ret committed"
| "restore_commit V backup dest (i # ids) committed =
     bnd (map_err MStore (store_get V backup (manifest_rel i))) (\<lambda>get.
     bnd (map_err MStore (store_bytes V get)) (\<lambda>bytes.
     bnd (map_err MStore (store_create V dest (manifest_rel i) bytes)) (\<lambda>_.
     restore_commit V backup dest ids (committed + 1))))"

definition restore_copier :: "db_handle \<Rightarrow> db_handle \<Rightarrow> copier" where
  "restore_copier backup dest = copier_new (default_resolved_mirror_target\<lparr>rt_copier := Builtin\<rparr>) None backup dest"

definition restore_closure ::
  "mirror_env \<Rightarrow> time_format \<Rightarrow> db_handle \<Rightarrow> db_handle \<Rightarrow> restore_at \<Rightarrow> nat \<Rightarrow> vmanifest \<Rightarrow> (mirror_error, restore_outcome) act" where
  "restore_closure V F backup dest point chosen manifest =
     bnd get_now (\<lambda>now.
     bnd (restore_members V backup (dangling F point chosen) chosen now (vm_checkpoints manifest)
            (bt_insert chosen (objects_of manifest) [])) (\<lambda>members.
     bnd (copier_copy V (restore_copier backup dest) ret (\<lambda>_ e. e) ()
            (rel_names (fold (\<lambda>e a. mo_extend a (snd e)) members no_objects))) (\<lambda>(copied, _).
     bnd (restore_commit V backup dest (map fst members) 0) (\<lambda>committed.
     ret \<lparr>ro_manifest_id = chosen, ro_manifests_committed = committed, ro_copied_objects = cd_objects copied,
          ro_copied_bytes = cd_bytes copied\<rparr>))))"

definition restore ::
  "mirror_env \<Rightarrow> time_format \<Rightarrow> db_handle \<Rightarrow> db_handle \<Rightarrow> restore_at \<Rightarrow> (mirror_error, restore_outcome) act" where
  "restore V F backup dest point =
     bnd (map_err MStore (root_has_any V dest)) (\<lambda>existing.
     if existing then fail (DestinationNotEmpty (db_url dest))
     else
       bnd (list_manifests V backup) (\<lambda>manifests.
       if manifests = [] then fail (NotADatabase (db_url backup))
       else
         bnd (resolve_point V F backup manifests point) (\<lambda>chosen.
         bnd (admin_read_manifest V backup (Some chosen)) (\<lambda>r.
         case r of
           None \<Rightarrow> fail (NoRestorePoint (debug_point F point) (''manifest '' @ show_nat chosen @ '' vanished from the backup''))
         | Some manifest \<Rightarrow> restore_closure V F backup dest point chosen manifest))))"

subsection \<open>What a restore finds in the backup\<close>

definition gone_between :: "world \<Rightarrow> world \<Rightarrow> nat \<Rightarrow> bool" where
  "gone_between w w' j \<longleftrightarrow> (\<exists>v. evolves w v \<and> evolves v w' \<and> j \<notin> manifest_ids v AtSource)"

lemma stable_gone_between: "stable (task_inv hist body V) evolves (\<lambda>w. C \<or> gone_between w0 w j)"
  unfolding stable_def gone_between_def using evolves_trans by blast

lemma stable_since_start: "stable (task_inv hist body V) evolves (evolves w0)"
  by (rule mp.stable_since)

lemma listing_has_all:
  assumes "typed w AtSource" and "i \<in> manifest_ids w AtSource"
  shows "i \<in> set (map fst (by_id (parsed_metas parse_manifest_name (metas AtSource MANIFEST_DIR w))))"
proof -
  have dist: "distinct (map fst (w_objects w AtSource))" and i: "i < 2 ^ 64"
    using assms by (auto simp: typed_def typed_name_def manifest_ids_def)
  obtain x where x: "held w AtSource (manifest_rel i) = Some x" using assms(2) by (auto simp: manifest_ids_def has_def)
  let ?m = "\<lparr>om_location = manifest_rel i, om_last_modified = so_modified x, om_size = length (so_bytes x), om_e_tag = None\<rparr>"
  have "?m \<in> set (metas AtSource MANIFEST_DIR w)"
    unfolding meta_of_held [OF dist] using x by (simp add: dir_takes)
  moreover have "Option.bind (filename (om_location ?m)) parse_manifest_name = Some i"
    using manifest_name_roundtrip [OF i] by simp
  ultimately have "(i, ?m) \<in> set (parsed_metas parse_manifest_name (metas AtSource MANIFEST_DIR w))"
    unfolding parsed_metas_def List.map_filter_def by force
  then show ?thesis by (force simp: by_id_set)
qed

definition surveyed :: "world \<Rightarrow> (nat \<times> object_meta) list \<Rightarrow> world \<Rightarrow> bool" where
  "surveyed w0 ms w \<longleftrightarrow>
     sorted (map fst ms)
     \<and> (ms \<noteq> [] \<longrightarrow> at_most w0 (fst (last ms))
          \<and> (\<forall>j \<in> manifest_ids w0 AtSource. j \<in> set (map fst ms) \<or> gone_between w0 w j))"

lemma stable_surveyed: "stable (task_inv hist body V) evolves (surveyed w0 ms)"
  unfolding surveyed_def by (intro stable_facts stable_gone_between)

lemma last_is_largest: "sorted (map fst ms) \<Longrightarrow> e \<in> set ms \<Longrightarrow> fst e \<le> fst (last ms)"
  by (induction ms) auto

lemma surveyed_listing:
  assumes w: "task_inv hist body V w" and w0: "evolves w0 w"
  shows "surveyed w0 (by_id (parsed_metas parse_manifest_name (metas AtSource MANIFEST_DIR w))) w"
proof -
  let ?ms = "by_id (parsed_metas parse_manifest_name (metas AtSource MANIFEST_DIR w))"
  have all: "i \<in> set (map fst ?ms)" if "i \<in> manifest_ids w AtSource" for i
    using listing_has_all task_faithful [OF w] that by blast
  have s: "sorted (map fst ?ms)" by (rule sorted_by_id)
  have "at_most w (fst (last ?ms))"
    unfolding at_most_def
  proof
    fix i assume "i \<in> manifest_ids w AtSource"
    then obtain e where "e \<in> set ?ms" "i = fst e" using all [of i] by (auto simp del: split_paired_Ex)
    then show "i \<le> fst (last ?ms)" using last_is_largest [OF s] by blast
  qed
  then have "at_most w0 (fst (last ?ms))" using w0 unfolding evolves_def by blast
  moreover have "j \<in> set (map fst ?ms) \<or> gone_between w0 w j" for j
    using all w0 evolves_refl unfolding gone_between_def by blast
  ultimately show ?thesis using s unfolding surveyed_def by blast
qed

lemma list_backup_ok:
  assumes s: "db_side backup = AtSource"
  shows "triple (task_inv hist body V) evolves (evolves w0) (list_manifests V backup) (\<lambda>ms w. evolves w0 w \<and> surveyed w0 ms w)"
proof -
  have e: "by_id (parsed_metas parse_manifest_name []) = []" by (simp add: parsed_metas_def by_id_def List.map_filter_def)
  have "triple (task_inv hist body V) evolves (evolves w0) (list_dir V backup MANIFEST_DIR)
      (\<lambda>ms w. evolves w0 w \<and> surveyed w0 (by_id (parsed_metas parse_manifest_name ms)) w)"
    by (rule mp.list_dir [OF stable_since_start]) (use surveyed_listing in \<open>simp_all add: s e surveyed_def\<close>)
  then show ?thesis unfolding list_manifests_def by (rule mp.bnd) (rule mp.ret)
qed

lemma read_backup_ok:
  assumes s: "db_side backup = AtSource" and P: "stable (task_inv hist body V) evolves P"
  shows "triple (task_inv hist body V) evolves P (admin_read_manifest V backup (Some i))
    (\<lambda>r w. P w \<and> (\<forall>m. r = Some m \<longrightarrow> m = hist i \<and> reached i w) \<and> (r = None \<longrightarrow> i \<notin> manifest_ids w AtSource))"
proof (rule mp.admin_read_manifest [OF P], unfold s)
  fix w r assume w: "task_inv hist body V w" "P w" "me_read_manifest V w AtSource (Some i) = Inr r"
  have "r = None \<Longrightarrow> i \<notin> manifest_ids w AtSource"
    using task_faithful [OF w(1), of AtSource] w unfolding task_inv_def env_ok_def manifest_reads_def by blast
  moreover have "m = hist i \<and> reached i w" if "r = Some m" for m
    using read_by_id [OF w(1)] w(3) that unfolding reached_def at_most_def by blast
  ultimately show "P w \<and> (\<forall>m. r = Some m \<longrightarrow> m = hist i \<and> reached i w) \<and> (r = None \<longrightarrow> i \<notin> manifest_ids w AtSource)"
    using w(2) by blast
qed

definition too_new :: "mirror_env \<Rightarrow> (nat \<Rightarrow> vmanifest) \<Rightarrow> nat \<Rightarrow> datetime \<Rightarrow> nat \<Rightarrow> bool" where
  "too_new V hist L ts j \<longleftrightarrow> (\<forall>t. me_find_ts V (hist L) (vm_last_l0_seq (hist j)) = Some t \<longrightarrow> ts < t)"

definition within :: "mirror_env \<Rightarrow> (nat \<Rightarrow> vmanifest) \<Rightarrow> nat \<Rightarrow> datetime \<Rightarrow> nat \<Rightarrow> bool" where
  "within V hist L ts i \<longleftrightarrow> (\<exists>t. me_find_ts V (hist L) (vm_last_l0_seq (hist i)) = Some t \<and> t \<le> ts)"

lemma newest_within_ok:
  assumes s: "db_side backup = AtSource"
  shows "triple (task_inv hist body V) evolves
    (\<lambda>w. evolves w0 w \<and> (\<forall>j \<in> set skipped. too_new V hist L ts j \<or> gone_between w0 w j))
    (newest_within V F backup (hist L) ts ids)
    (\<lambda>i w. evolves w0 w \<and> within V hist L ts i
       \<and> (\<exists>before after. skipped @ ids = before @ i # after \<and> (\<forall>j \<in> set before. too_new V hist L ts j \<or> gone_between w0 w j)))"
proof (induction ids arbitrary: skipped)
  case Nil
  show ?case unfolding newest_within.simps by (rule mp.fail)
next
  case (Cons i ids)
  let ?I = "task_inv hist body V" and ?more = "newest_within V F backup (hist L) ts ids"
  let ?S = "\<lambda>sk w. evolves w0 w \<and> (\<forall>j \<in> set sk. too_new V hist L ts j \<or> gone_between w0 w j)"
  let ?Q = "\<lambda>i' w. evolves w0 w \<and> within V hist L ts i'
       \<and> (\<exists>before after. skipped @ i # ids = before @ i' # after \<and> (\<forall>j \<in> set before. too_new V hist L ts j \<or> gone_between w0 w j))"
  let ?pick = "\<lambda>m. case me_find_ts V (hist L) (vm_last_l0_seq m) of None \<Rightarrow> ?more | Some m_ts \<Rightarrow> if m_ts \<le> ts then ret i else ?more"
  have st: "stable ?I evolves (?S skipped)"
    by (intro mp.stable_conj mp.stable_ball stable_gone_between stable_since_start)
  have more: "triple ?I evolves (?S (skipped @ [i])) ?more ?Q"
    using Cons.IH [of "skipped @ [i]"] by simp
  have "triple ?I evolves (?S skipped) (?pick (hist i)) ?Q"
  proof (cases "within V hist L ts i")
    case True
    then obtain t where t: "me_find_ts V (hist L) (vm_last_l0_seq (hist i)) = Some t" "t \<le> ts" by (auto simp: within_def)
    show ?thesis unfolding t(1) option.case if_P [OF t(2)] by (rule mp.ret) (use True in blast)
  next
    case False
    have "triple ?I evolves (?S skipped) ?more ?Q"
      by (rule mp.pre [OF more]) (use False in \<open>auto simp: within_def too_new_def not_le\<close>)
    then show ?thesis using False by (auto simp: within_def split: option.splits)
  qed
  then have pick: "triple ?I evolves (\<lambda>w. ?S skipped w \<and> m = hist i) (?pick m) ?Q" for m by (intro mp.pull) simp
  have gone: "?S (skipped @ [i]) w" if "?S skipped w" "i \<notin> manifest_ids w AtSource" for w
    using that by (auto simp: gone_between_def intro: evolves_refl)
  show ?case unfolding newest_within.simps
  proof (rule mp.bnd_option [OF read_backup_ok [OF s st]], unfold option.case)
    show "triple ?I evolves (\<lambda>w. ?S skipped w \<and> (\<forall>m. None = Some m \<longrightarrow> m = hist i \<and> reached i w)
        \<and> (None = None \<longrightarrow> i \<notin> manifest_ids w AtSource)) ?more ?Q"
      by (rule mp.pre [OF more]) (use gone in blast)
    show "triple ?I evolves (\<lambda>w. ?S skipped w \<and> (\<forall>m. Some a = Some m \<longrightarrow> m = hist i \<and> reached i w)
        \<and> (Some a = None \<longrightarrow> i \<notin> manifest_ids w AtSource)) (?pick a) ?Q" for a
      by (rule mp.pre [OF pick]) blast
  qed
qed

definition point_ok :: "mirror_env \<Rightarrow> (nat \<Rightarrow> vmanifest) \<Rightarrow> restore_at \<Rightarrow> world \<Rightarrow> nat \<Rightarrow> world \<Rightarrow> bool" where
  "point_ok V hist point w0 i w \<longleftrightarrow>
     (case point of
        Latest \<Rightarrow> at_most w0 i
      | Manifest j \<Rightarrow> i = j
      | Time ts \<Rightarrow>
          (\<exists>L. at_most w0 L \<and> within V hist L ts i
             \<and> (\<forall>j \<in> manifest_ids w0 AtSource. i < j \<longrightarrow> too_new V hist L ts j \<or> gone_between w0 w j)))"

lemma stable_point_ok: "stable (task_inv hist body V) evolves (point_ok V hist point w0 i)"
  unfolding point_ok_def by (cases point) (simp_all, (intro stable_facts stable_gone_between)+)

lemma newest_first:
  assumes "sorted (map fst ms)" and "rev (map fst ms) = before @ i # after" and "j \<in> set (map fst ms)" and "i < j"
  shows "j \<in> set before"
proof -
  have "sorted_wrt (\<lambda>a b. b \<le> a) (rev (map fst ms))" using assms(1) by (simp only: sorted_wrt_rev)
  then have "sorted_wrt (\<lambda>a b. b \<le> a) (before @ i # after)" unfolding assms(2) .
  moreover have "j \<in> set (before @ i # after)" unfolding assms(2) [symmetric] using assms(3) by (simp only: set_rev)
  ultimately show ?thesis using assms(4) by (auto simp: sorted_wrt_append)
qed

lemma resolve_point_ok:
  assumes s: "db_side backup = AtSource" and ms: "ms \<noteq> []"
  shows "triple (task_inv hist body V) evolves (\<lambda>w. evolves w0 w \<and> surveyed w0 ms w) (resolve_point V F backup ms point)
    (\<lambda>i w. evolves w0 w \<and> point_ok V hist point w0 i w)"
proof (cases point)
  case Latest
  show ?thesis unfolding resolve_point_def Latest restore_at.case
    by (rule mp.ret) (use ms in \<open>simp add: surveyed_def point_ok_def\<close>)
next
  case (Manifest j)
  show ?thesis unfolding resolve_point_def Manifest restore_at.case
    by (auto intro!: mp.ret mp.fail simp: point_ok_def)
next
  case (Time ts)
  let ?I = "task_inv hist body V" and ?P = "\<lambda>w. evolves w0 w \<and> surveyed w0 ms w" and ?L = "fst (last ms)"
  have st: "stable ?I evolves ?P" by (intro mp.stable_conj stable_since_start stable_surveyed)
  have found: "triple ?I evolves ?P (newest_within V F backup (hist ?L) ts (rev (map fst ms)))
      (\<lambda>i w. evolves w0 w \<and> point_ok V hist (Time ts) w0 i w)"
  proof (rule mp.conseq [OF mp.frame [OF newest_within_ok [OF s, of hist body V w0 "[]" ?L ts F] stable_surveyed]])
    fix i w
    assume "(evolves w0 w \<and> within V hist ?L ts i
       \<and> (\<exists>before after. [] @ rev (map fst ms) = before @ i # after
            \<and> (\<forall>j \<in> set before. too_new V hist ?L ts j \<or> gone_between w0 w j))) \<and> surveyed w0 ms w"
    then obtain before after where ev: "evolves w0 w" and i: "within V hist ?L ts i"
      and split: "rev (map fst ms) = before @ i # after"
      and before: "\<And>j. j \<in> set before \<Longrightarrow> too_new V hist ?L ts j \<or> gone_between w0 w j"
      and sv: "surveyed w0 ms w" by auto
    have "too_new V hist ?L ts j \<or> gone_between w0 w j" if "j \<in> manifest_ids w0 AtSource" "i < j" for j
      using newest_first [OF _ split _ that(2)] before sv that(1) ms unfolding surveyed_def by blast
    moreover have "at_most w0 ?L" using sv ms unfolding surveyed_def by blast
    ultimately show "evolves w0 w \<and> point_ok V hist (Time ts) w0 i w"
      using ev i unfolding point_ok_def restore_at.case by blast
  qed simp_all
  have from_head: "triple ?I evolves (\<lambda>w. ?P w \<and> m = hist ?L) (newest_within V F backup m ts (rev (map fst ms)))
      (\<lambda>i w. evolves w0 w \<and> point_ok V hist (Time ts) w0 i w)" for m
    by (rule mp.pull) (use found in simp)
  show ?thesis unfolding resolve_point_def Time restore_at.case
    by (rule mp.bnd_option [OF read_backup_ok [OF s st]]) (auto intro: mp.fail mp.pre [OF from_head])
qed

subsection \<open>Copying and committing the closure\<close>

lemma restore_members_ok:
  assumes s: "db_side backup = AtSource" and P: "stable (task_inv hist body V) evolves P"
    and "members_ok hist ms" and "chosen \<in> keys ms"
  shows "triple (task_inv hist body V) evolves P (restore_members V backup err chosen now cps ms)
    (\<lambda>ms' w. P w \<and> members_ok hist ms'
        \<and> keys ms' = keys ms \<union> {cp_manifest_id cp |cp. cp \<in> set cps \<and> checkpoint_live cp now})"
  using assms(3,4)
proof (induction cps arbitrary: ms)
  case Nil
  show ?case unfolding restore_members.simps by (rule mp.ret) (use Nil in auto)
next
  case (Cons cp cps)
  show ?case
  proof (cases "\<not> checkpoint_live cp now \<or> cp_manifest_id cp = chosen")
    case True
    show ?thesis unfolding restore_members.simps if_P [OF True]
      by (rule mp.conseq [OF Cons.IH [OF Cons.prems]]) (use True Cons.prems in auto)
  next
    case False
    let ?i = "cp_manifest_id cp"
    let ?ms = "bt_insert ?i (objects_of (hist ?i)) ms"
    let ?Q = "\<lambda>ms' w. P w \<and> members_ok hist ms'
        \<and> keys ms' = keys ms \<union> {cp_manifest_id c |c. c \<in> set (cp # cps) \<and> checkpoint_live c now}"
    have wf: "bt_wf ms" using Cons.prems by (simp add: members_ok_def)
    note k = keys_insert [OF wf, of ?i "objects_of (hist ?i)"]
    have more: "triple (task_inv hist body V) evolves P (restore_members V backup err chosen now cps ?ms) ?Q"
      by (rule mp.conseq [OF Cons.IH [OF members_ok_insert [OF Cons.prems(1)]]]) (use False Cons.prems k in auto)
    have "triple (task_inv hist body V) evolves (\<lambda>w. P w \<and> m = hist ?i)
        (restore_members V backup err chosen now cps (bt_insert ?i (objects_of m) ms)) ?Q" for m
      by (rule mp.pull) (use more in simp)
    then have "triple (task_inv hist body V) evolves
        (\<lambda>w. P w \<and> (\<forall>m. r = Some m \<longrightarrow> m = hist ?i \<and> reached ?i w) \<and> (r = None \<longrightarrow> ?i \<notin> manifest_ids w AtSource))
        (case r of Some pinned \<Rightarrow> restore_members V backup err chosen now cps (bt_insert ?i (objects_of pinned) ms)
         | None \<Rightarrow> fail (err cp)) ?Q" for r
      by (cases r) (simp add: mp.fail, simp only: option.case, rule mp.pre, assumption, blast)
    then show ?thesis unfolding restore_members.simps if_not_P [OF False]
      by (rule mp.bnd [OF read_backup_ok [OF s P]])
  qed
qed

lemma restore_commit_ok:
  assumes h: "history_ok hist" and c: "closure_ok hist L now c" and sides: "db_side backup = AtSource" "db_side dest = AtDest"
  defines "S \<equiv> \<lambda>pre w. staged hist L now c {} w \<and> (\<forall>j \<in> set pre. j \<in> manifest_ids w AtDest)"
  shows "map fst (cl_manifests c) = pre @ ids \<Longrightarrow>
    triple (task_inv hist body V) evolves (S pre) (restore_commit V backup dest ids n) (\<lambda>_. S (pre @ ids))"
proof (induction ids arbitrary: pre n)
  case Nil
  show ?case unfolding restore_commit.simps by (rule mp.ret) simp
next
  case (Cons i ids)
  let ?I = "task_inv hist body V" and ?T = "typed_name (manifest_rel i)" and ?b = "body (manifest_rel i)"
  have st: "stable ?I evolves (S pre)" unfolding S_def by (intro stable_facts stable_staged)
  have st': "stable ?I evolves (\<lambda>w. S pre w \<and> C)" for C by (intro mp.stable_conj st mp.stable_const)
  have get: "triple ?I evolves (S pre) (store_get V backup (manifest_rel i)) (\<lambda>x w. S pre w \<and> so_bytes x = ?b \<and> ?T)"
    by (rule mp.store_get [OF st]) (use source_manifest in blast)
  have bytes: "triple ?I evolves (\<lambda>w. S pre w \<and> so_bytes x = ?b \<and> ?T) (store_bytes V x) (\<lambda>bs w. S pre w \<and> bs = ?b \<and> ?T)" for x
    by (rule mp.store_bytes [OF st']) simp
  have "triple ?I evolves (S pre) (store_create V dest (manifest_rel i) ?b) (\<lambda>_ w. S pre w \<and> i \<in> manifest_ids w AtDest)" if "?T"
    using create_manifest_ok [OF h c Cons.prems sides(2) that] unfolding S_def by blast
  then have create: "triple ?I evolves (\<lambda>w. S pre w \<and> bs = ?b \<and> ?T) (store_create V dest (manifest_rel i) bs)
      (\<lambda>_ w. S pre w \<and> i \<in> manifest_ids w AtDest)" for bs
    by (intro mp.pull) simp
  have "triple ?I evolves (S (pre @ [i])) (restore_commit V backup dest ids k) (\<lambda>_. S (pre @ i # ids))" for k
    using Cons.IH [of "pre @ [i]"] Cons.prems by simp
  then have rest: "triple ?I evolves (\<lambda>w. S pre w \<and> i \<in> manifest_ids w AtDest) (restore_commit V backup dest ids k)
      (\<lambda>_. S (pre @ i # ids))" for k
    by (rule mp.pre) (simp add: S_def)
  show ?case unfolding restore_commit.simps
    by (rule mp.bnd [OF mp.map_err [OF get] mp.bnd [OF mp.map_err [OF bytes] mp.bnd [OF mp.map_err [OF create] rest]]])
qed

lemma restore_names:
  assumes "members_ok hist ms"
  shows "set (rel_names (fold (\<lambda>e a. mo_extend a (snd e)) ms no_objects)) = names_of (closure_objects \<lparr>cl_head = i, cl_manifests = ms\<rparr>)"
proof -
  let ?c = "\<lparr>cl_head = i, cl_manifests = ms\<rparr>"
  have c: "fold (\<lambda>e a. mo_extend a (snd e)) ms no_objects = closure_objects ?c" by (simp add: closure_objects_def)
  have "finite_objects (closure_objects ?c)" by (rule closure_finite) (use assms in simp)
  then show ?thesis unfolding c by (intro set_rel_names) (simp_all add: finite_objects_def)
qed

lemma names_in_data: "names_of a \<subseteq> data_names"
  by (auto simp: names_of_def data_names_def)

lemma quiet_ret: "quiet_hook hist body V ret"
  unfolding quiet_hook_def by (auto intro: mp.ret)

lemma restore_copy_ok:
  assumes V: "streams_ok V" and sides: "db_side backup = AtSource" "db_side dest = AtDest"
    and c: "closure_ok hist L now \<lparr>cl_head = L, cl_manifests = ms\<rparr>"
  shows "triple (task_inv hist body V) evolves (\<lambda>w. reached L w \<and> now \<le> w_now w)
    (copier_copy V (restore_copier backup dest) ret (\<lambda>_ e. e) () (rel_names (fold (\<lambda>e a. mo_extend a (snd e)) ms no_objects)))
    (\<lambda>_. staged hist L now \<lparr>cl_head = L, cl_manifests = ms\<rparr> {})"
proof -
  have st: "stable (task_inv hist body V) evolves (\<lambda>w. reached L w \<and> now \<le> w_now w)" by (intro stable_facts stable_reached)
  have ms: "members_ok hist ms" using c by (simp add: closure_ok_def)
  have ck: "db_side (ck_source (restore_copier backup dest)) = AtSource" "db_side (ck_dest (restore_copier backup dest)) = AtDest"
    using sides by (simp_all add: restore_copier_def copier_new_def)
  note names = restore_names [OF ms, of L]
  show ?thesis
    by (rule mp.conseq [OF copier_copy_ok [OF quiet_ret st ck V]])
       (use names names_in_data in \<open>auto simp: staged_def reached_def\<close>)
qed

lemma restore_closure_ok:
  assumes h: "history_ok hist" and V: "streams_ok V" and sides: "db_side backup = AtSource" "db_side dest = AtDest"
  shows "triple (task_inv hist body V) evolves (reached L) (restore_closure V F backup dest point L (hist L))
    (\<lambda>out w. ro_manifest_id out = L \<and> restorable hist w L)"
proof -
  let ?I = "task_inv hist body V" and ?c = "\<lambda>ms. \<lparr>cl_head = L, cl_manifests = ms\<rparr>"
  let ?P = "\<lambda>now w. reached L w \<and> now \<le> w_now w"
  have now: "triple ?I evolves (reached L) get_now ?P" by (rule mp.now) simp
  have m: "members_ok hist (bt_insert L (objects_of (hist L)) [])" "L \<in> keys (bt_insert L (objects_of (hist L)) [])"
    by (simp_all add: members_ok_def bt_wf_def keys_def)
  have st: "stable ?I evolves (?P now)" for now by (intro stable_facts stable_reached)
  have members: "triple ?I evolves (?P now)
      (restore_members V backup (dangling F point L) L now (vm_checkpoints (hist L)) (bt_insert L (objects_of (hist L)) []))
      (\<lambda>ms w. ?P now w \<and> closure_ok hist L now (?c ms))" for now
    by (rule mp.conseq [OF restore_members_ok [OF sides(1) st m]]) (auto simp: closure_ok_def keys_single)
  have commit: "triple ?I evolves (staged hist L now (?c ms) {}) (restore_commit V backup dest (map fst ms) 0)
      (\<lambda>_ w. restorable hist w L)" if c: "closure_ok hist L now (?c ms)" for now ms
    by (rule mp.conseq [OF restore_commit_ok [OF h c sides, of "[]" "map fst ms"]])
       (use committed_restorable [OF _ c] in auto)
  have rest: "triple ?I evolves (?P now)
      (bnd (copier_copy V (restore_copier backup dest) ret (\<lambda>_ e. e) () (rel_names (fold (\<lambda>e a. mo_extend a (snd e)) ms no_objects)))
        (\<lambda>(copied, _). bnd (restore_commit V backup dest (map fst ms) 0) (\<lambda>committed.
           ret \<lparr>ro_manifest_id = L, ro_manifests_committed = committed, ro_copied_objects = cd_objects copied,
                ro_copied_bytes = cd_bytes copied\<rparr>)))
      (\<lambda>out w. ro_manifest_id out = L \<and> restorable hist w L)" if c: "closure_ok hist L now (?c ms)" for now ms
    by (rule mp.bnd [OF restore_copy_ok [OF V sides c]], simp only: case_prod_unfold,
        rule mp.bnd [OF commit [OF c]], rule mp.ret) simp
  show ?thesis unfolding restore_closure_def
    by (rule mp.bnd [OF now], rule mp.bnd [OF members], rule mp.pull, rule rest)
qed

lemma root_has_any_ok:
  assumes P: "stable (task_inv hist body V) evolves P"
  shows "triple (task_inv hist body V) evolves P (root_has_any V dest) (\<lambda>_. P)"
  unfolding root_has_any_def by (rule mp.request [OF _ P], rule tripleI) (auto simp: evolves_refl)

lemma restore_ok:
  assumes h: "history_ok hist" and V: "streams_ok V" and sides: "db_side backup = AtSource" "db_side dest = AtDest"
  shows "triple (task_inv hist body V) evolves (evolves w0) (restore V F backup dest point)
    (\<lambda>out w. restorable hist w (ro_manifest_id out) \<and> point_ok V hist point w0 (ro_manifest_id out) w)"
proof -
  let ?I = "task_inv hist body V"
  let ?Q = "\<lambda>out w. restorable hist w (ro_manifest_id out) \<and> point_ok V hist point w0 (ro_manifest_id out) w"
  let ?P = "\<lambda>i w. evolves w0 w \<and> point_ok V hist point w0 i w"
  have st: "stable ?I evolves (?P i)" for i by (intro mp.stable_conj stable_since_start stable_point_ok)
  have whole: "triple ?I evolves (\<lambda>w. reached i w \<and> point_ok V hist point w0 i w)
      (restore_closure V F backup dest point i (hist i)) ?Q" for i
    by (rule mp.conseq [OF mp.frame [OF restore_closure_ok [OF h V sides] stable_point_ok]]) auto
  have chosen: "triple ?I evolves
      (\<lambda>w. ?P i w \<and> (\<forall>m. r = Some m \<longrightarrow> m = hist i \<and> reached i w) \<and> (r = None \<longrightarrow> i \<notin> manifest_ids w AtSource))
      (case r of None \<Rightarrow> fail (NoRestorePoint (debug_point F point) (''manifest '' @ show_nat i @ '' vanished from the backup''))
       | Some manifest \<Rightarrow> restore_closure V F backup dest point i manifest) ?Q" for i r
  proof (cases r)
    case (Some m)
    have "triple ?I evolves (\<lambda>w. (reached i w \<and> point_ok V hist point w0 i w) \<and> m = hist i)
        (restore_closure V F backup dest point i m) ?Q"
      by (rule mp.pull) (use whole in simp)
    then show ?thesis unfolding Some option.case by (rule mp.pre) blast
  qed (simp add: mp.fail)
  have listed: "triple ?I evolves (\<lambda>w. evolves w0 w \<and> surveyed w0 ms w)
      (if ms = [] then fail (NotADatabase (db_url backup))
       else bnd (resolve_point V F backup ms point) (\<lambda>chosen.
         bnd (admin_read_manifest V backup (Some chosen)) (\<lambda>r.
         case r of None \<Rightarrow> fail (NoRestorePoint (debug_point F point) (''manifest '' @ show_nat chosen @ '' vanished from the backup''))
         | Some manifest \<Rightarrow> restore_closure V F backup dest point chosen manifest))) ?Q" for ms
  proof (cases "ms = []")
    case False
    show ?thesis unfolding if_not_P [OF False]
      by (rule mp.bnd [OF resolve_point_ok [OF sides(1) False] mp.bnd [OF read_backup_ok [OF sides(1) st] chosen]])
  qed (simp add: mp.fail)
  have "triple ?I evolves (evolves w0)
      (if existing then fail (DestinationNotEmpty (db_url dest)) else
       bnd (list_manifests V backup) (\<lambda>manifests. if manifests = [] then fail (NotADatabase (db_url backup))
       else bnd (resolve_point V F backup manifests point) (\<lambda>chosen.
         bnd (admin_read_manifest V backup (Some chosen)) (\<lambda>r.
         case r of None \<Rightarrow> fail (NoRestorePoint (debug_point F point) (''manifest '' @ show_nat chosen @ '' vanished from the backup''))
         | Some manifest \<Rightarrow> restore_closure V F backup dest point chosen manifest)))) ?Q" for existing
    by (cases existing) (simp_all only: if_True if_False mp.fail mp.bnd [OF list_backup_ok [OF sides(1)] listed])
  then show ?thesis unfolding restore_def
    by (rule mp.bnd [OF mp.map_err [OF root_has_any_ok [OF stable_since_start]]])
qed

subsection \<open>Properties of a restore\<close>



definition demo_format :: time_format where
  "demo_format = \<lparr>tf_parse = \<lambda>_. None, tf_rfc3339 = \<lambda>_. [], tf_debug = \<lambda>_. []\<rparr>"

lemma demo_restore:
  "\<exists>w'. restore demo_env demo_format demo_source demo_dest Latest demo_world =
     (Inr \<lparr>ro_manifest_id = 1, ro_manifests_committed = 1, ro_copied_objects = 1, ro_copied_bytes = 28\<rparr>, w')"
proof -
  have l: "list_manifests demo_env demo_source w =
      (Inr [(1, stale_meta (manifest_rel 1))], w\<lparr>w_requests := Suc (w_requests w)\<rparr>)"
    if "w_objects w = w_objects demo_world" for w
    using that by (simp add: list_manifests_def list_dir_def store_list_def metas_def bnd_def ret_def attempt_def request_def
        demo_world_def demo_stored_def dir_takes stale_meta_def parsed_metas_def by_id_def List.map_filter_simps manifest_name_roundtrip)
  show ?thesis
    by (simp add: restore_def root_has_any_def run_simps l resolve_point_def,
        simp add: run_simps demo_eval demo_world_def restore_closure_def rel_names_def restore_copier_def
          copier_copy_def copy_builtin_def copy_object_def hooked_def demo_wal_size u64_add_def default_resolved_mirror_target_def)
qed



end
