(* ===== verification/Mirror_Loops.thy ===== *)
theory Mirror_Loops
  imports Mirror_Restore Mirror_Target
begin

text \<open>
  The mode loops of \<^verbatim>\<open>src/mirror/mod.rs\<close>: a continuous mirror that polls with back-off and a
  periodic one that is scheduled by the age of the target's newest manifest. One turn of a loop is
  one definition; the loops run a given number of turns, and what holds after every number of
  turns holds of the loop. \<open>cancelled n\<close> is what the task sees of its cancellation token at
  event \<open>n\<close>, so a turn may be stopped wherever the source checks the token or waits; waiting for a
  job permit and sleeping are events in which the environment acts. A pass or prune owns its
  \<^verbatim>\<open>ManifestCache\<close> and drops it on return, which \<open>scoped\<close> says. The tail's loop has its fuel as
  an argument; a turn that uses it up is \<open>Unfinished\<close>.
\<close>

definition IDLE_POLL_MAX :: duration where
  "IDLE_POLL_MAX = from_secs 300"

definition IDLE_PRUNE_EVERY :: duration where
  "IDLE_PRUNE_EVERY = from_secs 600"

datatype 's turn = Stopped | Unfinished | Continue 's

definition scoped :: "('e, 'a) act \<Rightarrow> ('e, 'a) act" where
  "scoped m w = (case m w of (r, w') \<Rightarrow> (r, w'\<lparr>w_cache := Map.empty\<rparr>))"

definition is_cancelled :: "(nat \<Rightarrow> bool) \<Rightarrow> (mirror_error, bool) act" where
  "is_cancelled cancelled w = (Inr (cancelled (w_requests w)), w)"

definition acquire_permit :: "mirror_env \<Rightarrow> (nat \<Rightarrow> bool) \<Rightarrow> (mirror_error, bool) act" where
  "acquire_permit V cancelled w = (let w1 = env_turn V w in (Inr (\<not> cancelled (w_requests w1)), w1))"

definition sleep_for :: "mirror_env \<Rightarrow> (nat \<Rightarrow> bool) \<Rightarrow> duration \<Rightarrow> (mirror_error, bool) act" where
  "sleep_for V cancelled d w =
     (let w1 = env_turn V w in
      if cancelled (w_requests w1) then (Inr False, w1)
      else (Inr True, w1\<lparr>w_instant := max (w_instant w1) (w_instant w + d)\<rparr>))"

definition sync_once ::
  "mirror_env \<Rightarrow> db_handle \<Rightarrow> db_handle \<Rightarrow> applied_target \<Rightarrow> string option \<Rightarrow> (mirror_error, pass_outcome \<times> prune_report) act" where
  "sync_once V source dest target rclone =
     bnd (scoped (sync_pass V source dest (at_name target) (at_settings target) rclone)) (\<lambda>outcome.
     bnd (scoped (prune V source dest (at_name target) (at_settings target))) (\<lambda>report.
     ret (outcome, report)))"

subsection \<open>The continuous loop\<close>

record continuous =
  cn_idle :: duration
  cn_watermark :: "nat option"
  cn_tail :: "nat option"
  cn_last_prune :: nat

definition next_idle :: "duration \<Rightarrow> bool \<Rightarrow> duration \<Rightarrow> duration" where
  "next_idle base active idle = (if active then base else min (idle * 2) (max IDLE_POLL_MAX base))"

definition prune_and_stamp ::
  "mirror_env \<Rightarrow> db_handle \<Rightarrow> db_handle \<Rightarrow> applied_target \<Rightarrow> continuous \<Rightarrow> (mirror_error, continuous) act" where
  "prune_and_stamp V source dest target s =
     bnd (scoped (prune V source dest (at_name target) (at_settings target))) (\<lambda>_.
     bnd get_instant (\<lambda>now. ret (s\<lparr>cn_last_prune := now\<rparr>)))"

definition continuous_pass ::
  "mirror_env \<Rightarrow> db_handle \<Rightarrow> db_handle \<Rightarrow> applied_target \<Rightarrow> string option \<Rightarrow> continuous
     \<Rightarrow> (mirror_error, bool \<times> continuous) act" where
  "continuous_pass V source dest target rclone s =
     bnd (scoped (sync_pass V source dest (at_name target) (at_settings target) rclone)) (\<lambda>outcome.
     bnd (case cn_tail s of
            Some t \<Rightarrow> ret (advance_floor t (pc_next_wal_sst_id outcome))
          | None \<Rightarrow> tail_start V dest (pc_next_wal_sst_id outcome)) (\<lambda>tail.
     let s = s\<lparr>cn_watermark := Some (pc_head outcome), cn_tail := Some tail\<rparr> in
     bnd get_instant (\<lambda>now.
     if pc_committed outcome \<or> IDLE_PRUNE_EVERY \<le> now - cn_last_prune s
     then bnd (prune_and_stamp V source dest target s) (\<lambda>s. ret (pc_committed outcome, s))
     else ret (pc_committed outcome, s))))"

definition continuous_tail ::
  "nat \<Rightarrow> mirror_env \<Rightarrow> db_handle \<Rightarrow> db_handle \<Rightarrow> bool \<Rightarrow> continuous \<Rightarrow> (mirror_error, (bool \<times> continuous) option) act" where
  "continuous_tail fuel V source dest active s =
     (case cn_tail s of
        None \<Rightarrow> ret (Some (active, s))
      | Some n \<Rightarrow>
          bnd (tail_step fuel V source dest n 0) (\<lambda>r.
          ret (map_option (\<lambda>(copied, n). (active \<or> 0 < copied, s\<lparr>cn_tail := Some n\<rparr>)) r)))"

definition continuous_rest ::
  "nat \<Rightarrow> mirror_env \<Rightarrow> (nat \<Rightarrow> bool) \<Rightarrow> db_handle \<Rightarrow> db_handle \<Rightarrow> applied_target \<Rightarrow> bool \<Rightarrow> continuous
     \<Rightarrow> (mirror_error, continuous turn) act" where
  "continuous_rest fuel V cancelled source dest target active s =
     bnd (continuous_tail fuel V source dest active s) (\<lambda>r.
     case r of
       None \<Rightarrow> ret Unfinished
     | Some (active, s) \<Rightarrow>
         (let s = s\<lparr>cn_idle := next_idle (rt_poll (at_settings target)) active (cn_idle s)\<rparr> in
          bnd (sleep_for V cancelled (cn_idle s)) (\<lambda>slept. ret (if slept then Continue s else Stopped))))"

definition continuous_turn ::
  "nat \<Rightarrow> mirror_env \<Rightarrow> (nat \<Rightarrow> bool) \<Rightarrow> db_handle \<Rightarrow> db_handle \<Rightarrow> applied_target \<Rightarrow> string option \<Rightarrow> continuous
     \<Rightarrow> (mirror_error, continuous turn) act" where
  "continuous_turn fuel V cancelled source dest target rclone s =
     bnd (is_cancelled cancelled) (\<lambda>stop.
     if stop then ret Stopped
     else
       bnd (max_manifest_id V source) (\<lambda>source_head.
       bnd get_instant (\<lambda>now.
       if source_head \<noteq> None \<and> source_head \<noteq> cn_watermark s then
         bnd (acquire_permit V cancelled) (\<lambda>permit.
         if \<not> permit then ret Stopped
         else bnd (continuous_pass V source dest target rclone s) (\<lambda>(active, s).
              continuous_rest fuel V cancelled source dest target active s))
       else if rt_keep (at_settings target) \<noteq> None \<and> IDLE_PRUNE_EVERY \<le> now - cn_last_prune s then
         bnd (acquire_permit V cancelled) (\<lambda>permit.
         if \<not> permit then ret Stopped
         else bnd (prune_and_stamp V source dest target s) (\<lambda>s.
              continuous_rest fuel V cancelled source dest target False s))
       else continuous_rest fuel V cancelled source dest target False s)))"

fun continuous_turns ::
  "nat \<Rightarrow> nat \<Rightarrow> mirror_env \<Rightarrow> (nat \<Rightarrow> bool) \<Rightarrow> db_handle \<Rightarrow> db_handle \<Rightarrow> applied_target \<Rightarrow> string option \<Rightarrow> continuous
     \<Rightarrow> (mirror_error, continuous turn) act" where
  "continuous_turns 0 fuel V cancelled source dest target rclone s = ret (Continue s)"
| "continuous_turns (Suc k) fuel V cancelled source dest target rclone s =
     bnd (continuous_turn fuel V cancelled source dest target rclone s) (\<lambda>t.
     case t of
       Continue s \<Rightarrow> continuous_turns k fuel V cancelled source dest target rclone s
     | _ \<Rightarrow> ret t)"

definition run_continuous ::
  "nat \<Rightarrow> nat \<Rightarrow> mirror_env \<Rightarrow> (nat \<Rightarrow> bool) \<Rightarrow> db_handle \<Rightarrow> db_handle \<Rightarrow> applied_target \<Rightarrow> string option
     \<Rightarrow> (mirror_error, continuous turn) act" where
  "run_continuous k fuel V cancelled source dest target rclone =
     bnd get_instant (\<lambda>now.
     continuous_turns k fuel V cancelled source dest target rclone
       \<lparr>cn_idle = rt_poll (at_settings target), cn_watermark = None, cn_tail = None, cn_last_prune = now\<rparr>)"

subsection \<open>The periodic loop\<close>

definition idle_check :: "duration \<Rightarrow> duration" where
  "idle_check interval = min (max (interval div 20) (from_secs 60)) (from_secs 3600)"

definition until_due :: "duration \<Rightarrow> int \<Rightarrow> duration" where
  "until_due interval age = min (nat (int interval - age)) interval"

definition periodic_turn ::
  "mirror_env \<Rightarrow> (nat \<Rightarrow> bool) \<Rightarrow> db_handle \<Rightarrow> db_handle \<Rightarrow> applied_target \<Rightarrow> string option \<Rightarrow> (mirror_error, unit turn) act" where
  "periodic_turn V cancelled source dest target rclone =
     (let interval = rt_interval (at_settings target);
          wait = (\<lambda>d. bnd (sleep_for V cancelled d) (\<lambda>slept. ret (if slept then Continue () else Stopped))) in
      bnd (is_cancelled cancelled) (\<lambda>stop.
      if stop then ret Stopped
      else
        bnd (list_manifests V dest) (\<lambda>manifests.
        bnd get_now (\<lambda>now.
        let age = map_option (\<lambda>(_, meta). now - om_last_modified meta) (last_opt manifests) in
        if (case age of Some a \<Rightarrow> a < int interval | None \<Rightarrow> False) then wait (until_due interval (the age))
        else
          bnd (acquire_permit V cancelled) (\<lambda>permit.
          if \<not> permit then ret Stopped
          else
            bnd (sync_once V source dest target rclone) (\<lambda>(outcome, _).
            wait (if pc_committed outcome then interval else min (idle_check interval) interval)))))))"

fun run_periodic ::
  "nat \<Rightarrow> mirror_env \<Rightarrow> (nat \<Rightarrow> bool) \<Rightarrow> db_handle \<Rightarrow> db_handle \<Rightarrow> applied_target \<Rightarrow> string option \<Rightarrow> (mirror_error, unit turn) act" where
  "run_periodic 0 V cancelled source dest target rclone = ret (Continue ())"
| "run_periodic (Suc k) V cancelled source dest target rclone =
     bnd (periodic_turn V cancelled source dest target rclone) (\<lambda>t.
     case t of Continue _ \<Rightarrow> run_periodic k V cancelled source dest target rclone | _ \<Rightarrow> ret t)"

definition run_mirror ::
  "nat \<Rightarrow> nat \<Rightarrow> mirror_env \<Rightarrow> (nat \<Rightarrow> bool) \<Rightarrow> db_handle \<Rightarrow> db_handle \<Rightarrow> applied_target \<Rightarrow> string option \<Rightarrow> (mirror_error, bool) act" where
  "run_mirror k fuel V cancelled source dest target rclone =
     (case rt_mode (at_settings target) of
        Continuous \<Rightarrow>
          bnd (run_continuous k fuel V cancelled source dest target rclone) (\<lambda>t. ret (t = Stopped))
      | Periodic \<Rightarrow>
          bnd (run_periodic k V cancelled source dest target rclone) (\<lambda>t. ret (t = Stopped)))"

subsection \<open>Reasoning about the loops\<close>

definition loop_inv :: "(nat \<Rightarrow> vmanifest) \<Rightarrow> (string \<Rightarrow> string) \<Rightarrow> mirror_env \<Rightarrow> world \<Rightarrow> bool" where
  "loop_inv hist body V w \<longleftrightarrow> task_inv hist body V w \<and> alone body V \<and> honest V"

definition forth :: "(string \<Rightarrow> string) \<Rightarrow> world \<Rightarrow> world \<Rightarrow> bool" where
  "forth body w w' \<longleftrightarrow>
     onward body w w' \<and> (\<forall>i \<in> manifest_ids w AtDest. \<exists>j \<in> manifest_ids w' AtDest. i \<le> j)"

lemma forth_refl: "forth body w w"
  by (auto simp: forth_def onward_refl)

lemma forth_trans:
  assumes "forth body u v" and "forth body v w"
  shows "forth body u w"
  using assms onward_trans order_trans unfolding forth_def by meson

lemma evolves_forth:
  assumes "task_inv hist body V w'" and "evolves w w'"
  shows "forth body w w'"
proof -
  have "faithful body w' AtSource \<and> typed w' AtSource" using task_faithful [OF assms(1)] by blast
  then show ?thesis using assms(2) unfolding forth_def onward_def evolves_def manifest_ids_def by blast
qed

interpretation lo: env_logic "loop_inv hist body V" "forth body" V for hist body V
proof unfold_locales
  show "forth body w w" for w by (rule forth_refl)
  show "forth body u v \<Longrightarrow> forth body v w \<Longrightarrow> forth body u w" for u v w by (rule forth_trans)
  show "loop_inv hist body V w \<Longrightarrow> loop_inv hist body V (env_turn V w) \<and> forth body w (env_turn V w)" for w
    using mp.turn evolves_forth unfolding loop_inv_def by blast
qed

lemma lift_task:
  assumes "triple (task_inv hist body V) evolves P m Q"
  shows "triple (loop_inv hist body V) (forth body) P m Q"
  using assms evolves_forth unfolding triple_def loop_inv_def by blast

lemma keeps:
  assumes "triple (loop_inv hist body V) (forth body) (\<lambda>w. True) m (\<lambda>_ w. True)"
    and "stable (loop_inv hist body V) (forth body) P"
  shows "triple (loop_inv hist body V) (forth body) P m (\<lambda>_. P)"
  by (rule lo.conseq [OF lo.frame [OF assms]]) simp_all

lemma stable_onward_loop: "stable (loop_inv hist body V) (forth body) (onward body w0)"
  unfolding stable_def forth_def using onward_trans by blast

lemma loop_clear: "task_inv hist body V w \<Longrightarrow> task_inv hist body V (w\<lparr>w_cache := Map.empty\<rparr>)"
  by (simp add: task_inv_def cache_ok_def)

lemma sync_loop:
  assumes sides: "db_side source = AtSource" "db_side dest = AtDest"
  shows "triple (loop_inv hist body V) (forth body) (onward body w0)
    (scoped (sync_pass V source dest target settings rclone))
    (\<lambda>out w. onward body w0 w \<and> at_most w0 (pc_head out) \<and> pc_head out \<in> manifest_ids w AtDest)"
proof (rule tripleI)
  fix w r w' assume w: "loop_inv hist body V w" "onward body w0 w"
    and run: "scoped (sync_pass V source dest target settings rclone) w = (r, w')"
  obtain u where u: "sync_pass V source dest target settings rclone w = (r, u)" "w' = u\<lparr>w_cache := Map.empty\<rparr>"
    using run by (auto simp: scoped_def split: prod.splits)
  have env: "env_ok hist body V" "mirror_inv hist body w" using w(1) by (simp_all add: loop_inv_def task_inv_def)
  note pass = sync_pass_run [OF env sides u(1)]
  have t: "task_inv hist body V w'" using pass env(1) u(2) by (simp add: task_inv_def cache_ok_def)
  have ev: "evolves w w'" using pass u(2) by simp
  have f: "forth body w w'" by (rule evolves_forth [OF t ev])
  moreover have "onward body w0 w'" using w(2) f onward_trans unfolding forth_def by blast
  moreover have "at_most w0 (pc_head out) \<and> pc_head out \<in> manifest_ids w' AtDest" if "r = Inr out" for out
    using pass that w(2) u(2) unfolding pass_done_def restorable_def onward_def by (simp add: manifest_ids_def)
  ultimately show "loop_inv hist body V w' \<and> forth body w w'
      \<and> (\<forall>out. r = Inr out \<longrightarrow> onward body w0 w' \<and> at_most w0 (pc_head out) \<and> pc_head out \<in> manifest_ids w' AtDest)"
    using t w(1) unfolding loop_inv_def by blast
qed

lemma finite_manifest_ids: "finite (manifest_ids w d)"
proof -
  have "manifest_rel ` manifest_ids w d \<subseteq> fst ` set (w_objects w d)"
    by (force simp: manifest_ids_def has_def held_def dest: map_of_SomeD)
  then have "finite (manifest_rel ` manifest_ids w d)" using finite_subset by blast
  then show ?thesis by (rule finite_imageD) (simp add: inj_on_def)
qed

lemma prune_loop:
  assumes sides: "db_side source = AtSource" "db_side dest = AtDest"
  shows "triple (loop_inv hist body V) (forth body) (\<lambda>w. True) (scoped (prune V source dest target settings)) (\<lambda>_ w. True)"
proof (rule tripleI)
  fix w r w' assume w: "loop_inv hist body V w" and run: "scoped (prune V source dest target settings) w = (r, w')"
  obtain u where u: "prune V source dest target settings w = (r, u)" "w' = u\<lparr>w_cache := Map.empty\<rparr>"
    using run by (auto simp: scoped_def split: prod.splits)
  have env: "alone body V" "honest V" "history_ok hist" "manifest_reads hist body V" "mirror_inv hist body w"
    using w by (simp_all add: loop_inv_def task_inv_def env_ok_def)
  note m = prune_mirror [OF env sides u(1)]
  have "\<exists>j \<in> manifest_ids u AtDest. i \<le> j" if "i \<in> manifest_ids w AtDest" for i
  proof -
    have "newest w AtDest (Max (manifest_ids w AtDest))"
      using that finite_manifest_ids Max_in Max_ge unfolding newest_def by blast
    then show ?thesis using m that finite_manifest_ids Max_ge by blast
  qed
  moreover have "onward body u w'" using u(2) by (simp add: onward_same)
  ultimately have "forth body w w'" using m u(2) onward_trans unfolding forth_def by (simp add: manifest_ids_def) blast
  moreover have "task_inv hist body V w'" using w m u(2) by (simp add: loop_inv_def task_inv_def cache_ok_def)
  ultimately show "loop_inv hist body V w' \<and> forth body w w' \<and> (\<forall>a. r = Inr a \<longrightarrow> True)"
    using w unfolding loop_inv_def by blast
qed

lemma waits_loop:
  "triple (loop_inv hist body V) (forth body) (\<lambda>w. True) (is_cancelled cancelled) (\<lambda>_ w. True)"
  "triple (loop_inv hist body V) (forth body) (\<lambda>w. True) (acquire_permit V cancelled) (\<lambda>_ w. True)"
  "triple (loop_inv hist body V) (forth body) (\<lambda>w. True) (sleep_for V cancelled d) (\<lambda>_ w. True)"
proof -
  have inst: "loop_inv hist body V (w\<lparr>w_instant := t\<rparr>) \<longleftrightarrow> loop_inv hist body V w" "forth body v (w\<lparr>w_instant := t\<rparr>) \<longleftrightarrow> forth body v w"
    for w v t
  proof -
    have h: "held (w\<lparr>w_instant := t\<rparr>) = held w" by (simp add: held_def fun_eq_iff)
    then have "has (w\<lparr>w_instant := t\<rparr>) = has w" by (simp add: has_def fun_eq_iff)
    then show "loop_inv hist body V (w\<lparr>w_instant := t\<rparr>) \<longleftrightarrow> loop_inv hist body V w"
        "forth body v (w\<lparr>w_instant := t\<rparr>) \<longleftrightarrow> forth body v w"
      using h mirror_inv_cong [of "w\<lparr>w_instant := t\<rparr>" w hist body]
      by (simp_all add: loop_inv_def task_inv_def cache_ok_def forth_def onward_def at_most_def manifest_ids_def faithful_def typed_def)
  qed
  show "triple (loop_inv hist body V) (forth body) (\<lambda>w. True) (is_cancelled cancelled) (\<lambda>_ w. True)"
    by (rule tripleI) (auto simp: is_cancelled_def forth_refl)
  show "triple (loop_inv hist body V) (forth body) (\<lambda>w. True) (acquire_permit V cancelled) (\<lambda>_ w. True)"
    by (rule tripleI) (use lo.turn in \<open>auto simp: acquire_permit_def Let_def\<close>)
  show "triple (loop_inv hist body V) (forth body) (\<lambda>w. True) (sleep_for V cancelled d) (\<lambda>_ w. True)"
    by (rule tripleI) (use lo.turn in \<open>auto simp: sleep_for_def Let_def inst split: if_splits\<close>)
qed

lemma tail_loop:
  assumes sides: "db_side source = AtSource" "db_side dest = AtDest"
  shows "triple (loop_inv hist body V) (forth body) (\<lambda>w. True) (tail_step fuel V source dest n c) (\<lambda>_ w. True)"
    and "triple (loop_inv hist body V) (forth body) (\<lambda>w. True) (tail_start V dest floor) (\<lambda>_ w. True)"
proof -
  show "triple (loop_inv hist body V) (forth body) (\<lambda>w. True) (tail_step fuel V source dest n c) (\<lambda>_ w. True)"
    by (rule lift_task, rule mp.conseq [OF tail_step_dense [OF sides mp.stable_const [of _ _ _ True]]]) simp_all
  have "triple (loop_inv hist body V) (forth body) (\<lambda>w. True) (list_wals V dest) (\<lambda>_ w. True)"
    unfolding list_wals_def by (rule lo.bnd [OF lo.list_dir [OF lo.stable_const]]) (auto intro: lo.ret)
  then show "triple (loop_inv hist body V) (forth body) (\<lambda>w. True) (tail_start V dest floor) (\<lambda>_ w. True)"
    unfolding tail_start_def by (rule lo.bnd) (auto intro: lo.ret)
qed

subsection \<open>One turn of the continuous loop\<close>

definition idle_ok :: "applied_target \<Rightarrow> continuous \<Rightarrow> bool" where
  "idle_ok target s \<longleftrightarrow>
     rt_poll (at_settings target) \<le> cn_idle s \<and> cn_idle s \<le> max IDLE_POLL_MAX (rt_poll (at_settings target))"

definition watermark_held :: "continuous \<Rightarrow> world \<Rightarrow> bool" where
  "watermark_held s w \<longleftrightarrow> (\<forall>L. cn_watermark s = Some L \<longrightarrow> (\<exists>j \<in> manifest_ids w AtDest. L \<le> j))"

lemma stable_watermark_held: "stable (loop_inv hist body V) (forth body) (watermark_held s)"
  unfolding stable_def watermark_held_def forth_def by (meson order_trans)

lemma idle_ok_next: "idle_ok target s \<Longrightarrow> idle_ok target (s\<lparr>cn_idle := next_idle (rt_poll (at_settings target)) active (cn_idle s)\<rparr>)"
  by (auto simp: idle_ok_def next_idle_def)

definition caught_up_with :: "world \<Rightarrow> continuous \<Rightarrow> bool" where
  "caught_up_with w0 s \<longleftrightarrow> (case cn_watermark s of Some L \<Rightarrow> at_most w0 L | None \<Rightarrow> (\<forall>K. at_most w0 K))"

definition turn_ok :: "applied_target \<Rightarrow> world \<Rightarrow> continuous turn \<Rightarrow> world \<Rightarrow> bool" where
  "turn_ok target w0 t w \<longleftrightarrow>
     (\<forall>s. t = Continue s \<longrightarrow> watermark_held s w \<and> idle_ok target s \<and> caught_up_with w0 s)"

lemma continuous_tail_ok:
  assumes sides: "db_side source = AtSource" "db_side dest = AtDest"
  shows "triple (loop_inv hist body V) (forth body) (watermark_held s) (continuous_tail fuel V source dest active s)
    (\<lambda>r w. watermark_held s w \<and> (\<forall>a s'. r = Some (a, s') \<longrightarrow> cn_watermark s' = cn_watermark s \<and> cn_idle s' = cn_idle s))"
proof (cases "cn_tail s")
  case None
  then show ?thesis by (auto simp: continuous_tail_def intro: lo.ret)
next
  case (Some n)
  have "triple (loop_inv hist body V) (forth body) (watermark_held s) (tail_step fuel V source dest n 0) (\<lambda>_. watermark_held s)"
    by (rule keeps [OF tail_loop(1) [OF sides] stable_watermark_held])
  then show ?thesis unfolding continuous_tail_def Some option.case
    by (rule lo.bnd) (rule lo.ret, auto)
qed

lemma continuous_rest_ok:
  assumes sides: "db_side source = AtSource" "db_side dest = AtDest" and s: "idle_ok target s" "caught_up_with w0 s"
  shows "triple (loop_inv hist body V) (forth body) (watermark_held s)
    (continuous_rest fuel V cancelled source dest target active s) (turn_ok target w0)"
  unfolding continuous_rest_def
proof (rule lo.bnd [OF continuous_tail_ok [OF sides]])
  fix r :: "(bool \<times> continuous) option"
  let ?C = "\<forall>a s'. r = Some (a, s') \<longrightarrow> cn_watermark s' = cn_watermark s \<and> cn_idle s' = cn_idle s"
  show "triple (loop_inv hist body V) (forth body) (\<lambda>w. watermark_held s w \<and> ?C)
    (case r of None \<Rightarrow> ret Unfinished
     | Some (active, s) \<Rightarrow>
         (let s = s\<lparr>cn_idle := next_idle (rt_poll (at_settings target)) active (cn_idle s)\<rparr> in
          bnd (sleep_for V cancelled (cn_idle s)) (\<lambda>slept. ret (if slept then Continue s else Stopped)))) (turn_ok target w0)"
  proof (rule lo.pull, cases r)
    case None
    then show "triple (loop_inv hist body V) (forth body) (watermark_held s)
      (case r of None \<Rightarrow> ret Unfinished
       | Some (active, s) \<Rightarrow>
           (let s = s\<lparr>cn_idle := next_idle (rt_poll (at_settings target)) active (cn_idle s)\<rparr> in
            bnd (sleep_for V cancelled (cn_idle s)) (\<lambda>slept. ret (if slept then Continue s else Stopped)))) (turn_ok target w0)"
      by (simp add: turn_ok_def lo.ret)
  next
    case (Some as)
    obtain a s1 where as: "as = (a, s1)" by fastforce
    let ?s = "s1\<lparr>cn_idle := next_idle (rt_poll (at_settings target)) a (cn_idle s1)\<rparr>"
    assume C: ?C
    then have s1: "cn_watermark s1 = cn_watermark s" "cn_idle s1 = cn_idle s" using Some as by auto
    then have "idle_ok target s1" using s(1) by (simp add: idle_ok_def)
    then have ok: "idle_ok target ?s" by (rule idle_ok_next)
    have "caught_up_with w0 ?s" using s(2) s1 by (simp add: caught_up_with_def)
    moreover have "watermark_held s w \<Longrightarrow> watermark_held ?s w" for w using s1 by (simp add: watermark_held_def)
    ultimately have "triple (loop_inv hist body V) (forth body) (watermark_held s)
        (bnd (sleep_for V cancelled (cn_idle ?s)) (\<lambda>slept. ret (if slept then Continue ?s else Stopped))) (turn_ok target w0)"
      by (intro lo.bnd [OF keeps [OF waits_loop(3) stable_watermark_held]] lo.ret) (use ok in \<open>auto simp: turn_ok_def\<close>)
    then show "triple (loop_inv hist body V) (forth body) (watermark_held s)
      (case r of None \<Rightarrow> ret Unfinished
       | Some (active, s) \<Rightarrow>
           (let s = s\<lparr>cn_idle := next_idle (rt_poll (at_settings target)) active (cn_idle s)\<rparr> in
            bnd (sleep_for V cancelled (cn_idle s)) (\<lambda>slept. ret (if slept then Continue s else Stopped)))) (turn_ok target w0)"
      by (simp add: Some as Let_def)
  qed
qed

lemma prune_and_stamp_ok:
  assumes sides: "db_side source = AtSource" "db_side dest = AtDest"
  shows "triple (loop_inv hist body V) (forth body) (watermark_held s) (prune_and_stamp V source dest target s)
    (\<lambda>s' w. watermark_held s w \<and> cn_watermark s' = cn_watermark s \<and> cn_idle s' = cn_idle s)"
  unfolding prune_and_stamp_def
  by (rule lo.bnd [OF keeps [OF prune_loop [OF sides] stable_watermark_held]], rule lo.bnd [OF lo.instant], assumption, rule lo.ret)
     simp

lemma continuous_pass_ok:
  assumes sides: "db_side source = AtSource" "db_side dest = AtDest"
  shows "triple (loop_inv hist body V) (forth body) (onward body w0) (continuous_pass V source dest target rclone s)
    (\<lambda>as w. watermark_held (snd as) w \<and> caught_up_with w0 (snd as) \<and> cn_idle (snd as) = cn_idle s)"
  unfolding continuous_pass_def
proof (rule lo.bnd [OF sync_loop [OF sides]])
  fix out
  let ?I = "loop_inv hist body V" and ?L = "pc_head out"
  let ?W = "\<lambda>w. \<exists>j \<in> manifest_ids w AtDest. ?L \<le> j"
  let ?Q = "\<lambda>as w. watermark_held (snd as) w \<and> caught_up_with w0 (snd as) \<and> cn_idle (snd as) = cn_idle s"
  have stW: "stable ?I (forth body) ?W" unfolding stable_def forth_def by (meson order_trans)
  have tail: "triple ?I (forth body) ?W
      (case cn_tail s of Some t \<Rightarrow> ret (advance_floor t (pc_next_wal_sst_id out)) | None \<Rightarrow> tail_start V dest (pc_next_wal_sst_id out))
      (\<lambda>_. ?W)"
    by (cases "cn_tail s") (simp_all add: lo.ret keeps [OF tail_loop(2) [OF sides] stW])
  have rest: "triple ?I (forth body) ?W
      (let s = s\<lparr>cn_watermark := Some ?L, cn_tail := Some t\<rparr> in
       bnd get_instant (\<lambda>now. if pc_committed out \<or> IDLE_PRUNE_EVERY \<le> now - cn_last_prune s
         then bnd (prune_and_stamp V source dest target s) (\<lambda>s. ret (pc_committed out, s)) else ret (pc_committed out, s))) ?Q"
    if L: "at_most w0 ?L" for t
  proof -
    let ?s = "s\<lparr>cn_watermark := Some ?L, cn_tail := Some t\<rparr>"
    have w: "?W = watermark_held ?s" by (simp add: watermark_held_def fun_eq_iff)
    have c: "caught_up_with w0 ?s" using L by (simp add: caught_up_with_def)
    have "triple ?I (forth body) (watermark_held ?s) (bnd (prune_and_stamp V source dest target ?s) (\<lambda>s. ret (pc_committed out, s))) ?Q"
      by (rule lo.bnd [OF prune_and_stamp_ok [OF sides]], rule lo.ret) (use c in \<open>auto simp: watermark_held_def caught_up_with_def\<close>)
    moreover have "triple ?I (forth body) (watermark_held ?s) (ret (pc_committed out, ?s)) ?Q" by (rule lo.ret) (use c in simp)
    ultimately have each: "triple ?I (forth body) (watermark_held ?s)
        (if pc_committed out \<or> IDLE_PRUNE_EVERY \<le> now - cn_last_prune ?s
         then bnd (prune_and_stamp V source dest target ?s) (\<lambda>s. ret (pc_committed out, s)) else ret (pc_committed out, ?s)) ?Q" for now
      by (simp only: split: if_split) blast
    have "triple ?I (forth body) (watermark_held ?s) get_instant (\<lambda>_. watermark_held ?s)" by (rule lo.instant)
    then show ?thesis unfolding w Let_def by (rule lo.bnd) (rule each)
  qed
  show "triple ?I (forth body) (\<lambda>w. onward body w0 w \<and> at_most w0 ?L \<and> ?L \<in> manifest_ids w AtDest)
     (bnd (case cn_tail s of Some t \<Rightarrow> ret (advance_floor t (pc_next_wal_sst_id out)) | None \<Rightarrow> tail_start V dest (pc_next_wal_sst_id out))
       (\<lambda>tail. let s = s\<lparr>cn_watermark := Some ?L, cn_tail := Some tail\<rparr> in
       bnd get_instant (\<lambda>now. if pc_committed out \<or> IDLE_PRUNE_EVERY \<le> now - cn_last_prune s
         then bnd (prune_and_stamp V source dest target s) (\<lambda>s. ret (pc_committed out, s)) else ret (pc_committed out, s)))) ?Q"
    by (rule lo.pre [OF lo.pull [OF lo.bnd [OF tail rest]]]) auto
qed

lemma max_manifest_id_ok:
  assumes s: "db_side source = AtSource"
  shows "triple (loop_inv hist body V) (forth body) (onward body w0) (max_manifest_id V source)
    (\<lambda>h w. onward body w0 w \<and> (case h of Some L \<Rightarrow> at_most w0 L | None \<Rightarrow> \<forall>K. at_most w0 K))"
proof (rule tripleI)
  fix w r w' assume w: "loop_inv hist body V w" "onward body w0 w" "max_manifest_id V source w = (r, w')"
  have turn: "loop_inv hist body V (env_turn V w)" "forth body w (env_turn V w)" using lo.turn [OF w(1)] by blast+
  have "w' = env_turn V w"
    using w(3) by (auto simp: max_manifest_id_def list_manifests_def list_dir_def store_list_def request_def bnd_def attempt_def ret_def
        fail_def split: option.splits sum.splits store_error.splits)
  moreover have on: "onward body w0 (env_turn V w)" using w(2) turn(2) onward_trans unfolding forth_def by blast
  moreover have "case h of Some L \<Rightarrow> at_most w0 L | None \<Rightarrow> \<forall>K. at_most w0 K" if h: "r = Inr h" for h
  proof -
    let ?u = "env_turn V w"
    let ?ms = "by_id (parsed_metas parse_manifest_name (metas AtSource MANIFEST_DIR ?u))"
    have "me_fault V (w_requests w) \<noteq> Some NotFound" using w(1) by (simp add: loop_inv_def honest_def)
    then have "h = map_option fst (last_opt ?ms)"
      using w(3) s h by (auto simp: max_manifest_id_def list_manifests_def list_dir_def store_list_def request_def bnd_def attempt_def
          ret_def fail_def split: option.splits sum.splits store_error.splits)
    moreover have t: "task_inv hist body V ?u" using turn(1) by (simp add: loop_inv_def)
    have "surveyed ?u ?ms ?u" by (rule surveyed_listing [OF t evolves_refl])
    then have "at_most ?u (fst (last ?ms))" if "?ms \<noteq> []" using that unfolding surveyed_def by blast
    moreover have "at_most ?u K" if "?ms = []" for K
      using listing_has_all [of ?u] task_faithful [OF t] that unfolding at_most_def by fastforce
    ultimately show ?thesis using on unfolding onward_def by (auto simp: last_opt_def)
  qed
  ultimately show "loop_inv hist body V w' \<and> forth body w w' \<and> (\<forall>h. r = Inr h \<longrightarrow> onward body w0 w'
      \<and> (case h of Some L \<Rightarrow> at_most w0 L | None \<Rightarrow> \<forall>K. at_most w0 K))" using turn by simp
qed

lemma with_permit_ok:
  assumes st: "stable (loop_inv hist body V) (forth body) P"
    and m: "triple (loop_inv hist body V) (forth body) P m (turn_ok target w0)"
  shows "triple (loop_inv hist body V) (forth body) P
    (bnd (acquire_permit V cancelled) (\<lambda>permit. if \<not> permit then ret Stopped else m)) (turn_ok target w0)"
proof (rule lo.bnd [OF keeps [OF waits_loop(2) st]])
  have "triple (loop_inv hist body V) (forth body) P (ret Stopped) (turn_ok target w0)"
    by (rule lo.ret) (simp add: turn_ok_def)
  then show "triple (loop_inv hist body V) (forth body) P (if \<not> permit then ret Stopped else m) (turn_ok target w0)" for permit
    using m by (cases permit) simp_all
qed

lemma continuous_turn_ok:
  assumes sides: "db_side source = AtSource" "db_side dest = AtDest" and s: "idle_ok target s"
  shows "triple (loop_inv hist body V) (forth body) (\<lambda>w. onward body w0 w \<and> watermark_held s w)
    (continuous_turn fuel V cancelled source dest target rclone s) (turn_ok target w0)"
proof -
  let ?I = "loop_inv hist body V" and ?P = "\<lambda>w. onward body w0 w \<and> watermark_held s w"
  let ?rest = "continuous_rest fuel V cancelled source dest target"
  have st: "stable ?I (forth body) ?P" by (intro lo.stable_conj stable_onward_loop stable_watermark_held)
  have stopped: "triple ?I (forth body) P (ret Stopped) (turn_ok target w0)" for P by (rule lo.ret) (simp add: turn_ok_def)
  have rest: "triple ?I (forth body) (\<lambda>w. watermark_held s' w \<and> caught_up_with w0 s' \<and> cn_idle s' = cn_idle s)
      (?rest a s') (turn_ok target w0)" for a s'
    by (rule lo.pull, elim conjE) (rule continuous_rest_ok [OF sides], use s in \<open>simp_all add: idle_ok_def\<close>)
  have pass: "triple ?I (forth body) ?P
      (bnd (acquire_permit V cancelled) (\<lambda>permit. if \<not> permit then ret Stopped
       else bnd (continuous_pass V source dest target rclone s) (\<lambda>(active, s). ?rest active s))) (turn_ok target w0)"
    by (rule with_permit_ok [OF st], rule lo.pre [OF lo.bnd [OF continuous_pass_ok [OF sides]]])
       (use rest in \<open>auto split: prod.splits\<close>)
  have prunes: "triple ?I (forth body) ?P
      (bnd (acquire_permit V cancelled) (\<lambda>permit. if \<not> permit then ret Stopped
       else bnd (prune_and_stamp V source dest target s) (\<lambda>s. ?rest False s))) (turn_ok target w0)"
    if c: "caught_up_with w0 s"
    by (rule with_permit_ok [OF st], rule lo.pre [OF lo.bnd [OF prune_and_stamp_ok [OF sides] lo.pre [OF rest]]])
       (use c in \<open>auto simp: watermark_held_def caught_up_with_def\<close>)
  have idles: "triple ?I (forth body) ?P (?rest False s) (turn_ok target w0)" if "caught_up_with w0 s"
    by (rule lo.pre [OF continuous_rest_ok [OF sides s that]]) blast
  let ?body = "\<lambda>source_head now.
       if source_head \<noteq> None \<and> source_head \<noteq> cn_watermark s then
         bnd (acquire_permit V cancelled) (\<lambda>permit. if \<not> permit then ret Stopped
         else bnd (continuous_pass V source dest target rclone s) (\<lambda>(active, s). ?rest active s))
       else if rt_keep (at_settings target) \<noteq> None \<and> IDLE_PRUNE_EVERY \<le> now - cn_last_prune s then
         bnd (acquire_permit V cancelled) (\<lambda>permit. if \<not> permit then ret Stopped
         else bnd (prune_and_stamp V source dest target s) (\<lambda>s. ?rest False s))
       else ?rest False s"
  let ?H = "\<lambda>h. case h of Some L \<Rightarrow> at_most w0 L | None \<Rightarrow> \<forall>K. at_most w0 K"
  have up: "caught_up_with w0 s" if "?H h" "\<not> (h \<noteq> None \<and> h \<noteq> cn_watermark s)" for h
    using that by (auto simp: caught_up_with_def split: option.splits)
  have branch: "triple ?I (forth body) ?P (?body h now) (turn_ok target w0)" if "?H h" for h now
    using pass prunes [OF up [OF that]] idles [OF up [OF that]] by simp
  have head: "triple ?I (forth body) ?P (max_manifest_id V source) (\<lambda>h w. ?P w \<and> ?H h)"
    by (rule lo.conseq [OF lo.frame [OF max_manifest_id_ok [OF sides(1)] stable_watermark_held]]) auto
  have now: "triple ?I (forth body) ?P get_instant (\<lambda>_. ?P)" by (rule lo.instant)
  have go: "triple ?I (forth body) ?P (bnd (max_manifest_id V source) (\<lambda>h. bnd get_instant (\<lambda>now. ?body h now))) (turn_ok target w0)"
    by (rule lo.bnd [OF head], rule lo.pull, rule lo.bnd [OF now], rule branch)
  have "triple ?I (forth body) ?P (if stop then ret Stopped
      else bnd (max_manifest_id V source) (\<lambda>h. bnd get_instant (\<lambda>now. ?body h now))) (turn_ok target w0)" for stop
    using stopped go by (cases stop) simp_all
  then show ?thesis unfolding continuous_turn_def by (rule lo.bnd [OF keeps [OF waits_loop(1) st]])
qed

subsection \<open>Any number of turns\<close>

lemma continuous_turns_ok:
  assumes sides: "db_side source = AtSource" "db_side dest = AtDest"
  shows "idle_ok target s \<Longrightarrow> triple (loop_inv hist body V) (forth body) (watermark_held s)
    (continuous_turns k fuel V cancelled source dest target rclone s) (\<lambda>_ w. True)"
proof (induction k arbitrary: s)
  case 0
  show ?case unfolding continuous_turns.simps by (rule lo.ret) simp
next
  case (Suc k)
  have turn: "triple (loop_inv hist body V) (forth body) (watermark_held s)
      (continuous_turn fuel V cancelled source dest target rclone s)
      (\<lambda>t w. \<forall>s'. t = Continue s' \<longrightarrow> watermark_held s' w \<and> idle_ok target s')"
  proof (rule lo.gather)
    fix w0
    have "triple (loop_inv hist body V) (forth body) (\<lambda>w. onward body w0 w \<and> watermark_held s w)
      (continuous_turn fuel V cancelled source dest target rclone s) (turn_ok target w0)"
      by (rule continuous_turn_ok [OF sides Suc.prems])
    then show "triple (loop_inv hist body V) (forth body) (\<lambda>w. w = w0 \<and> watermark_held s w)
      (continuous_turn fuel V cancelled source dest target rclone s)
      (\<lambda>t w. \<forall>s'. t = Continue s' \<longrightarrow> watermark_held s' w \<and> idle_ok target s')"
      by (rule lo.conseq) (auto simp: onward_refl turn_ok_def)
  qed
  show ?case unfolding continuous_turns.simps
  proof (rule lo.bnd [OF turn])
    fix t
    show "triple (loop_inv hist body V) (forth body) (\<lambda>w. \<forall>s'. t = Continue s' \<longrightarrow> watermark_held s' w \<and> idle_ok target s')
      (case t of Continue s \<Rightarrow> continuous_turns k fuel V cancelled source dest target rclone s | _ \<Rightarrow> ret t) (\<lambda>_ w. True)"
    proof (cases t)
      case (Continue s')
      have "triple (loop_inv hist body V) (forth body) (\<lambda>w. watermark_held s' w \<and> idle_ok target s')
          (continuous_turns k fuel V cancelled source dest target rclone s') (\<lambda>_ w. True)"
        by (rule lo.pull) (rule Suc.IH)
      then show ?thesis unfolding Continue turn.case by (rule lo.pre) blast
    qed (simp_all add: lo.ret)
  qed
qed

lemma run_continuous_ok:
  assumes sides: "db_side source = AtSource" "db_side dest = AtDest"
  shows "triple (loop_inv hist body V) (forth body) (\<lambda>w. True)
    (run_continuous k fuel V cancelled source dest target rclone) (\<lambda>_ w. True)"
proof -
  have "triple (loop_inv hist body V) (forth body) (\<lambda>w. True) get_instant (\<lambda>_ w. True)" by (rule lo.instant)
  then show ?thesis unfolding run_continuous_def
    by (rule lo.bnd, intro lo.pre [OF continuous_turns_ok [OF sides]]) (simp_all add: idle_ok_def watermark_held_def)
qed

lemma sync_once_ok:
  assumes sides: "db_side source = AtSource" "db_side dest = AtDest"
  shows "triple (loop_inv hist body V) (forth body) (\<lambda>w. True) (sync_once V source dest target rclone) (\<lambda>_ w. True)"
proof -
  have pass: "triple (loop_inv hist body V) (forth body) (onward body w0)
      (scoped (sync_pass V source dest (at_name target) (at_settings target) rclone))
      (\<lambda>out w. onward body w0 w \<and> at_most w0 (pc_head out) \<and> pc_head out \<in> manifest_ids w AtDest)" for w0
    by (rule sync_loop [OF sides])
  have "triple (loop_inv hist body V) (forth body) (\<lambda>w. w = w0 \<and> True)
      (scoped (sync_pass V source dest (at_name target) (at_settings target) rclone)) (\<lambda>_ w. True)" for w0
    by (rule lo.conseq [OF pass [of w0]]) (auto simp: onward_refl)
  then have "triple (loop_inv hist body V) (forth body) (\<lambda>w. True)
      (scoped (sync_pass V source dest (at_name target) (at_settings target) rclone)) (\<lambda>_ w. True)"
    by (rule lo.gather)
  then show ?thesis unfolding sync_once_def
    by (rule lo.bnd [OF _ lo.bnd [OF prune_loop [OF sides] lo.ret]]) simp
qed

lemma periodic_turn_ok:
  assumes sides: "db_side source = AtSource" "db_side dest = AtDest"
  shows "triple (loop_inv hist body V) (forth body) (\<lambda>w. True) (periodic_turn V cancelled source dest target rclone) (\<lambda>_ w. True)"
proof -
  let ?T = "\<lambda>m. triple (loop_inv hist body V) (forth body) (\<lambda>w. True) m (\<lambda>_ w. True)"
  have ret: "?T (ret a)" for a :: 'a by (rule lo.ret) simp
  have wait: "?T (bnd (sleep_for V cancelled d) (\<lambda>slept. ret (if slept then Continue () else Stopped)))" for d
    by (rule lo.bnd [OF waits_loop(3)], rule lo.ret) simp
  have list: "?T (list_manifests V dest)"
    unfolding list_manifests_def by (rule lo.bnd [OF lo.list_dir [OF lo.stable_const]]) (auto intro: lo.ret)
  have now: "?T get_now" by (rule lo.now) simp
  let ?wait = "\<lambda>d. bnd (sleep_for V cancelled d) (\<lambda>slept. ret (if slept then Continue () else Stopped))"
  have sync: "?T (if \<not> permit then ret Stopped else bnd (sync_once V source dest target rclone) (\<lambda>(outcome, _). ?wait (d outcome)))"
    for permit d
    using lo.bnd [OF sync_once_ok [OF sides] wait] ret by (cases permit) (simp_all add: case_prod_unfold)
  have due: "?T (if fresh then ?wait d else bnd (acquire_permit V cancelled) (\<lambda>permit. if \<not> permit then ret Stopped
      else bnd (sync_once V source dest target rclone) (\<lambda>(outcome, _). ?wait (d' outcome))))" for fresh d d'
    using wait lo.bnd [OF waits_loop(2) sync] by (cases fresh) simp_all
  have "?T (if stop then ret Stopped else bnd (list_manifests V dest) (\<lambda>ms. bnd get_now (\<lambda>now.
      if fresh ms now then ?wait (d ms now) else bnd (acquire_permit V cancelled) (\<lambda>permit. if \<not> permit then ret Stopped
      else bnd (sync_once V source dest target rclone) (\<lambda>(outcome, _). ?wait (d' outcome))))))" for stop fresh d d'
    using lo.bnd [OF list lo.bnd [OF now due]] ret by (cases stop) simp_all
  then show ?thesis unfolding periodic_turn_def Let_def by (rule lo.bnd [OF waits_loop(1)])
qed

lemma run_periodic_ok:
  assumes sides: "db_side source = AtSource" "db_side dest = AtDest"
  shows "triple (loop_inv hist body V) (forth body) (\<lambda>w. True) (run_periodic k V cancelled source dest target rclone) (\<lambda>_ w. True)"
proof (induction k)
  case 0
  show ?case unfolding run_periodic.simps by (rule lo.ret) simp
next
  case (Suc k)
  have "triple (loop_inv hist body V) (forth body) (\<lambda>w. True)
      (case t of Continue _ \<Rightarrow> run_periodic k V cancelled source dest target rclone | _ \<Rightarrow> ret t) (\<lambda>_ w. True)" for t
    by (cases t) (simp_all add: lo.ret Suc.IH)
  then show ?case unfolding run_periodic.simps by (rule lo.bnd [OF periodic_turn_ok [OF sides]])
qed

lemma run_mirror_ok:
  assumes sides: "db_side source = AtSource" "db_side dest = AtDest"
  shows "triple (loop_inv hist body V) (forth body) (\<lambda>w. True)
    (run_mirror k fuel V cancelled source dest target rclone) (\<lambda>_ w. True)"
  unfolding run_mirror_def
  by (cases "rt_mode (at_settings target)")
     (simp_all add: lo.bnd [OF run_continuous_ok [OF sides] lo.ret] lo.bnd [OF run_periodic_ok [OF sides] lo.ret])

subsection \<open>Properties of the loops\<close>

text \<open>
  C3. The mirror task is safe for as long as it runs. A task in either mode, stopped or failed
  after any number of turns, with passes, prunes and tail steps interleaved with a source that
  writers and garbage collection keep changing, leaves the target a mirror: every object is the
  source's, every manifest has its data. And the target never goes back: for every manifest it held
  there is one at least as new afterwards.
\<close>

theorem run_mirror_safe:
  assumes "env_ok hist body V" "alone body V" "honest V" and "mirror_inv hist body w" and "w_cache w = Map.empty"
    and sides: "db_side source = AtSource" "db_side dest = AtDest"
    and run: "run_mirror k fuel V cancelled source dest target rclone w = (r, w')"
  shows "mirror_inv hist body w' \<and> (\<forall>i \<in> manifest_ids w AtDest. \<exists>j \<in> manifest_ids w' AtDest. i \<le> j)"
proof -
  have "loop_inv hist body V w" using assms(1-5) by (simp add: loop_inv_def task_inv_def cache_ok_def)
  from tripleD [OF run_mirror_ok [OF sides] this TrueI run] show ?thesis
    unfolding loop_inv_def task_inv_def forth_def by blast
qed

text \<open>
  C27. A continuous mirror keeps up. When a turn of the continuous loop completes, the watermark it
  keeps is at least every manifest the source had when the turn began (there is one
  unless the source had none: SlateDB numbers manifests from one), the target holds a manifest at least as new as that watermark, and the time to
  the next poll is between the target's \<^verbatim>\<open>poll\<close> and the larger of it and five minutes.
\<close>

theorem continuous_turn_keeps_up:
  assumes "env_ok hist body V" "alone body V" "honest V" and "mirror_inv hist body w" and "w_cache w = Map.empty"
    and sides: "db_side source = AtSource" "db_side dest = AtDest" and s: "idle_ok target s" "watermark_held s w"
    and run: "continuous_turn fuel V cancelled source dest target rclone s w = (Inr (Continue s'), w')"
  shows "watermark_held s' w' \<and> idle_ok target s'
    \<and> (case cn_watermark s' of Some L \<Rightarrow> \<forall>i \<in> manifest_ids w AtSource. i \<le> L | None \<Rightarrow> manifest_ids w AtSource \<subseteq> {0})"
proof -
  have "loop_inv hist body V w" using assms(1-5) by (simp add: loop_inv_def task_inv_def cache_ok_def)
  moreover have "onward body w w \<and> watermark_held s w" using s(2) by (simp add: onward_refl)
  ultimately have "turn_ok target w (Continue s') w'"
    using tripleD [OF continuous_turn_ok [OF sides s(1)] _ _ run] by blast
  then show ?thesis unfolding turn_ok_def caught_up_with_def at_most_def by (auto split: option.splits)
qed



definition demo_target :: applied_target where
  "demo_target = \<lparr>at_name = ''dr'', at_destination = ''s3://b/db'', at_settings = demo_settings\<rparr>"

definition demo_state :: continuous where
  "demo_state = \<lparr>cn_idle = rt_poll demo_settings, cn_watermark = Some 2, cn_tail = None, cn_last_prune = 0\<rparr>"

lemma demo_turn:
  "\<exists>w'. continuous_turn 0 demo_env (\<lambda>_. False) demo_source demo_dest demo_target None demo_state stale_world =
     (Inr (Continue (demo_state\<lparr>cn_idle := from_secs 20\<rparr>)), w')"
proof -
  have m: "list_manifests demo_env demo_source w =
      (Inr [(2, stale_meta (manifest_rel 2))], w\<lparr>w_requests := Suc (w_requests w)\<rparr>)" if "w_objects w = w_objects stale_world" for w
    using that by (simp add: list_manifests_def list_dir_def store_list_def metas_def bnd_def ret_def attempt_def request_def
        stale_world_def demo_stored_def dir_takes stale_meta_def parsed_metas_def by_id_def List.map_filter_simps manifest_name_roundtrip)
  show ?thesis
    by (simp add: continuous_turn_def is_cancelled_def max_manifest_id_def bnd_def m ret_def last_opt_def get_instant_def demo_state_def
        demo_target_def demo_settings_def default_resolved_mirror_target_def continuous_rest_def continuous_tail_def Let_def sleep_for_def
        next_idle_def IDLE_POLL_MAX_def from_secs_def)
qed

theorem continuous_turn_keeps_up_witness:
  "\<exists>s' w'. continuous_turn 0 demo_env (\<lambda>_. False) demo_source demo_dest demo_target None demo_state stale_world = (Inr (Continue s'), w')
     \<and> cn_watermark s' = Some 2 \<and> watermark_held s' w' \<and> (\<forall>i \<in> manifest_ids stale_world AtSource. i \<le> 2)"
proof -
  obtain s' w' where run: "continuous_turn 0 demo_env (\<lambda>_. False) demo_source demo_dest demo_target None demo_state stale_world
      = (Inr (Continue s'), w')" and s': "cn_watermark s' = Some 2" using demo_turn by (force simp: demo_state_def)
  have "has stale_world AtDest (manifest_rel 2)" by (simp add: has_def stale_world_objects)
  then have held: "watermark_held demo_state stale_world" by (auto simp: watermark_held_def demo_state_def manifest_ids_def)
  have idle: "idle_ok demo_target demo_state" by (simp add: idle_ok_def demo_target_def demo_state_def)
  have cache: "w_cache stale_world = Map.empty" by (simp add: stale_world_def)
  show ?thesis
    using continuous_turn_keeps_up [OF demo_env_ok demo_quiet stale_world_inv cache demo_handles idle held run] run s' by auto
qed

theorem run_mirror_safe_witness:
  "\<exists>r w'. run_mirror 3 5 demo_env (\<lambda>_. False) demo_source demo_dest demo_target None demo_world = (r, w')
     \<and> mirror_inv demo_hist (\<lambda>n. n) w'"
proof -
  obtain r w' where run: "run_mirror 3 5 demo_env (\<lambda>_. False) demo_source demo_dest demo_target None demo_world = (r, w')" by fastforce
  have cache: "w_cache demo_world = Map.empty" by (simp add: demo_world_def)
  from run_mirror_safe [OF demo_env_ok demo_quiet demo_world_inv cache demo_handles run] show ?thesis using run by blast
qed

end
