(* ===== verification/Placement.thy ===== *)
theory Placement
  imports Config
begin

unbundle bit_operations_syntax

text \<open>
  \<^verbatim>\<open>src/placement.rs\<close>: rendezvous placement. Scores are FNV-1a over 64-bit words, with the
  wrap-around of \<^verbatim>\<open>wrapping_mul\<close>; a ranking sorts the candidates by descending score and then
  by node id. The pair ranking (\<open>rank\<close>) and the triple ranking of mirror targets
  (\<open>rank_target\<close>) are the same algorithm over two score functions: the locale
  \<open>rendezvous\<close> holds its laws, and both are interpretations.
\<close>

definition FNV_OFFSET :: "64 word" where
  "FNV_OFFSET = 0xcbf29ce484222325"

definition FNV_PRIME :: "64 word" where
  "FNV_PRIME = 0x100000001b3"

definition fnv_step :: "64 word \<Rightarrow> char \<Rightarrow> 64 word" where
  "fnv_step h b = (h XOR of_nat (byte_of b)) * FNV_PRIME"

definition fnv1a64 :: "string list \<Rightarrow> 64 word" where
  "fnv1a64 chunks = foldl (foldl fnv_step) FNV_OFFSET chunks"

definition score :: "string \<Rightarrow> service \<Rightarrow> string \<Rightarrow> 64 word" where
  "score database service node_id =
     fnv1a64 [database, [CHR 0x00], as_str service, [CHR 0x00], node_id]"

definition rank_le :: "64 word \<times> string \<Rightarrow> 64 word \<times> string \<Rightarrow> bool" where
  "rank_le a b \<longleftrightarrow> fst b < fst a \<or> fst a = fst b \<and> snd a \<le> snd b"

definition rank :: "string \<Rightarrow> service \<Rightarrow> string list \<Rightarrow> string list" where
  "rank database service candidates =
     map snd (sort_by rank_le (map (\<lambda>n. (score database service n, n)) candidates))"

definition owners :: "string \<Rightarrow> service \<Rightarrow> nat \<Rightarrow> string list \<Rightarrow> string list" where
  "owners database service cnt candidates = take cnt (rank database service candidates)"

definition score_target :: "string \<Rightarrow> string \<Rightarrow> string \<Rightarrow> 64 word" where
  "score_target database target node_id =
     fnv1a64 [database, [CHR 0x00], as_str Mirror, [CHR 0x00], target, [CHR 0x00], node_id]"

definition rank_target :: "string \<Rightarrow> string \<Rightarrow> string list \<Rightarrow> string list" where
  "rank_target database target candidates =
     map snd (sort_by rank_le (map (\<lambda>n. (score_target database target n, n)) candidates))"

definition owner_target :: "string \<Rightarrow> string \<Rightarrow> string list \<Rightarrow> string option" where
  "owner_target database target candidates =
     (case rank_target database target candidates of [] \<Rightarrow> None | n # _ \<Rightarrow> Some n)"

subsection \<open>Rendezvous rankings\<close>

interpretation rank_order: linear_comparator rank_le
  by unfold_locales (auto simp: rank_le_def prod_eq_iff)

locale rendezvous =
  fixes sc :: "string \<Rightarrow> 64 word"
    and rk :: "string list \<Rightarrow> string list"
  assumes rk_sorts: "rk cs = map snd (sort_by rank_le (map (\<lambda>n. (sc n, n)) cs))"
begin

definition beats :: "string \<Rightarrow> string \<Rightarrow> bool" where
  "beats a b \<longleftrightarrow> rank_le (sc a, a) (sc b, b)"

lemma rk_by_beats: "rk cs = sort_by beats cs"
proof -
  have "map (\<lambda>n. (sc n, n)) (sort_by beats cs) = sort_by rank_le (map (\<lambda>n. (sc n, n)) cs)"
    unfolding beats_def by (rule sort_by_map)
  then have "map snd (map (\<lambda>n. (sc n, n)) (sort_by beats cs)) = rk cs" by (simp add: rk_sorts)
  then show ?thesis by (simp add: comp_def)
qed

end

sublocale rendezvous \<subseteq> by_rank: linear_comparator beats
  by unfold_locales (auto simp: beats_def rank_le_def)

context rendezvous
begin

lemma rk_mset: "mset (rk cs) = mset cs"
  by (simp add: rk_by_beats)

lemma rk_set: "set (rk cs) = set cs"
  by (simp add: rk_by_beats)

lemma rk_length: "length (rk cs) = length cs"
  by (simp add: rk_by_beats)

lemma rk_distinct: "distinct (rk cs) \<longleftrightarrow> distinct cs"
  by (simp add: rk_by_beats)

lemma rk_sorted: "sorted_wrt beats (rk cs)"
  by (simp add: rk_by_beats by_rank.sorted_sort_by)

lemma rk_sorted_scores: "sorted_wrt (\<lambda>a b. sc b < sc a \<or> sc a = sc b \<and> a \<le> b) (rk cs)"
  using rk_sorted [of cs] by (rule sorted_wrt_mono_rel [rotated]) (simp add: beats_def rank_le_def)

lemma rk_agree: "mset cs = mset ds \<Longrightarrow> rk cs = rk ds"
  unfolding rk_by_beats by (rule by_rank.sort_by_perm)

lemma rk_filter: "rk (filter P cs) = filter P (rk cs)"
  by (simp add: rk_by_beats by_rank.filter_sort_by)

lemma rk_top:
  assumes "n \<in> set cs" and "\<forall>m \<in> set cs. beats n m"
  shows "\<exists>ms. rk cs = n # ms"
proof (cases "rk cs")
  case Nil
  then show ?thesis using assms(1) rk_set [of cs] by simp
next
  case (Cons m ms)
  have "n \<in> set (rk cs)" "m \<in> set cs" using assms(1) rk_set [of cs] Cons by auto
  then have "beats m n" using rk_sorted [of cs] Cons by_rank.le_refl by auto
  moreover have "beats n m" using assms(2) \<open>m \<in> set cs\<close> by blast
  ultimately show ?thesis using Cons by_rank.le_antisym by blast
qed

lemma best_exists:
  assumes "finite S" and "S \<noteq> {}"
  shows "\<exists>n \<in> S. \<forall>m \<in> S. beats n m"
proof -
  obtain cs where cs: "set cs = S" using finite_list [OF assms(1)] by blast
  then obtain n ms where "rk cs = n # ms" using assms(2) rk_set [of cs] by (cases "rk cs") auto
  then show ?thesis using rk_sorted [of cs] rk_set [of cs] cs by_rank.le_refl by auto
qed

lemma top_after_removal:
  "n \<notin> set (take k (rk cs)) \<Longrightarrow> take k (rk (filter (\<lambda>m. m \<noteq> n) cs)) = take k (rk cs)"
  by (simp add: rk_filter take_filter_absent)

lemma top_after_join:
  assumes "n \<notin> set cs"
  shows "set (take k (rk (n # cs))) \<subseteq> insert n (set (take k (rk cs)))"
proof -
  have "filter (\<lambda>m. m \<noteq> n) (n # cs) = cs" using assms by (auto intro: filter_True)
  then have "rk cs = filter (\<lambda>m. m \<noteq> n) (rk (n # cs))" by (metis rk_filter)
  then show ?thesis using take_filter_superset [of k "rk (n # cs)" n] by simp
qed

end

interpretation pair: rendezvous "score database service" "rank database service"
  for database service
  by unfold_locales (rule rank_def)

interpretation triple: rendezvous "score_target database target" "rank_target database target"
  for database target
  by unfold_locales (rule rank_target_def)

subsection \<open>Properties of placement\<close>

lemma owner_target_top:
  "owner_target db t cs = (case take 1 (rank_target db t cs) of [] \<Rightarrow> None | n # _ \<Rightarrow> Some n)"
  by (cases "rank_target db t cs") (simp_all add: owner_target_def)

text \<open>
  C31. The ranking of a \<^verbatim>\<open>(database, service)\<close> pair is a permutation of the candidates in
  descending score order with ties broken by ascending node id, and it does not depend on the
  order in which the candidates are listed: nodes that see the same live set compute the same
  ranking.
\<close>

theorem rank_correct:
  shows "mset (rank db s cs) = mset cs
    \<and> sorted_wrt (\<lambda>a b. score db s b < score db s a \<or> score db s a = score db s b \<and> a \<le> b) (rank db s cs)
    \<and> (mset ds = mset cs \<longrightarrow> rank db s ds = rank db s cs)"
  using pair.rk_mset pair.rk_sorted_scores [of db s cs] pair.rk_agree [of ds cs] by simp

theorem rank_correct_witness:
  "rank ''s3://b/db'' Gc [''n2'', ''n1''] = rank ''s3://b/db'' Gc [''n1'', ''n2'']"
  using rank_correct [of "''s3://b/db''" Gc "[''n1'', ''n2'']" "[''n2'', ''n1'']"] by simp

text \<open>
  C32. Minimal movement for pairs: when a node leaves, an owner list it was not on is
  unchanged and every other list only loses it and moves up the next-ranked node; when a node
  joins, it is the only possible new owner of anything.
\<close>

theorem owners_minimal_movement:
  shows "rank db s (filter (\<lambda>m. m \<noteq> n) cs) = filter (\<lambda>m. m \<noteq> n) (rank db s cs)
    \<and> (n \<notin> set (owners db s k cs) \<longrightarrow> owners db s k (filter (\<lambda>m. m \<noteq> n) cs) = owners db s k cs)
    \<and> (n \<notin> set cs \<longrightarrow> set (owners db s k (n # cs)) \<subseteq> insert n (set (owners db s k cs)))"
  using pair.rk_filter pair.top_after_removal pair.top_after_join by (simp add: owners_def)

theorem owners_minimal_movement_witness:
  "set (owners ''s3://b/db'' CompactionWorkers 1 [''n3'', ''n1'', ''n2''])
     \<subseteq> insert ''n3'' (set (owners ''s3://b/db'' CompactionWorkers 1 [''n1'', ''n2'']))"
  using owners_minimal_movement [of "''s3://b/db''" CompactionWorkers "''n3''" "[''n1'', ''n2'']" 1] by simp

text \<open>
  Owners of distinct candidates are distinct, live candidates, and there are as many of
  them as asked for, or all candidates when fewer exist.
\<close>

theorem owners_distinct_and_capped:
  assumes "distinct cs"
  shows "distinct (owners db s k cs) \<and> set (owners db s k cs) \<subseteq> set cs
    \<and> length (owners db s k cs) = min k (length cs)"
  using assms pair.rk_distinct [of db s cs] pair.rk_length [of db s cs]
    set_take_subset [of k "rank db s cs"] pair.rk_set [of db s cs]
  by (simp add: owners_def min_def)

theorem owners_distinct_and_capped_witness:
  "length (owners ''s3://b/db'' CompactionWorkers 2 [''a'', ''b'', ''c'']) = 2"
  using owners_distinct_and_capped [of "[''a'', ''b'', ''c'']" "''s3://b/db''" CompactionWorkers 2] by simp

text \<open>
  Target placement moves minimally too: the owner of a \<^verbatim>\<open>(database, mirror, target)\<close>
  triple exists exactly when there is a candidate, is a candidate, changes on a departure only
  if the departed node owned the triple, and on a join only to the joining node.
\<close>

theorem owner_target_minimal_movement:
  shows "(owner_target db t cs = None \<longleftrightarrow> cs = [])
    \<and> (\<forall>o'. owner_target db t cs = Some o' \<longrightarrow> o' \<in> set cs)
    \<and> (owner_target db t cs \<noteq> Some n \<longrightarrow> owner_target db t (filter (\<lambda>m. m \<noteq> n) cs) = owner_target db t cs)
    \<and> (n \<notin> set cs \<longrightarrow> owner_target db t (n # cs) \<in> {Some n, owner_target db t cs})"
proof (intro conjI allI impI)
  show "owner_target db t cs = None \<longleftrightarrow> cs = []"
    using triple.rk_length [of db t cs] by (auto simp: owner_target_def split: list.splits)
  show "o' \<in> set cs" if "owner_target db t cs = Some o'" for o'
    using that triple.rk_set [of db t cs] by (auto simp: owner_target_def split: list.splits)
  show "owner_target db t (filter (\<lambda>m. m \<noteq> n) cs) = owner_target db t cs"
    if "owner_target db t cs \<noteq> Some n"
  proof -
    have "n \<notin> set (take 1 (rank_target db t cs))"
      using that by (cases "rank_target db t cs") (auto simp: owner_target_def)
    then show ?thesis unfolding owner_target_top by (subst triple.top_after_removal) simp_all
  qed
  show "owner_target db t (n # cs) \<in> {Some n, owner_target db t cs}" if "n \<notin> set cs"
    using triple.top_after_join [OF that, of 1 db t] triple.rk_length [of db t "n # cs"]
    by (cases "rank_target db t (n # cs)"; cases "rank_target db t cs") (auto simp: owner_target_def)
qed

theorem owner_target_minimal_movement_witness:
  "owner_target ''s3://b/db'' ''dr'' [''n3'', ''n1'']
     \<in> {Some ''n3'', owner_target ''s3://b/db'' ''dr'' [''n1'']}"
  using owner_target_minimal_movement [of "''s3://b/db''" "''dr''" "[''n1'']" "''n3''"] by simp

subsection \<open>The frozen key encoding\<close>

definition pair_key :: "string \<Rightarrow> service \<Rightarrow> string \<Rightarrow> string" where
  "pair_key db s n = db @ CHR 0x00 # as_str s @ CHR 0x00 # n"

definition triple_key :: "string \<Rightarrow> string \<Rightarrow> string \<Rightarrow> string" where
  "triple_key db t n = db @ CHR 0x00 # as_str Mirror @ CHR 0x00 # t @ CHR 0x00 # n"

lemma fnv1a64_concat: "fnv1a64 chunks = foldl fnv_step FNV_OFFSET (concat chunks)"
proof -
  have "foldl (foldl fnv_step) h chunks = foldl fnv_step h (concat chunks)" for h
    by (induction chunks arbitrary: h) auto
  then show ?thesis by (simp add: fnv1a64_def)
qed

lemma nul_split:
  "CHR 0x00 \<notin> set a \<Longrightarrow> CHR 0x00 \<notin> set c \<Longrightarrow> a @ CHR 0x00 # b = c @ CHR 0x00 # d \<longleftrightarrow> a = c \<and> b = d"
proof (induction a arbitrary: c)
  case Nil
  then show ?case by (cases c) auto
next
  case (Cons x a)
  then show ?case by (cases c) auto
qed

lemma as_str_no_nul: "CHR 0x00 \<notin> set (as_str s)"
  by (cases s) auto

text \<open>
  The key encoding is unambiguous: scores are FNV-1a of the byte strings \<open>pair_key\<close> and
  \<open>triple_key\<close>, two keys of NUL-free components agree only if the components do, and a pair
  key is never a triple key, so no two placements share a hash input.
\<close>

theorem placement_keys_unambiguous:
  assumes "CHR 0x00 \<notin> set db" and "CHR 0x00 \<notin> set db'" and "CHR 0x00 \<notin> set n"
    and "CHR 0x00 \<notin> set t" and "CHR 0x00 \<notin> set t'"
  shows "score db s n = foldl fnv_step FNV_OFFSET (pair_key db s n)
    \<and> score_target db t n = foldl fnv_step FNV_OFFSET (triple_key db t n)
    \<and> (pair_key db s n = pair_key db' s' n' \<longleftrightarrow> db = db' \<and> s = s' \<and> n = n')
    \<and> (triple_key db t n = triple_key db' t' n' \<longleftrightarrow> db = db' \<and> t = t' \<and> n = n')
    \<and> pair_key db s n \<noteq> triple_key db' t' n'"
proof (intro conjI)
  show "score db s n = foldl fnv_step FNV_OFFSET (pair_key db s n)"
    and "score_target db t n = foldl fnv_step FNV_OFFSET (triple_key db t n)"
    by (simp_all add: score_def score_target_def fnv1a64_concat pair_key_def triple_key_def)
  show "pair_key db s n = pair_key db' s' n' \<longleftrightarrow> db = db' \<and> s = s' \<and> n = n'"
    and "triple_key db t n = triple_key db' t' n' \<longleftrightarrow> db = db' \<and> t = t' \<and> n = n'"
    using assms by (simp_all add: pair_key_def triple_key_def nul_split as_str_no_nul)
  show "pair_key db s n \<noteq> triple_key db' t' n'"
  proof
    assume "pair_key db s n = triple_key db' t' n'"
    then have "n = t' @ CHR 0x00 # n'"
      using assms by (simp add: pair_key_def triple_key_def nul_split as_str_no_nul del: as_str.simps)
    with assms(3) show False by simp
  qed
qed

theorem placement_keys_unambiguous_witness:
  "pair_key ''s3://b/db'' Mirror ''n'' \<noteq> triple_key ''s3://b/db'' ''dr'' ''n''"
  using placement_keys_unambiguous
    [of "''s3://b/db''" "''s3://b/db''" "''n''" "''dr''" "''dr''" Mirror] by simp

text \<open>
  The frozen scores: the values the golden tests pin hold of the model, bit for bit.
\<close>

theorem scores_are_frozen:
  "score ''s3://b/db'' Gc ''sleet-1'' = 0x0db7953ae9becf63
   \<and> score ''s3://b/db'' CompactorCoordinator ''sleet-1'' = 0xf9bc77ef11433076
   \<and> score ''s3://b/db'' CompactionWorkers ''sleet-2'' = 0xb6c679bdaed44473
   \<and> score_target ''s3://b/db'' ''dr'' ''sleet-1'' = 0xa7057dde1da5335e
   \<and> score_target ''s3://b/db'' ''backup'' ''sleet-2'' = 0x01282b68db71bebf"
  by (intro conjI) code_simp+

end
