(* ===== verification/Ownership.thy ===== *)
theory Ownership
  imports Config_Poller Mirror_Target Placement
begin

text \<open>
  \<^verbatim>\<open>src/daemon.rs\<close>, the decision every node takes on every tick: the node's options and
  \<open>owned_assignments\<close>, which turns the heartbeats it listed and the fleet state it polled into
  the assignments it runs. The theorems state what the fleet as a whole gets from every node
  deciding alone.
\<close>

record node_options =
  no_node_id :: string
  no_services :: "service list"
  no_max_mirror_jobs :: nat
  no_rclone :: "string option"

text \<open>\<open>parallelism\<close> is \<^verbatim>\<open>std::thread::available_parallelism()\<close>.\<close>

definition default_node_options :: "nat option \<Rightarrow> node_options" where
  "default_node_options parallelism =
     \<lparr>no_node_id = [], no_services = ALL_SERVICES, no_max_mirror_jobs = unwrap_or parallelism 4, no_rclone = None\<rparr>"

definition new_node_options :: "nat option \<Rightarrow> string \<Rightarrow> node_options" where
  "new_node_options parallelism node_id = (default_node_options parallelism)\<lparr>no_node_id := node_id\<rparr>"

definition with_services :: "service list \<Rightarrow> node_options \<Rightarrow> node_options" where
  "with_services services self = self\<lparr>no_services := services\<rparr>"

definition with_max_mirror_jobs :: "nat \<Rightarrow> node_options \<Rightarrow> node_options" where
  "with_max_mirror_jobs n self = self\<lparr>no_max_mirror_jobs := max n 1\<rparr>"

definition with_rclone :: "string \<Rightarrow> node_options \<Rightarrow> node_options" where
  "with_rclone path self = self\<lparr>no_rclone := Some path\<rparr>"

type_synonym assignment = "string \<times> service \<times> string option"

definition live_nodes :: "string \<Rightarrow> service list \<Rightarrow> heartbeat_entry list \<Rightarrow> duration \<Rightarrow> node_view_entry list" where
  "live_nodes node_id services entries timeout =
     (let nodes = node_view entries timeout in
      if node_id \<in> nv_node_id ` set nodes then nodes
      else nodes @ [\<lparr>nv_node_id = node_id, nv_services = services, nv_age = 0\<rparr>])"

definition candidates :: "node_view_entry list \<Rightarrow> service \<Rightarrow> string list" where
  "candidates nodes service = map nv_node_id (filter (\<lambda>n. service \<in> set (nv_services n)) nodes)"

definition owner_count :: "resolved_services \<Rightarrow> service \<Rightarrow> nat" where
  "owner_count resolved service =
     (if service = CompactionWorkers then rw_count (rv_workers resolved) else 1)"

definition service_assignments ::
  "crates \<Rightarrow> string \<Rightarrow> node_view_entry list \<Rightarrow> string \<Rightarrow> resolved_services \<Rightarrow> service \<Rightarrow> assignment list" where
  "service_assignments X node_id nodes url resolved service =
     (let cs = candidates nodes service in
      if service = Mirror
      then map (\<lambda>a. (url, service, Some (at_name a)))
             (filter (\<lambda>a. owner_target url (at_name a) cs = Some node_id)
               (applied_targets X url (rv_mirror resolved)))
      else if node_id \<in> set (owners url service (owner_count resolved service) cs)
           then [(url, service, None)] else [])"

definition owned_pairs ::
  "crates \<Rightarrow> string \<Rightarrow> node_view_entry list \<Rightarrow> fleet_state \<Rightarrow> (assignment \<times> resolved_services) list" where
  "owned_pairs X node_id nodes state =
     concat (map (\<lambda>(url, db).
        (let resolved = resolve (fs_config state) (Some db) in
         concat (map (\<lambda>s. map (\<lambda>k. (k, resolved)) (service_assignments X node_id nodes url resolved s))
           (rv_services resolved))))
       (fs_databases state))"

definition owned_assignments ::
  "crates \<Rightarrow> string \<Rightarrow> service list \<Rightarrow> heartbeat_entry list \<Rightarrow> fleet_state
     \<Rightarrow> (assignment, resolved_services) hmap" where
  "owned_assignments X node_id services entries state =
     hm_of_pairs (owned_pairs X node_id
       (live_nodes node_id services entries (heartbeat_timeout (sc_node (fs_config state)))) state)"

subsection \<open>The owned set\<close>

text \<open>
  The reference form of the decision: among the candidates \<open>cs\<close>, node \<open>n\<close> is entitled to service
  \<open>s\<close> (of target \<open>t\<close>) of a database with the settings \<open>r\<close>.
\<close>

definition entitled ::
  "crates \<Rightarrow> string list \<Rightarrow> string \<Rightarrow> resolved_services \<Rightarrow> service \<Rightarrow> string option \<Rightarrow> string \<Rightarrow> bool" where
  "entitled X cs url r s t n \<longleftrightarrow>
     (if s = Mirror
      then \<exists>a \<in> set (applied_targets X url (rv_mirror r)).
             t = Some (at_name a) \<and> owner_target url (at_name a) cs = Some n
      else t = None \<and> n \<in> set (owners url s (owner_count r s) cs))"

lemma service_assignments_iff:
  "(u, s', t) \<in> set (service_assignments X n nodes url r s) \<longleftrightarrow>
     u = url \<and> s' = s \<and> entitled X (candidates nodes s) url r s t n"
  by (auto simp: service_assignments_def entitled_def Let_def)

lemma set_owned_pairs:
  "(k, r) \<in> set (owned_pairs X n nodes state) \<longleftrightarrow>
     (\<exists>url db s. (url, db) \<in> set (fs_databases state) \<and> r = resolve (fs_config state) (Some db)
        \<and> s \<in> set (rv_services r) \<and> k \<in> set (service_assignments X n nodes url r s))"
  unfolding owned_pairs_def Let_def set_concat set_map image_iff UN_iff Bex_def by fastforce

lemma owned_pairs_iff:
  "((url, s, t), r) \<in> set (owned_pairs X n nodes state) \<longleftrightarrow>
     (\<exists>db. (url, db) \<in> set (fs_databases state) \<and> r = resolve (fs_config state) (Some db)
        \<and> s \<in> set (rv_services r) \<and> (url, s, t) \<in> set (service_assignments X n nodes url r s))"
  unfolding set_owned_pairs service_assignments_iff by blast

lemma owned_pairs_functional:
  assumes "bt_wf (fs_databases state)"
  shows "functional_pairs (owned_pairs X n nodes state)"
  unfolding functional_pairs_def
proof (intro allI impI)
  fix k r r' assume *: "(k, r) \<in> set (owned_pairs X n nodes state)" "(k, r') \<in> set (owned_pairs X n nodes state)"
  obtain u s t where k: "k = (u, s, t)" by (metis surj_pair)
  obtain d where d: "(u, d) \<in> set (fs_databases state)" "r = resolve (fs_config state) (Some d)"
    using *(1) unfolding k owned_pairs_iff by blast
  obtain d' where d': "(u, d') \<in> set (fs_databases state)" "r' = resolve (fs_config state) (Some d')"
    using *(2) unfolding k owned_pairs_iff by blast
  have "d = d'" using d(1) d'(1) assms by (metis bt_get_iff option.inject)
  then show "r = r'" using d(2) d'(2) by simp
qed

lemma owned_assignments_iff:
  assumes "bt_wf (fs_databases state)"
  shows "map_of (owned_assignments X n svc es state) (url, s, t) = Some r \<longleftrightarrow>
    (\<exists>db. bt_get (fs_databases state) url = Some db \<and> r = resolve (fs_config state) (Some db)
       \<and> s \<in> set (rv_services r)
       \<and> (url, s, t) \<in> set (service_assignments X n
            (live_nodes n svc es (heartbeat_timeout (sc_node (fs_config state)))) url r s))"
  unfolding owned_assignments_def hm_of_pairs_get [OF owned_pairs_functional [OF assms]] owned_pairs_iff
  by (simp add: bt_get_iff [OF assms])

lemma live_nodes_distinct: "distinct (map nv_node_id (live_nodes n svc es timeout))"
  using node_view_ids_distinct [of es timeout] by (auto simp: live_nodes_def Let_def)

lemma candidates_distinct: "distinct (candidates (live_nodes n svc es timeout) s)"
  using live_nodes_distinct [of n svc es timeout] by (simp add: candidates_def distinct_map_filter)

lemma candidates_self:
  "n \<in> set (candidates (live_nodes n svc es timeout) s) \<longleftrightarrow>
     (\<exists>v \<in> set (node_view es timeout). nv_node_id v = n \<and> s \<in> set (nv_services v))
     \<or> (n \<notin> nv_node_id ` set (node_view es timeout) \<and> s \<in> set svc)"
proof (cases "n \<in> nv_node_id ` set (node_view es timeout)")
  case True
  then show ?thesis by (auto simp: candidates_def live_nodes_def Let_def image_iff Bex_def)
next
  case False
  then have "n \<notin> nv_node_id ` set (filter (\<lambda>v. s \<in> set (nv_services v)) (node_view es timeout))"
    "\<not> (\<exists>v \<in> set (node_view es timeout). nv_node_id v = n \<and> s \<in> set (nv_services v))" by auto
  then show ?thesis using False unfolding candidates_def live_nodes_def Let_def by simp
qed

lemma live_nodes_in_view:
  "n \<in> nv_node_id ` set (node_view es timeout) \<Longrightarrow> live_nodes n svc es timeout = node_view es timeout"
  by (simp add: live_nodes_def)

lemma owners_card: "distinct cs \<Longrightarrow> card (set (owners url s k cs)) = min k (length cs)"
  using pair.rk_distinct [of url s cs] pair.rk_length [of url s cs]
  by (simp add: owners_def distinct_card)

lemma owners_subset: "set (owners url s k cs) \<subseteq> set cs"
  using pair.rk_set [of url s cs] set_take_subset [of k "rank url s cs"] by (simp add: owners_def)

lemma owner_target_Some: "owner_target url t cs = Some n \<Longrightarrow> n \<in> set cs"
  using triple.rk_set [of url t cs] by (auto simp: owner_target_def split: list.splits)

lemma owner_target_None: "owner_target url t cs = None \<longleftrightarrow> cs = []"
  using triple.rk_length [of url t cs] by (auto simp: owner_target_def split: list.splits)

text \<open>An assignment a database's settings ask for: a service, or a mirror target that applies.\<close>

definition configured :: "crates \<Rightarrow> string \<Rightarrow> resolved_services \<Rightarrow> service \<Rightarrow> string option \<Rightarrow> bool" where
  "configured X url r s t \<longleftrightarrow>
     s \<in> set (rv_services r)
     \<and> (if s = Mirror then t \<in> Some ` at_name ` set (applied_targets X url (rv_mirror r)) else t = None)"

lemma entitled_candidate: "entitled X cs url r s t n \<Longrightarrow> n \<in> set cs"
  using owners_subset owner_target_Some by (fastforce simp: entitled_def split: if_splits)

lemma entitled_target:
  "a \<in> set (applied_targets X url (rv_mirror r)) \<Longrightarrow>
     entitled X cs url r Mirror (Some (at_name a)) n \<longleftrightarrow> owner_target url (at_name a) cs = Some n"
  by (auto simp: entitled_def)

lemma entitled_card:
  assumes "distinct cs" and "configured X url r s t"
  shows "card {n. entitled X cs url r s t n} = min (owner_count r s) (length cs)"
proof (cases "s = Mirror")
  case True
  then obtain a where a: "t = Some (at_name a)" "a \<in> set (applied_targets X url (rv_mirror r))"
    using assms(2) by (auto simp: configured_def)
  have "card {n. owner_target url (at_name a) cs = Some n} = min 1 (length cs)"
    using owner_target_None [of url "at_name a" cs]
    by (cases "owner_target url (at_name a) cs"; cases cs) auto
  then show ?thesis using True a entitled_target [OF a(2)] by (simp add: owner_count_def)
next
  case False
  then show ?thesis
    using assms owners_card [OF assms(1)] by (simp add: entitled_def configured_def)
qed

subsection \<open>What the fleet gets\<close>

text \<open>
  The live ids of a view that offer a service, and those that compute an assignment as theirs when
  every live node lists the same heartbeats; \<open>svc\<close> is what each process was started with.
\<close>

definition fleet_view :: "heartbeat_entry list \<Rightarrow> fleet_state \<Rightarrow> node_view_entry list" where
  "fleet_view entries state = node_view entries (heartbeat_timeout (sc_node (fs_config state)))"

definition offering :: "node_view_entry list \<Rightarrow> service \<Rightarrow> string set" where
  "offering view s = nv_node_id ` {v \<in> set view. s \<in> set (nv_services v)}"

definition owning ::
  "crates \<Rightarrow> (string \<Rightarrow> service list) \<Rightarrow> heartbeat_entry list \<Rightarrow> fleet_state \<Rightarrow> assignment \<Rightarrow> string set" where
  "owning X svc entries state k =
     {n \<in> nv_node_id ` set (fleet_view entries state).
        k \<in> dom (map_of (owned_assignments X n (svc n) entries state))}"

text \<open>
  C12. Ownership is complete and exclusive on a shared view. Let any number of live nodes list the
  same heartbeats and hold the same fleet state. For every registered database and configured
  service other than mirror, the live nodes that own the assignment are all offering the service,
  and there are exactly as many as configured (one for gc and the coordinator, \<^verbatim>\<open>count\<close> for
  workers), or all offering nodes when fewer are alive. For every applied mirror target exactly
  one offering node owns it, as soon as one is alive.
\<close>

theorem shared_view_ownership:
  assumes wf: "bt_wf (fs_databases state)" and db: "bt_get (fs_databases state) url = Some db"
    and r: "r = resolve (fs_config state) (Some db)" and s: "s \<in> set (rv_services r)"
  shows "(s \<noteq> Mirror \<longrightarrow> owning X svc entries state (url, s, None) \<subseteq> offering (fleet_view entries state) s
            \<and> card (owning X svc entries state (url, s, None)) = min (owner_count r s) (card (offering (fleet_view entries state) s)))
    \<and> (s = Mirror \<longrightarrow> (\<forall>a \<in> set (applied_targets X url (rv_mirror r)).
          owning X svc entries state (url, s, Some (at_name a)) \<subseteq> offering (fleet_view entries state) s
          \<and> card (owning X svc entries state (url, s, Some (at_name a))) = min 1 (card (offering (fleet_view entries state) s))))"
proof -
  let ?view = "fleet_view entries state"
  let ?cs = "candidates ?view s"
  have dist: "distinct ?cs"
    using node_view_ids_distinct unfolding candidates_def fleet_view_def by (simp add: distinct_map_filter)
  have cs: "set ?cs = offering ?view s" by (auto simp: candidates_def offering_def)
  have count: "card (offering ?view s) = length ?cs" unfolding cs [symmetric] by (rule distinct_card [OF dist])
  have live: "n \<in> nv_node_id ` set ?view \<Longrightarrow>
      live_nodes n (svc n) entries (heartbeat_timeout (sc_node (fs_config state))) = ?view" for n
    unfolding fleet_view_def by (rule live_nodes_in_view)
  have member: "n \<in> nv_node_id ` set ?view" if "entitled X ?cs url r s t n" for n t
    using entitled_candidate [OF that] by (auto simp: candidates_def)
  have owning: "owning X svc entries state (url, s, t) = {n. entitled X ?cs url r s t n}" for t
    using s db live member
    by (auto simp: owning_def dom_def owned_assignments_iff [OF wf] r service_assignments_iff)
  have "owning X svc entries state (url, s, t) \<subseteq> offering ?view s
      \<and> card (owning X svc entries state (url, s, t)) = min (owner_count r s) (card (offering ?view s))"
    if "configured X url r s t" for t
    using entitled_card [OF dist that] entitled_candidate [of X ?cs url r s t] cs unfolding owning count by blast
  moreover have "s \<noteq> Mirror \<Longrightarrow> configured X url r s None" using s by (simp add: configured_def)
  moreover have "s = Mirror \<Longrightarrow> a \<in> set (applied_targets X url (rv_mirror r)) \<Longrightarrow> configured X url r s (Some (at_name a))" for a
    using s by (simp add: configured_def)
  moreover have "s = Mirror \<Longrightarrow> owner_count r s = 1" by (simp add: owner_count_def)
  ultimately show ?thesis by metis
qed

definition demo_state :: fleet_state where
  "demo_state =
     \<lparr>fs_config = default_sleet_config, fs_databases = [(''s3://b/db'', default_database_config)], fs_warnings = []\<rparr>"

definition demo_heartbeats :: "heartbeat_entry list" where
  "demo_heartbeats =
     [\<lparr>he_node_id = ''n1'', he_services = [Gc, Mirror], he_age = 5, he_location = ''fleet/nodes/n1.gm.json''\<rparr>,
      \<lparr>he_node_id = ''n2'', he_services = [Gc], he_age = 7, he_location = ''fleet/nodes/n2.g.json''\<rparr>]"

lemma demo_fleet_view:
  "fleet_view demo_heartbeats demo_state =
     [\<lparr>nv_node_id = ''n1'', nv_services = [Gc, Mirror], nv_age = 5\<rparr>,
      \<lparr>nv_node_id = ''n2'', nv_services = [Gc], nv_age = 7\<rparr>]"
  by (simp add: fleet_view_def demo_heartbeats_def demo_state_def default_sleet_config_def default_node_config_def
      from_secs_def node_view_def youngest_per_node_def keep_youngest_def bt_insert_Cons)

lemma demo_resolve_services: "rv_services (resolve default_sleet_config (Some default_database_config)) = ALL_SERVICES"
  by (simp add: resolve_def database_apply_closed default_sleet_config_def default_database_config_def
      default_resolved_services_def)

lemma demo_offering: "offering (fleet_view demo_heartbeats demo_state) Gc = {''n1'', ''n2''}"
proof -
  have "offering (fleet_view demo_heartbeats demo_state) Gc = set (candidates (fleet_view demo_heartbeats demo_state) Gc)"
    by (auto simp: candidates_def offering_def)
  also have "candidates (fleet_view demo_heartbeats demo_state) Gc = [''n1'', ''n2'']"
    by (simp add: candidates_def demo_fleet_view)
  finally show ?thesis by simp
qed

lemma demo_state_sel [simp]:
  "fs_config demo_state = default_sleet_config" "fs_databases demo_state = [(''s3://b/db'', default_database_config)]"
  by (simp_all add: demo_state_def)

theorem shared_view_ownership_witness:
  "card (owning demo_crates (\<lambda>_. [Gc]) demo_heartbeats demo_state (''s3://b/db'', Gc, None)) = 1"
  using shared_view_ownership [of demo_state "''s3://b/db''" default_database_config
      "resolve default_sleet_config (Some default_database_config)" Gc demo_crates "\<lambda>_. [Gc]" demo_heartbeats]
  by (simp add: demo_offering owner_count_def demo_resolve_services ALL_SERVICES_def bt_wf_def)



end
