(* ===== verification/Supervision.thy ===== *)
theory Supervision
  imports Ownership Services
begin

text \<open>
  \<^verbatim>\<open>src/daemon.rs\<close>, supervision: the shared table of task states, the supervision loop with its
  backoff, and the interleaving of the supervisors of one process.

  Every supervisor is a task of its own, so the loop is a state machine whose steps are the
  stretches between two accesses to shared state: taking an instance number, the three critical
  sections on the table, the end of the task body and the end of a sleep. \<open>sup_step\<close>
  interleaves any number of them with spawns and cancellations by the daemon.
  \<open>NEXT_INSTANCE\<close> is a 64-bit counter of which a process uses one value per task start; it is a
  natural number here.
\<close>

datatype task_state = Running | Backoff

type_synonym task_states = "(assignment, nat \<times> task_state) hmap"

definition set_state :: "assignment \<Rightarrow> nat \<Rightarrow> task_state \<Rightarrow> task_states \<Rightarrow> task_states" where
  "set_state key instance_id state states =
     (case map_of states key of
        Some (newer, _) \<Rightarrow> if instance_id < newer then states else AList.update key (instance_id, state) states
      | None \<Rightarrow> AList.update key (instance_id, state) states)"

definition remove_own :: "assignment \<Rightarrow> nat \<Rightarrow> task_states \<Rightarrow> task_states" where
  "remove_own key instance_id states =
     (case map_of states key of
        Some (writer, _) \<Rightarrow> if writer = instance_id then AList.delete key states else states
      | None \<Rightarrow> states)"

definition MAX_BACKOFF :: duration where
  "MAX_BACKOFF = from_secs 60"

definition INITIAL_BACKOFF :: duration where
  "INITIAL_BACKOFF = from_secs 1"

text \<open>After a failure: the new backoff and the delay before the next run.\<close>

definition next_delay :: "duration \<Rightarrow> duration \<Rightarrow> service_error \<Rightarrow> duration \<times> duration" where
  "next_delay hb backoff e =
     (if is_fenced e then (INITIAL_BACKOFF, hb)
      else (let b = min (backoff * 2) MAX_BACKOFF in (b, b)))"

subsection \<open>The supervisors of a process\<close>

datatype phase = Spawned | LoopTop | InBody | Failing duration | Sleeping duration | Exiting | Finished

record supervisor =
  sup_key :: assignment
  sup_instance :: nat
  sup_backoff :: duration
  sup_phase :: phase
  sup_cancelled :: bool

record process =
  pr_states :: task_states
  pr_next :: nat
  pr_sups :: "supervisor list"

definition start_process :: process where
  "start_process = \<lparr>pr_states = [], pr_next = 0, pr_sups = []\<rparr>"

definition new_supervisor :: "assignment \<Rightarrow> supervisor" where
  "new_supervisor key =
     \<lparr>sup_key = key, sup_instance = 0, sup_backoff = INITIAL_BACKOFF, sup_phase = Spawned, sup_cancelled = False\<rparr>"

definition goto :: "nat \<Rightarrow> phase \<Rightarrow> process \<Rightarrow> process" where
  "goto i ph w = w\<lparr>pr_sups := (pr_sups w)[i := (pr_sups w ! i)\<lparr>sup_phase := ph\<rparr>]\<rparr>"

definition in_phase :: "process \<Rightarrow> nat \<Rightarrow> phase \<Rightarrow> bool" where
  "in_phase w i ph \<longleftrightarrow> i < length (pr_sups w) \<and> sup_phase (pr_sups w ! i) = ph"

definition take_instance :: "nat \<Rightarrow> process \<Rightarrow> process" where
  "take_instance i w =
     w\<lparr>pr_next := pr_next w + 1,
       pr_sups := (pr_sups w)[i := (pr_sups w ! i)\<lparr>sup_instance := pr_next w, sup_phase := LoopTop\<rparr>]\<rparr>"

definition write_state :: "nat \<Rightarrow> task_state \<Rightarrow> process \<Rightarrow> process" where
  "write_state i st w =
     w\<lparr>pr_states := set_state (sup_key (pr_sups w ! i)) (sup_instance (pr_sups w ! i)) st (pr_states w)\<rparr>"

text \<open>The body ended with \<open>result\<close>: the cancellation check and the match of the loop.\<close>

definition body_ended :: "duration \<Rightarrow> nat \<Rightarrow> service_error + unit \<Rightarrow> process \<Rightarrow> process" where
  "body_ended hb i result w =
     (let s = pr_sups w ! i in
      if sup_cancelled s then goto i Exiting w
      else
        (case result of
           Inr _ \<Rightarrow> goto i Exiting w
         | Inl e \<Rightarrow>
             (case next_delay hb (sup_backoff s) e of
                (b, d) \<Rightarrow> w\<lparr>pr_sups := (pr_sups w)[i := s\<lparr>sup_backoff := b, sup_phase := Failing d\<rparr>]\<rparr>)))"

definition finish :: "nat \<Rightarrow> process \<Rightarrow> process" where
  "finish i w =
     goto i Finished
       (w\<lparr>pr_states := remove_own (sup_key (pr_sups w ! i)) (sup_instance (pr_sups w ! i)) (pr_states w)\<rparr>)"

definition cancel :: "nat \<Rightarrow> process \<Rightarrow> process" where
  "cancel i w = w\<lparr>pr_sups := (pr_sups w)[i := (pr_sups w ! i)\<lparr>sup_cancelled := True\<rparr>]\<rparr>"

definition spawn :: "assignment \<Rightarrow> process \<Rightarrow> process" where
  "spawn key w = w\<lparr>pr_sups := pr_sups w @ [new_supervisor key]\<rparr>"

inductive sup_step :: "duration \<Rightarrow> process \<Rightarrow> process \<Rightarrow> bool" for hb :: duration where
  Spawn: "sup_step hb w (spawn key w)"
| Cancel: "i < length (pr_sups w) \<Longrightarrow> sup_step hb w (cancel i w)"
| First: "in_phase w i Spawned \<Longrightarrow> sup_step hb w (take_instance i w)"
| Run: "in_phase w i LoopTop \<Longrightarrow> sup_step hb w (goto i InBody (write_state i Running w))"
| Ended: "in_phase w i InBody \<Longrightarrow> sup_step hb w (body_ended hb i result w)"
| Fail: "in_phase w i (Failing d) \<Longrightarrow> sup_step hb w (goto i (Sleeping d) (write_state i Backoff w))"
| Wake: "in_phase w i (Sleeping d) \<Longrightarrow> sup_step hb w (goto i LoopTop w)"
| Stop: "in_phase w i (Sleeping d) \<Longrightarrow> sup_cancelled (pr_sups w ! i) \<Longrightarrow> sup_step hb w (goto i Exiting w)"
| Exit: "in_phase w i Exiting \<Longrightarrow> sup_step hb w (finish i w)"

inductive_cases sup_stepE: "sup_step hb w w'"

inductive sup_reach :: "duration \<Rightarrow> process \<Rightarrow> bool" for hb :: duration where
  init: "sup_reach hb start_process"
| step: "sup_reach hb w \<Longrightarrow> sup_step hb w w' \<Longrightarrow> sup_reach hb w'"

subsection \<open>The table\<close>

lemma set_state_get:
  "map_of (set_state k i st m) k' =
     (if k' = k \<and> (\<forall>j x. map_of m k = Some (j, x) \<longrightarrow> j \<le> i) then Some (i, st) else map_of m k')"
  by (auto simp: set_state_def update_conv not_less split: option.splits)

lemma remove_own_get:
  "map_of (remove_own k i m) k' = (if k' = k \<and> (\<exists>x. map_of m k = Some (i, x)) then None else map_of m k')"
  by (auto simp: remove_own_def delete_conv' split: option.splits)

subsection \<open>Invariants\<close>

fun reports :: "phase \<Rightarrow> task_state set" where
  "reports Spawned = {}"
| "reports LoopTop = {Backoff}"
| "reports InBody = {Running}"
| "reports (Failing d) = {Running}"
| "reports (Sleeping d) = {Backoff}"
| "reports Exiting = {Running, Backoff}"
| "reports Finished = {}"

definition instances_ok :: "process \<Rightarrow> bool" where
  "instances_ok w \<longleftrightarrow>
     (\<forall>i < length (pr_sups w). sup_phase (pr_sups w ! i) \<noteq> Spawned \<longrightarrow> sup_instance (pr_sups w ! i) < pr_next w)
     \<and> (\<forall>i < length (pr_sups w). \<forall>j < length (pr_sups w).
          sup_phase (pr_sups w ! i) \<noteq> Spawned \<and> sup_phase (pr_sups w ! j) \<noteq> Spawned
          \<and> sup_instance (pr_sups w ! i) = sup_instance (pr_sups w ! j) \<longrightarrow> i = j)"

definition reported_by :: "process \<Rightarrow> assignment \<Rightarrow> nat \<Rightarrow> task_state \<Rightarrow> nat \<Rightarrow> bool" where
  "reported_by w k n st i \<longleftrightarrow>
     i < length (pr_sups w) \<and> sup_key (pr_sups w ! i) = k \<and> sup_instance (pr_sups w ! i) = n
     \<and> st \<in> reports (sup_phase (pr_sups w ! i))"

definition table_ok :: "process \<Rightarrow> bool" where
  "table_ok w \<longleftrightarrow> (\<forall>k n st. map_of (pr_states w) k = Some (n, st) \<longrightarrow> (\<exists>i. reported_by w k n st i))"

definition newest :: "process \<Rightarrow> nat \<Rightarrow> bool" where
  "newest w i \<longleftrightarrow>
     i < length (pr_sups w) \<and> sup_phase (pr_sups w ! i) \<noteq> Spawned
     \<and> (\<forall>j < length (pr_sups w). sup_key (pr_sups w ! j) = sup_key (pr_sups w ! i)
          \<and> sup_phase (pr_sups w ! j) \<noteq> Spawned \<longrightarrow> sup_instance (pr_sups w ! j) \<le> sup_instance (pr_sups w ! i))"

definition at_work :: "phase \<Rightarrow> bool" where
  "at_work ph \<longleftrightarrow> ph = InBody \<or> (\<exists>d. ph = Failing d \<or> ph = Sleeping d)"

definition newest_shown :: "process \<Rightarrow> bool" where
  "newest_shown w \<longleftrightarrow>
     (\<forall>i. newest w i \<and> at_work (sup_phase (pr_sups w ! i)) \<longrightarrow>
        (\<exists>st \<in> reports (sup_phase (pr_sups w ! i)).
           map_of (pr_states w) (sup_key (pr_sups w ! i)) = Some (sup_instance (pr_sups w ! i), st)))"

lemmas op_defs = spawn_def cancel_def take_instance_def goto_def write_state_def finish_def body_ended_def
  new_supervisor_def Let_def

text \<open>A step that starts or stops nothing keeps the keys, the instances and who has started.\<close>

definition similar :: "process \<Rightarrow> process \<Rightarrow> bool" where
  "similar w w' \<longleftrightarrow>
     pr_next w' = pr_next w \<and> length (pr_sups w') = length (pr_sups w)
     \<and> (\<forall>j < length (pr_sups w). sup_key (pr_sups w' ! j) = sup_key (pr_sups w ! j)
          \<and> sup_instance (pr_sups w' ! j) = sup_instance (pr_sups w ! j)
          \<and> (sup_phase (pr_sups w' ! j) = Spawned \<longleftrightarrow> sup_phase (pr_sups w ! j) = Spawned))"

lemma similar_update:
  assumes "pr_next w' = pr_next w" and "pr_sups w' = (pr_sups w)[i := s']"
    and "sup_key s' = sup_key (pr_sups w ! i)" and "sup_instance s' = sup_instance (pr_sups w ! i)"
    and "sup_phase s' = Spawned \<longleftrightarrow> sup_phase (pr_sups w ! i) = Spawned"
  shows "similar w w'"
  unfolding similar_def
proof (intro conjI allI impI)
  fix j assume "j < length (pr_sups w)"
  then show "sup_key (pr_sups w' ! j) = sup_key (pr_sups w ! j)"
    "sup_instance (pr_sups w' ! j) = sup_instance (pr_sups w ! j)"
    "sup_phase (pr_sups w' ! j) = Spawned \<longleftrightarrow> sup_phase (pr_sups w ! j) = Spawned"
    using assms(2-5) by (cases "i = j"; simp)+
qed (use assms in simp_all)

lemma goto_write [simp]:
  "pr_sups (write_state i st w) = pr_sups w" "pr_next (write_state i st w) = pr_next w"
  "pr_states (goto i ph w) = pr_states w" "pr_next (goto i ph w) = pr_next w"
  by (simp_all add: write_state_def goto_def)

lemma similar_goto: "sup_phase (pr_sups w ! i) \<noteq> Spawned \<Longrightarrow> ph \<noteq> Spawned \<Longrightarrow> similar w (goto i ph w)"
  by (rule similar_update [where i = i and s' = "(pr_sups w ! i)\<lparr>sup_phase := ph\<rparr>"]) (simp_all add: goto_def)

lemma similar_goto_write:
  "sup_phase (pr_sups w ! i) \<noteq> Spawned \<Longrightarrow> ph \<noteq> Spawned \<Longrightarrow> similar w (goto i ph (write_state i st w))"
  by (rule similar_update [where i = i and s' = "(pr_sups w ! i)\<lparr>sup_phase := ph\<rparr>"]) (simp_all add: goto_def write_state_def)

lemma similar_finish: "sup_phase (pr_sups w ! i) \<noteq> Spawned \<Longrightarrow> similar w (finish i w)"
  by (rule similar_update [where i = i and s' = "(pr_sups w ! i)\<lparr>sup_phase := Finished\<rparr>"]) (simp_all add: goto_def finish_def)

lemma similar_cancel: "similar w (cancel i w)"
  by (rule similar_update [where i = i and s' = "(pr_sups w ! i)\<lparr>sup_cancelled := True\<rparr>"]) (simp_all add: cancel_def)

lemma similar_body_ended:
  assumes "sup_phase (pr_sups w ! i) \<noteq> Spawned"
  shows "similar w (body_ended hb i r w)"
proof (cases "sup_cancelled (pr_sups w ! i) \<or> r = Inr ()")
  case True
  then have "body_ended hb i r w = goto i Exiting w" by (auto simp: body_ended_def Let_def)
  then show ?thesis using similar_goto [OF assms, of Exiting] by simp
next
  case False
  then obtain e where e: "r = Inl e" "\<not> sup_cancelled (pr_sups w ! i)" by (cases r) auto
  obtain b d where "next_delay hb (sup_backoff (pr_sups w ! i)) e = (b, d)" by (metis surj_pair)
  with e have "body_ended hb i r w
      = w\<lparr>pr_sups := (pr_sups w)[i := (pr_sups w ! i)\<lparr>sup_backoff := b, sup_phase := Failing d\<rparr>]\<rparr>"
    by (simp add: body_ended_def)
  then show ?thesis
    by (intro similar_update [where i = i and s' = "(pr_sups w ! i)\<lparr>sup_backoff := b, sup_phase := Failing d\<rparr>"])
       (simp_all add: assms)
qed

lemma step_similar:
  assumes "sup_step hb w w'"
  shows "similar w w' \<or> (\<exists>key. w' = spawn key w) \<or> (\<exists>i. in_phase w i Spawned \<and> w' = take_instance i w)"
  using assms
proof (cases rule: sup_step.cases)
  case (Run i)
  then show ?thesis using similar_goto_write [of w i InBody Running] by (simp add: in_phase_def)
next
  case (Fail i d)
  then show ?thesis using similar_goto_write [of w i "Sleeping d" Backoff] by (simp add: in_phase_def)
next
  case (Wake i d)
  then show ?thesis using similar_goto [of w i LoopTop] by (simp add: in_phase_def)
next
  case (Stop i d)
  then show ?thesis using similar_goto [of w i Exiting] by (simp add: in_phase_def)
qed (auto simp: in_phase_def intro: similar_cancel similar_body_ended similar_finish)

lemma instances_ok_similar: "similar w w' \<Longrightarrow> instances_ok w \<Longrightarrow> instances_ok w'"
  unfolding similar_def instances_ok_def by simp

lemma instances_ok_spawn: "instances_ok w \<Longrightarrow> instances_ok (spawn key w)"
  unfolding instances_ok_def by (auto simp: spawn_def new_supervisor_def nth_append)

lemma instances_ok_take:
  assumes "instances_ok w" and "in_phase w i Spawned"
  shows "instances_ok (take_instance i w)"
proof -
  have lt: "\<And>j. j < length (pr_sups w) \<Longrightarrow> sup_phase (pr_sups w ! j) \<noteq> Spawned \<Longrightarrow> sup_instance (pr_sups w ! j) < pr_next w"
    and uniq: "\<And>j k. j < length (pr_sups w) \<Longrightarrow> k < length (pr_sups w) \<Longrightarrow> sup_phase (pr_sups w ! j) \<noteq> Spawned \<Longrightarrow>
      sup_phase (pr_sups w ! k) \<noteq> Spawned \<Longrightarrow> sup_instance (pr_sups w ! j) = sup_instance (pr_sups w ! k) \<Longrightarrow> j = k"
    using assms(1) unfolding instances_ok_def by blast+
  have i: "i < length (pr_sups w)" using assms(2) by (simp add: in_phase_def)
  let ?w = "take_instance i w"
  have len: "length (pr_sups ?w) = length (pr_sups w)" and nxt: "pr_next ?w = Suc (pr_next w)"
    and own: "sup_instance (pr_sups ?w ! i) = pr_next w"
    and other: "\<And>j. j \<noteq> i \<Longrightarrow> pr_sups ?w ! j = pr_sups w ! j"
    using i by (simp_all add: take_instance_def)
  show ?thesis
    unfolding instances_ok_def len nxt
  proof (intro conjI allI impI)
    fix j assume "j < length (pr_sups w)" "sup_phase (pr_sups ?w ! j) \<noteq> Spawned"
    then show "sup_instance (pr_sups ?w ! j) < Suc (pr_next w)"
      using lt [of j] own other [of j] by (cases "j = i") auto
  next
    fix j k assume j: "j < length (pr_sups w)" and k: "k < length (pr_sups w)"
      and *: "sup_phase (pr_sups ?w ! j) \<noteq> Spawned \<and> sup_phase (pr_sups ?w ! k) \<noteq> Spawned
        \<and> sup_instance (pr_sups ?w ! j) = sup_instance (pr_sups ?w ! k)"
    show "j = k"
    proof (cases "j = i \<or> k = i")
      case True
      then show ?thesis using * lt [OF j] lt [OF k] own other [of j] other [of k] by force
    next
      case False
      then show ?thesis using * uniq [OF j k] other [of j] other [of k] by simp
    qed
  qed
qed

lemma instances_ok_step: "sup_step hb w w' \<Longrightarrow> instances_ok w \<Longrightarrow> instances_ok w'"
  using step_similar instances_ok_similar instances_ok_spawn instances_ok_take by blast

abbreviation ph :: "process \<Rightarrow> nat \<Rightarrow> phase" where
  "ph w i \<equiv> sup_phase (pr_sups w ! i)"

lemma reports_started: "st \<in> reports p \<Longrightarrow> p \<noteq> Spawned"
  by (cases p) auto

lemma ph_goto: "i < length (pr_sups w) \<Longrightarrow> ph (goto i p w) j = (if j = i then p else ph w j)"
  by (simp add: goto_def nth_list_update)

lemma reported_by_similar:
  assumes "similar w w'" and "reported_by w k n st i" and "reports (ph w i) \<subseteq> reports (ph w' i)"
  shows "reported_by w' k n st i"
  using assms unfolding similar_def reported_by_def by auto

lemma table_okD: "table_ok w \<Longrightarrow> map_of (pr_states w) k = Some (n, st) \<Longrightarrow> \<exists>i. reported_by w k n st i"
  unfolding table_ok_def by blast

lemma table_ok_quiet:
  assumes "similar w w'" and "pr_states w' = pr_states w" and "\<And>j. j < length (pr_sups w) \<Longrightarrow> reports (ph w j) \<subseteq> reports (ph w' j)"
    and "table_ok w"
  shows "table_ok w'"
  unfolding table_ok_def
proof (intro allI impI)
  fix k n st assume "map_of (pr_states w') k = Some (n, st)"
  then have "map_of (pr_states w) k = Some (n, st)" using assms(2) by simp
  then obtain i where i: "reported_by w k n st i" using table_okD [OF assms(4)] by blast
  then have "reports (ph w i) \<subseteq> reports (ph w' i)" using assms(3) by (simp add: reported_by_def)
  then show "\<exists>i. reported_by w' k n st i" using reported_by_similar [OF assms(1) i] by blast
qed

lemma table_ok_write:
  assumes i: "i < length (pr_sups w)" "ph w i \<noteq> Spawned" and p: "st \<in> reports p" and ok: "table_ok w"
  shows "table_ok (goto i p (write_state i st w))" (is "table_ok ?w")
  unfolding table_ok_def
proof (intro allI impI)
  fix k n x assume entry: "map_of (pr_states ?w) k = Some (n, x)"
  let ?k = "sup_key (pr_sups w ! i)" and ?n = "sup_instance (pr_sups w ! i)"
  have sim: "similar w ?w" by (rule similar_goto_write [OF i(2)]) (use p reports_started in blast)
  have phs: "ph ?w j = (if j = i then p else ph w j)" for j using i(1) ph_goto [of i "write_state i st w" p j] by simp
  show "\<exists>j. reported_by ?w k n x j"
  proof (cases "k = ?k \<and> (\<forall>j x. map_of (pr_states w) ?k = Some (j, x) \<longrightarrow> j \<le> ?n)")
    case True
    then have "n = ?n" "x = st" using entry by (auto simp: write_state_def goto_def set_state_get)
    then have "reported_by ?w k n x i"
      using True i p by (simp add: reported_by_def goto_def write_state_def)
    then show ?thesis ..
  next
    case False
    have "map_of (pr_states ?w) k = (if k = ?k \<and> (\<forall>j x. map_of (pr_states w) ?k = Some (j, x) \<longrightarrow> j \<le> ?n)
        then Some (?n, st) else map_of (pr_states w) k)"
      by (simp add: goto_def write_state_def set_state_get)
    then have old: "map_of (pr_states w) k = Some (n, x)" using entry False by argo
    then obtain j where j: "reported_by w k n x j" using table_okD [OF ok] by blast
    have "j \<noteq> i" using j old False by (auto simp: reported_by_def)
    then show ?thesis using reported_by_similar [OF sim j] phs [of j] by auto
  qed
qed

lemma table_ok_finish:
  assumes i: "i < length (pr_sups w)" "ph w i \<noteq> Spawned" and ok: "table_ok w"
  shows "table_ok (finish i w)"
  unfolding table_ok_def
proof (intro allI impI)
  fix k n x assume entry: "map_of (pr_states (finish i w)) k = Some (n, x)"
  let ?k = "sup_key (pr_sups w ! i)" and ?n = "sup_instance (pr_sups w ! i)"
  have old: "map_of (pr_states w) k = Some (n, x)" and gone: "\<not> (k = ?k \<and> n = ?n)"
    using entry by (auto simp: finish_def goto_def remove_own_get split: if_splits)
  obtain j where j: "reported_by w k n x j" using ok old unfolding table_ok_def by blast
  then have "j \<noteq> i" using gone by (auto simp: reported_by_def)
  then have "ph (finish i w) j = ph w j" using i(1) by (simp add: finish_def goto_def)
  then show "\<exists>j. reported_by (finish i w) k n x j"
    using reported_by_similar [OF similar_finish [OF i(2)] j] by auto
qed

lemma table_ok_spawn: "table_ok w \<Longrightarrow> table_ok (spawn key w)"
  unfolding table_ok_def reported_by_def by (simp add: spawn_def) (metis less_SucI nth_append)

lemma table_ok_take: 
  assumes "table_ok w" and "in_phase w i Spawned"
  shows "table_ok (take_instance i w)"
  unfolding table_ok_def
proof (intro allI impI)
  fix k n x assume "map_of (pr_states (take_instance i w)) k = Some (n, x)"
  then have "map_of (pr_states w) k = Some (n, x)" by (simp add: take_instance_def)
  then obtain j where j: "reported_by w k n x j" using table_okD [OF assms(1)] by blast
  then have "j \<noteq> i" using assms(2) by (auto simp: reported_by_def in_phase_def)
  then have "reported_by (take_instance i w) k n x j" using j by (simp add: reported_by_def take_instance_def)
  then show "\<exists>j. reported_by (take_instance i w) k n x j" ..
qed

lemma body_ended_quiet:
  assumes "in_phase w i InBody"
  shows "pr_states (body_ended hb i r w) = pr_states w
    \<and> (ph (body_ended hb i r w) i = Exiting \<or> (\<exists>d. ph (body_ended hb i r w) i = Failing d))
    \<and> (\<forall>j. j \<noteq> i \<longrightarrow> ph (body_ended hb i r w) j = ph w j)"
  using assms
  by (cases r; cases "next_delay hb (sup_backoff (pr_sups w ! i)) (projl r)")
     (auto simp: body_ended_def Let_def goto_def in_phase_def)

lemma table_ok_step:
  assumes step: "sup_step hb w w'" and ok: "table_ok w"
  shows "table_ok w'"
  using step
proof (cases rule: sup_step.cases)
  case (Spawn key)
  then show ?thesis using ok table_ok_spawn by simp
next
  case (Cancel i)
  have "ph (cancel i w) j = ph w j" for j using Cancel(2) by (cases "i = j") (simp_all add: cancel_def)
  then show ?thesis using Cancel ok table_ok_quiet [OF similar_cancel [of w i]] by (simp add: cancel_def)
next
  case (First i)
  then show ?thesis using ok table_ok_take by simp
next
  case (Run i)
  then show ?thesis using ok table_ok_write [of i w Running InBody] by (simp add: in_phase_def)
next
  case (Ended i r)
  have "similar w w'" using Ended similar_body_ended [of w i hb r] by (simp add: in_phase_def)
  moreover have "reports (ph w j) \<subseteq> reports (ph w' j)" for j
    using Ended body_ended_quiet [OF Ended(2), of hb r] by (cases "j = i") (auto simp: in_phase_def)
  moreover have "pr_states w' = pr_states w" using Ended body_ended_quiet [OF Ended(2), of hb r] by simp
  ultimately show ?thesis using ok by (intro table_ok_quiet [of w w'])
next
  case (Fail i d)
  then show ?thesis using ok table_ok_write [of i w Backoff "Sleeping d"] by (simp add: in_phase_def)
next
  case (Wake i d)
  then show ?thesis
    using ok similar_goto [of w i LoopTop] by (intro table_ok_quiet [of w w']) (auto simp: in_phase_def ph_goto)
next
  case (Stop i d)
  then show ?thesis
    using ok similar_goto [of w i Exiting] by (intro table_ok_quiet [of w w']) (auto simp: in_phase_def ph_goto)
next
  case (Exit i)
  then show ?thesis using ok table_ok_finish [of i w] by (simp add: in_phase_def)
qed

lemma newest_similar: "similar w w' \<Longrightarrow> newest w' i \<Longrightarrow> newest w i"
  unfolding similar_def newest_def by auto

lemma similar_sel:
  "similar w w' \<Longrightarrow> i < length (pr_sups w) \<Longrightarrow>
     sup_key (pr_sups w' ! i) = sup_key (pr_sups w ! i) \<and> sup_instance (pr_sups w' ! i) = sup_instance (pr_sups w ! i)"
  by (simp add: similar_def)

lemma newest_shownD:
  "newest_shown w \<Longrightarrow> newest w i \<Longrightarrow> at_work (ph w i) \<Longrightarrow>
     \<exists>st \<in> reports (ph w i). map_of (pr_states w) (sup_key (pr_sups w ! i)) = Some (sup_instance (pr_sups w ! i), st)"
  unfolding newest_shown_def by blast

lemma newestD:
  "newest w i \<Longrightarrow> j < length (pr_sups w) \<Longrightarrow> sup_key (pr_sups w ! j) = sup_key (pr_sups w ! i) \<Longrightarrow>
     ph w j \<noteq> Spawned \<Longrightarrow> sup_instance (pr_sups w ! j) \<le> sup_instance (pr_sups w ! i)"
  by (simp add: newest_def)

lemma newest_len: "newest w i \<Longrightarrow> i < length (pr_sups w)"
  by (simp add: newest_def)

lemma newest_shown_quiet:
  assumes "similar w w'" and "pr_states w' = pr_states w" and "newest_shown w"
    and "\<And>i. at_work (ph w' i) \<Longrightarrow> at_work (ph w i) \<and> reports (ph w i) \<subseteq> reports (ph w' i)"
  shows "newest_shown w'"
  unfolding newest_shown_def
proof (intro allI impI)
  fix i assume i: "newest w' i \<and> at_work (ph w' i)"
  then have n: "newest w i" using newest_similar [OF assms(1)] by blast
  have a: "at_work (ph w i)" and sub: "reports (ph w i) \<subseteq> reports (ph w' i)" using assms(4) i by blast+
  show "\<exists>st \<in> reports (ph w' i). map_of (pr_states w') (sup_key (pr_sups w' ! i)) = Some (sup_instance (pr_sups w' ! i), st)"
    using newest_shownD [OF assms(3) n a] sub similar_sel [OF assms(1) newest_len [OF n]] assms(2) by auto
qed

text \<open>Two different started supervisors of one key: the newest has the larger instance.\<close>

lemma newest_above:
  assumes "instances_ok w" and "newest w j" and "i < length (pr_sups w)" and "ph w i \<noteq> Spawned" and "i \<noteq> j"
    and "sup_key (pr_sups w ! i) = sup_key (pr_sups w ! j)"
  shows "sup_instance (pr_sups w ! i) < sup_instance (pr_sups w ! j)"
proof -
  have "sup_instance (pr_sups w ! i) \<le> sup_instance (pr_sups w ! j)"
    using assms(2-4,6) unfolding newest_def by blast
  moreover have "sup_instance (pr_sups w ! i) \<noteq> sup_instance (pr_sups w ! j)"
    using assms(1-5) unfolding instances_ok_def newest_def by blast
  ultimately show ?thesis by simp
qed

lemma newest_write_succeeds:
  assumes "table_ok w" and "newest w i" and "map_of (pr_states w) (sup_key (pr_sups w ! i)) = Some (n, x)"
  shows "n \<le> sup_instance (pr_sups w ! i)"
proof -
  obtain j where "reported_by w (sup_key (pr_sups w ! i)) n x j" using table_okD [OF assms(1,3)] by blast
  then have j: "j < length (pr_sups w)" "sup_key (pr_sups w ! j) = sup_key (pr_sups w ! i)"
    "sup_instance (pr_sups w ! j) = n" "ph w j \<noteq> Spawned"
    using reports_started by (auto simp: reported_by_def)
  then show ?thesis using assms(2) unfolding newest_def by blast
qed

lemma newest_shown_write:
  assumes i: "i < length (pr_sups w)" "ph w i \<noteq> Spawned" and p: "st \<in> reports p"
    and ok: "instances_ok w" "table_ok w" "newest_shown w"
  shows "newest_shown (goto i p (write_state i st w))" (is "newest_shown ?w")
  unfolding newest_shown_def
proof (intro allI impI)
  fix j assume j: "newest ?w j \<and> at_work (ph ?w j)"
  let ?k = "sup_key (pr_sups w ! i)" and ?n = "sup_instance (pr_sups w ! i)"
  have sim: "similar w ?w" by (rule similar_goto_write [OF i(2)]) (use p reports_started in blast)
  have phs: "ph ?w j = (if j = i then p else ph w j)" using i(1) ph_goto [of i "write_state i st w" p j] by simp
  have n: "newest w j" using newest_similar [OF sim] j by blast
  note sel = similar_sel [OF sim newest_len [OF n]]
  have states: "pr_states ?w = set_state ?k ?n st (pr_states w)" by (simp add: write_state_def goto_def)
  show "\<exists>x \<in> reports (ph ?w j). map_of (pr_states ?w) (sup_key (pr_sups ?w ! j)) = Some (sup_instance (pr_sups ?w ! j), x)"
  proof (cases "j = i")
    case True
    have "map_of (set_state ?k ?n st (pr_states w)) ?k = Some (?n, st)"
      using newest_write_succeeds [OF ok(2), of i] n True by (simp add: set_state_get)
    then show ?thesis using True sel phs p states by auto
  next
    case False
    have w: "at_work (ph w j)" using j phs False by simp
    obtain x where x: "x \<in> reports (ph w j)"
      "map_of (pr_states w) (sup_key (pr_sups w ! j)) = Some (sup_instance (pr_sups w ! j), x)"
      using newest_shownD [OF ok(3) n w] by blast
    have "map_of (set_state ?k ?n st (pr_states w)) (sup_key (pr_sups w ! j)) = Some (sup_instance (pr_sups w ! j), x)"
    proof (cases "?k = sup_key (pr_sups w ! j)")
      case True
      then have "?n < sup_instance (pr_sups w ! j)" using newest_above [OF ok(1) n i] False by blast
      then show ?thesis using x(2) True by (auto simp: set_state_get)
    next
      case False
      then show ?thesis using x(2) by (auto simp: set_state_get)
    qed
    then show ?thesis using x(1) sel phs False states by auto
  qed
qed

lemma newest_shown_finish:
  assumes i: "i < length (pr_sups w)" "ph w i \<noteq> Spawned" and ok: "instances_ok w" "newest_shown w"
  shows "newest_shown (finish i w)"
  unfolding newest_shown_def
proof (intro allI impI)
  fix j assume j: "newest (finish i w) j \<and> at_work (ph (finish i w) j)"
  note sim = similar_finish [OF i(2)]
  have n: "newest w j" using newest_similar [OF sim] j by blast
  note sel = similar_sel [OF sim newest_len [OF n]]
  have phs: "ph (finish i w) j = (if j = i then Finished else ph w j)"
    using i(1) by (simp add: finish_def goto_def nth_list_update)
  then have ne: "j \<noteq> i" and w: "at_work (ph w j)" using j by (auto simp: at_work_def split: if_splits)
  obtain x where x: "x \<in> reports (ph w j)"
    "map_of (pr_states w) (sup_key (pr_sups w ! j)) = Some (sup_instance (pr_sups w ! j), x)"
    using newest_shownD [OF ok(2) n w] by blast
  have "sup_instance (pr_sups w ! i) \<noteq> sup_instance (pr_sups w ! j)"
    if "sup_key (pr_sups w ! i) = sup_key (pr_sups w ! j)"
    using newest_above [OF ok(1) n i] ne that by auto
  then have "map_of (pr_states (finish i w)) (sup_key (pr_sups w ! j)) = Some (sup_instance (pr_sups w ! j), x)"
    using x(2) by (auto simp: finish_def goto_def remove_own_get)
  then show "\<exists>x \<in> reports (ph (finish i w) j).
      map_of (pr_states (finish i w)) (sup_key (pr_sups (finish i w) ! j)) = Some (sup_instance (pr_sups (finish i w) ! j), x)"
    using x(1) sel phs ne by auto
qed

lemma newest_shown_spawn:
  assumes "newest_shown w"
  shows "newest_shown (spawn key w)"
  unfolding newest_shown_def
proof (intro allI impI)
  fix i assume i: "newest (spawn key w) i \<and> at_work (ph (spawn key w) i)"
  have nth: "j < length (pr_sups w) \<Longrightarrow> pr_sups (spawn key w) ! j = pr_sups w ! j" for j
    by (simp add: spawn_def nth_append)
  have "pr_sups (spawn key w) ! length (pr_sups w) = new_supervisor key" by (simp add: spawn_def)
  then have "i \<noteq> length (pr_sups w)" using i by (auto simp: at_work_def new_supervisor_def)
  then have len: "i < length (pr_sups w)" using i by (auto simp: newest_def spawn_def)
  have "newest w i"
    unfolding newest_def
  proof (intro conjI allI impI)
    show "ph w i \<noteq> Spawned" using i nth [OF len] by (simp add: newest_def)
  next
    fix j assume j: "j < length (pr_sups w)"
      "sup_key (pr_sups w ! j) = sup_key (pr_sups w ! i) \<and> ph w j \<noteq> Spawned"
    then show "sup_instance (pr_sups w ! j) \<le> sup_instance (pr_sups w ! i)"
      using newestD [of "spawn key w" i j] i nth [OF len] nth [OF j(1)] by (simp add: spawn_def)
  qed (rule len)
  then show "\<exists>st \<in> reports (ph (spawn key w) i). map_of (pr_states (spawn key w))
      (sup_key (pr_sups (spawn key w) ! i)) = Some (sup_instance (pr_sups (spawn key w) ! i), st)"
    using newest_shownD [OF assms] i nth [OF len] by (simp add: spawn_def)
qed

lemma newest_shown_take:
  assumes "newest_shown w" and "in_phase w i Spawned"
  shows "newest_shown (take_instance i w)"
  unfolding newest_shown_def
proof (intro allI impI)
  let ?w = "take_instance i w"
  fix j assume j: "newest ?w j \<and> at_work (ph ?w j)"
  have len: "length (pr_sups ?w) = length (pr_sups w)" and other: "k \<noteq> i \<Longrightarrow> pr_sups ?w ! k = pr_sups w ! k" for k
    by (simp_all add: take_instance_def)
  have "ph ?w i = LoopTop" using assms(2) by (simp add: take_instance_def in_phase_def)
  then have ne: "j \<noteq> i" using j by (auto simp: at_work_def)
  have "newest w j"
    unfolding newest_def
  proof (intro conjI allI impI)
    show "j < length (pr_sups w)" using j len by (simp add: newest_def)
    show "ph w j \<noteq> Spawned" using j other [OF ne] by (simp add: newest_def)
  next
    fix k assume k: "k < length (pr_sups w)"
      "sup_key (pr_sups w ! k) = sup_key (pr_sups w ! j) \<and> ph w k \<noteq> Spawned"
    then have "k \<noteq> i" using assms(2) by (auto simp: in_phase_def)
    then show "sup_instance (pr_sups w ! k) \<le> sup_instance (pr_sups w ! j)"
      using newestD [of ?w j k] j k len other [of k] other [OF ne] by simp
  qed
  then show "\<exists>st \<in> reports (ph ?w j). map_of (pr_states ?w) (sup_key (pr_sups ?w ! j))
      = Some (sup_instance (pr_sups ?w ! j), st)"
    using newest_shownD [OF assms(1)] j other [OF ne] by (simp add: take_instance_def)
qed

lemma newest_shown_step:
  assumes step: "sup_step hb w w'" and ok: "instances_ok w" "table_ok w" "newest_shown w"
  shows "newest_shown w'"
  using step
proof (cases rule: sup_step.cases)
  case (Cancel i)
  have "ph (cancel i w) j = ph w j" for j using Cancel(2) by (cases "i = j") (simp_all add: cancel_def)
  then show ?thesis using Cancel ok(3) newest_shown_quiet [OF similar_cancel [of w i]] by (simp add: cancel_def)
next
  case (Run i)
  then show ?thesis using ok newest_shown_write [of i w Running InBody] by (simp add: in_phase_def)
next
  case (Ended i r)
  have "similar w w'" using Ended similar_body_ended [of w i hb r] by (simp add: in_phase_def)
  moreover have "at_work (ph w j) \<and> reports (ph w j) \<subseteq> reports (ph w' j)" if "at_work (ph w' j)" for j
    using Ended body_ended_quiet [OF Ended(2), of hb r] that by (cases "j = i") (auto simp: in_phase_def at_work_def)
  moreover have "pr_states w' = pr_states w" using Ended body_ended_quiet [OF Ended(2), of hb r] by simp
  ultimately show ?thesis using ok(3) by (intro newest_shown_quiet [of w w'])
next
  case (Fail i d)
  then show ?thesis using ok newest_shown_write [of i w Backoff "Sleeping d"] by (simp add: in_phase_def)
next
  case (Wake i d)
  then show ?thesis
    using ok(3) similar_goto [of w i LoopTop]
    by (intro newest_shown_quiet [of w w']) (auto simp: in_phase_def ph_goto at_work_def split: if_splits)
next
  case (Stop i d)
  then show ?thesis
    using ok(3) similar_goto [of w i Exiting]
    by (intro newest_shown_quiet [of w w']) (auto simp: in_phase_def ph_goto at_work_def split: if_splits)
next
  case (Exit i)
  then show ?thesis using ok newest_shown_finish [of i w] by (simp add: in_phase_def)
qed (use ok newest_shown_spawn newest_shown_take in simp_all)

lemma reach_invariants: "sup_reach hb w \<Longrightarrow> instances_ok w \<and> table_ok w \<and> newest_shown w"
proof (induction rule: sup_reach.induct)
  case init
  show ?case by (simp add: start_process_def instances_ok_def table_ok_def newest_shown_def newest_def)
next
  case (step w w')
  then show ?case using instances_ok_step table_ok_step newest_shown_step by blast
qed

text \<open>
  The task table never lies. However the supervisors of a process interleave, every entry
  of the table belongs to a supervisor of that assignment that has started and not finished, and
  it shows what that supervisor is doing: running while its body runs, backoff while it waits. So
  a finished task is never counted in a heartbeat, and once all have finished the table is empty.
\<close>

theorem task_table_sound:
  assumes "sup_reach hb w"
  shows "(\<forall>k n st. map_of (pr_states w) k = Some (n, st) \<longrightarrow>
      (\<exists>s \<in> set (pr_sups w). sup_key s = k \<and> sup_instance s = n \<and> sup_phase s \<notin> {Spawned, Finished}
         \<and> st \<in> reports (sup_phase s)))
    \<and> ((\<forall>s \<in> set (pr_sups w). sup_phase s = Finished) \<longrightarrow> map_of (pr_states w) = Map.empty)"
proof -
  have entry: "\<exists>s \<in> set (pr_sups w). sup_key s = k \<and> sup_instance s = n \<and> sup_phase s \<notin> {Spawned, Finished}
      \<and> st \<in> reports (sup_phase s)" if e: "map_of (pr_states w) k = Some (n, st)" for k n st
  proof -
    have "table_ok w" using reach_invariants [OF assms] by blast
    then obtain i where "reported_by w k n st i" using table_okD [OF _ e] by blast
    then show ?thesis by (intro bexI [of _ "pr_sups w ! i"]) (auto simp: reported_by_def)
  qed
  moreover have "map_of (pr_states w) = Map.empty" if fin: "\<forall>s \<in> set (pr_sups w). sup_phase s = Finished"
  proof (rule ext)
    fix k show "map_of (pr_states w) k = None"
      using entry [of k] fin by (cases "map_of (pr_states w) k") fastforce+
  qed
  ultimately show ?thesis by blast
qed

text \<open>
  A replaced supervisor never hides its replacement. While the supervisor with the highest
  instance of an assignment runs its body or waits to run it again, the table holds its entry,
  whatever older supervisors of the same assignment still write or remove on their way out.
\<close>

theorem newest_task_reported:
  assumes "sup_reach hb w" and "newest w i" and "at_work (sup_phase (pr_sups w ! i))"
  shows "\<exists>st \<in> reports (sup_phase (pr_sups w ! i)).
    map_of (pr_states w) (sup_key (pr_sups w ! i)) = Some (sup_instance (pr_sups w ! i), st)"
  using reach_invariants [OF assms(1)] newest_shownD [OF _ assms(2,3)] by blast

subsection \<open>Backoff\<close>

definition delay_ok :: "duration \<Rightarrow> duration \<Rightarrow> bool" where
  "delay_ok hb d \<longleftrightarrow> d = hb \<or> from_secs 2 \<le> d \<and> d \<le> MAX_BACKOFF"

definition backoff_ok :: "duration \<Rightarrow> supervisor \<Rightarrow> bool" where
  "backoff_ok hb s \<longleftrightarrow>
     INITIAL_BACKOFF \<le> sup_backoff s \<and> sup_backoff s \<le> MAX_BACKOFF
     \<and> (\<forall>d. sup_phase s = Failing d \<or> sup_phase s = Sleeping d \<longrightarrow> delay_ok hb d)"

lemma next_delay_ok:
  assumes "INITIAL_BACKOFF \<le> b" and "next_delay hb b e = (b', d)"
  shows "INITIAL_BACKOFF \<le> b' \<and> b' \<le> MAX_BACKOFF \<and> delay_ok hb d"
  using assms
  by (auto simp: next_delay_def INITIAL_BACKOFF_def MAX_BACKOFF_def delay_ok_def Let_def from_secs_def
      split: if_splits)

lemma backoff_ok_update:
  assumes "\<forall>s \<in> set xs. backoff_ok hb s" and "backoff_ok hb s'"
  shows "\<forall>s \<in> set (xs[i := s']). backoff_ok hb s"
  using assms set_update_subset_insert [of xs i s'] by blast

lemma backoff_ok_goto:
  assumes "\<forall>s \<in> set (pr_sups w). backoff_ok hb s" and "i < length (pr_sups w)"
    and "\<forall>d. p = Failing d \<or> p = Sleeping d \<longrightarrow> delay_ok hb d"
  shows "\<forall>s \<in> set (pr_sups (goto i p w)). backoff_ok hb s"
proof -
  have "backoff_ok hb (pr_sups w ! i)" using assms(1,2) by simp
  then have "backoff_ok hb ((pr_sups w ! i)\<lparr>sup_phase := p\<rparr>)" using assms(3) by (simp add: backoff_ok_def)
  then show ?thesis unfolding goto_def using backoff_ok_update [OF assms(1)] by simp
qed

lemma backoff_ok_ended:
  assumes ok: "\<forall>s \<in> set (pr_sups w). backoff_ok hb s" and i: "i < length (pr_sups w)"
  shows "\<forall>s \<in> set (pr_sups (body_ended hb i r w)). backoff_ok hb s"
proof (cases "sup_cancelled (pr_sups w ! i) \<or> r = Inr ()")
  case True
  then have "body_ended hb i r w = goto i Exiting w" by (auto simp: body_ended_def Let_def)
  then show ?thesis using backoff_ok_goto [OF ok i, of Exiting] by simp
next
  case False
  then obtain e where e: "r = Inl e" "\<not> sup_cancelled (pr_sups w ! i)" by (cases r) auto
  obtain b d where bd: "next_delay hb (sup_backoff (pr_sups w ! i)) e = (b, d)" by (metis surj_pair)
  have "INITIAL_BACKOFF \<le> sup_backoff (pr_sups w ! i)" using ok i by (simp add: backoff_ok_def)
  then have "backoff_ok hb ((pr_sups w ! i)\<lparr>sup_backoff := b, sup_phase := Failing d\<rparr>)"
    using next_delay_ok [OF _ bd] by (simp add: backoff_ok_def)
  then have "\<forall>s \<in> set ((pr_sups w)[i := (pr_sups w ! i)\<lparr>sup_backoff := b, sup_phase := Failing d\<rparr>]). backoff_ok hb s"
    by (rule backoff_ok_update [OF ok])
  then show ?thesis using e bd by (simp add: body_ended_def)
qed

lemma backoff_ok_step:
  assumes step: "sup_step hb w w'" and ok: "\<forall>s \<in> set (pr_sups w). backoff_ok hb s"
  shows "\<forall>s \<in> set (pr_sups w'). backoff_ok hb s"
  using step
proof (cases rule: sup_step.cases)
  case (Spawn key)
  have "backoff_ok hb (new_supervisor key)"
    by (simp add: backoff_ok_def new_supervisor_def INITIAL_BACKOFF_def MAX_BACKOFF_def)
  then show ?thesis using Spawn ok by (simp add: spawn_def)
next
  case (Cancel i)
  have "backoff_ok hb (pr_sups w ! i)" using ok Cancel(2) by simp
  then have "backoff_ok hb ((pr_sups w ! i)\<lparr>sup_cancelled := True\<rparr>)" by (simp add: backoff_ok_def)
  then show ?thesis using Cancel(1) backoff_ok_update [OF ok] by (simp add: cancel_def)
next
  case (First i)
  have "backoff_ok hb ((pr_sups w ! i)\<lparr>sup_instance := pr_next w, sup_phase := LoopTop\<rparr>)"
    using ok First(2) by (simp add: backoff_ok_def in_phase_def)
  then show ?thesis using First(1) backoff_ok_update [OF ok] by (simp add: take_instance_def)
next
  case (Run i)
  then show ?thesis
    using ok backoff_ok_goto [of "write_state i Running w" hb i InBody] by (simp add: in_phase_def)
next
  case (Ended i r)
  then show ?thesis using backoff_ok_ended [OF ok, of i r] by (simp add: in_phase_def)
next
  case (Fail i d)
  have "delay_ok hb d" using ok Fail(2) nth_mem [of i "pr_sups w"] by (auto simp: in_phase_def backoff_ok_def)
  then show ?thesis
    using ok Fail backoff_ok_goto [of "write_state i Backoff w" hb i "Sleeping d"] by (simp add: in_phase_def)
next
  case (Wake i d)
  then show ?thesis using backoff_ok_goto [OF ok, of i LoopTop] by (simp add: in_phase_def)
next
  case (Stop i d)
  then show ?thesis using backoff_ok_goto [OF ok, of i Exiting] by (simp add: in_phase_def)
next
  case (Exit i)
  have "pr_sups (finish i w) = pr_sups (goto i Finished w)" by (simp add: finish_def goto_def)
  then show ?thesis using Exit backoff_ok_goto [OF ok, of i Finished] by (simp add: in_phase_def)
qed

lemma reach_backoff_ok: "sup_reach hb w \<Longrightarrow> \<forall>s \<in> set (pr_sups w). backoff_ok hb s"
proof (induction rule: sup_reach.induct)
  case init
  show ?case by (simp add: start_process_def)
next
  case (step w w')
  then show ?case by (blast dest: backoff_ok_step)
qed

text \<open>The delays a run of failures goes through, from a backoff.\<close>

fun delays :: "duration \<Rightarrow> duration \<Rightarrow> service_error list \<Rightarrow> duration list" where
  "delays hb b [] = []"
| "delays hb b (e # es) = (case next_delay hb b e of (b', d) \<Rightarrow> d # delays hb b' es)"

lemma delays_plain:
  assumes "list_all (\<lambda>e. \<not> is_fenced e) es" and "b \<le> MAX_BACKOFF" and "n < length es"
  shows "delays hb b es ! n = min (b * 2 ^ Suc n) MAX_BACKOFF"
  using assms
proof (induction es arbitrary: b n)
  case (Cons e es)
  have nd: "next_delay hb b e = (min (b * 2) MAX_BACKOFF, min (b * 2) MAX_BACKOFF)"
    using Cons.prems by (simp add: next_delay_def Let_def)
  show ?case
  proof (cases n)
    case (Suc m)
    have "delays hb b (e # es) ! n = min (min (b * 2) MAX_BACKOFF * 2 ^ Suc m) MAX_BACKOFF"
      using Cons.IH [of "min (b * 2) MAX_BACKOFF" m] Cons.prems Suc nd by simp
    also have "\<dots> = min (b * 2 ^ Suc n) MAX_BACKOFF"
    proof (cases "b * 2 \<le> MAX_BACKOFF")
      case False
      have "(2 :: nat) ^ 1 \<le> 2 ^ Suc n" by (rule power_increasing) simp_all
      then have "b * 2 \<le> b * 2 ^ Suc n" by (intro mult_le_mono2) simp
      then have "MAX_BACKOFF \<le> b * 2 ^ Suc n" using False by linarith
      moreover have "MAX_BACKOFF * 1 \<le> MAX_BACKOFF * 2 ^ Suc m"
        by (rule mult_le_mono2) (rule one_le_power, simp)
      moreover have "min (b * 2) MAX_BACKOFF = MAX_BACKOFF" using False by simp
      ultimately show ?thesis by (simp only: min_absorb2 mult_1_right)
    qed (simp add: Suc mult.assoc)
    finally show ?thesis .
  qed (simp add: nd)
qed simp


subsection \<open>A concrete run\<close>

definition demo_key :: assignment where
  "demo_key = (''s3://b/db'', Gc, None)"

definition demo_failing :: process where
  "demo_failing =
     \<lparr>pr_states = [(demo_key, (0, Backoff))], pr_next = 1,
      pr_sups = [\<lparr>sup_key = demo_key, sup_instance = 0, sup_backoff = from_secs 2,
                  sup_phase = Sleeping (from_secs 2), sup_cancelled = False\<rparr>]\<rparr>"

definition demo_error :: service_error where
  "demo_error = SStore (OtherError ''503'')"

lemma demo_failing_reach: "sup_reach hb demo_failing"
proof -
  let ?w1 = "take_instance 0 (spawn demo_key start_process)"
  let ?w2 = "goto 0 InBody (write_state 0 Running ?w1)"
  let ?w3 = "body_ended hb 0 (Inl demo_error) ?w2"
  let ?w4 = "goto 0 (Sleeping (from_secs 2)) (write_state 0 Backoff ?w3)"
  note eval = in_phase_def op_defs start_process_def set_state_def next_delay_def demo_error_def
    INITIAL_BACKOFF_def MAX_BACKOFF_def from_secs_def
  have "sup_reach hb ?w1"
    by (rule sup_reach.step, rule sup_reach.step, rule sup_reach.init, rule sup_step.Spawn, rule sup_step.First)
       (simp add: eval)
  then have "sup_reach hb ?w2"
    by (rule sup_reach.step, intro sup_step.Run) (simp add: eval)
  then have "sup_reach hb ?w3"
    by (rule sup_reach.step, intro sup_step.Ended) (simp add: eval)
  then have "sup_reach hb ?w4"
    by (rule sup_reach.step, intro sup_step.Fail) (simp add: eval)
  moreover have "?w4 = demo_failing" by (simp add: eval demo_failing_def)
  ultimately show ?thesis by simp
qed

theorem task_table_sound_witness:
  "\<exists>s \<in> set (pr_sups demo_failing). sup_key s = demo_key \<and> sup_phase s \<notin> {Spawned, Finished}"
proof -
  have "map_of (pr_states demo_failing) demo_key = Some (0, Backoff)" by (simp add: demo_failing_def)
  then show ?thesis using task_table_sound [OF demo_failing_reach [of 0]] by blast
qed

theorem newest_task_reported_witness:
  "\<exists>st \<in> {Backoff}. map_of (pr_states demo_failing) demo_key = Some (0, st)"
proof -
  have "newest demo_failing 0" "at_work (sup_phase (pr_sups demo_failing ! 0))"
    by (simp_all add: newest_def at_work_def demo_failing_def)
  from newest_task_reported [OF demo_failing_reach [of 0] this] show ?thesis by (simp add: demo_failing_def)
qed


end
