(* ===== verification/Node.thy ===== *)
theory Node
  imports Supervision
begin

text \<open>
  \<^verbatim>\<open>src/daemon.rs\<close>, the node loop: the heartbeat it writes, the heartbeats it clears away, the
  reconciliation of its running tasks with the assignments it owns, and the tick that composes
  them. A task of the daemon's map is the index of its supervisor in the process of
  \<^verbatim>\<open>Supervision\<close>: cancelling its token and asking whether its handle has finished act on that
  supervisor. \<open>fp\<close> is \<^verbatim>\<open>fingerprint\<close>, the standard library's hash of the printed settings.
\<close>

subsection \<open>Reconciliation\<close>

record running_task =
  tk_task :: nat
  tk_fingerprint :: nat

type_synonym tasks = "(assignment, running_task) hmap"

definition must_stop :: "(resolved_services \<Rightarrow> nat) \<Rightarrow> (assignment, resolved_services) hmap \<Rightarrow>
    assignment \<times> running_task \<Rightarrow> bool" where
  "must_stop fp owned kt =
     (case map_of owned (fst kt) of
        Some resolved \<Rightarrow> fp resolved \<noteq> tk_fingerprint (snd kt)
      | None \<Rightarrow> True)"

definition is_finished :: "process \<Rightarrow> running_task \<Rightarrow> bool" where
  "is_finished w t \<longleftrightarrow> sup_phase (pr_sups w ! tk_task t) = Finished"

definition start_task :: "(resolved_services \<Rightarrow> nat) \<Rightarrow> assignment \<times> resolved_services \<Rightarrow>
    tasks \<times> process \<Rightarrow> tasks \<times> process" where
  "start_task fp kr tw =
     (let (tasks, w) = tw in
      if map_of tasks (fst kr) \<noteq> None then tw
      else (AList.update (fst kr) \<lparr>tk_task = length (pr_sups w), tk_fingerprint = fp (snd kr)\<rparr> tasks,
            spawn (fst kr) w))"

definition reconcile :: "(resolved_services \<Rightarrow> nat) \<Rightarrow> (assignment, resolved_services) hmap \<Rightarrow>
    tasks \<times> process \<Rightarrow> tasks \<times> process" where
  "reconcile fp owned tw =
     (let (tasks, w) = tw;
          stop = filter (must_stop fp owned) tasks;
          w1 = fold (\<lambda>kt. cancel (tk_task (snd kt))) stop w;
          kept = filter (\<lambda>kt. fst kt \<notin> fst ` set stop) tasks;
          running = filter (\<lambda>kt. \<not> is_finished w1 (snd kt)) kept
      in fold (start_task fp) owned (running, w1))"

subsection \<open>The heartbeat body\<close>

definition count_state :: "assignment \<times> nat \<times> task_state \<Rightarrow> (service, service_summary) hmap \<Rightarrow>
    (service, service_summary) hmap" where
  "count_state entry summaries =
     (case entry of ((_, service, _), (_, state)) \<Rightarrow>
        (let summary = unwrap_or (map_of summaries service) (empty_summary service) in
         AList.update service
           (case state of
              Running \<Rightarrow> summary\<lparr>ss_running := ss_running summary + 1\<rparr>
            | Backoff \<Rightarrow> summary\<lparr>ss_backoff := ss_backoff summary + 1\<rparr>) summaries))"

definition service_summaries :: "service list \<Rightarrow> task_states \<Rightarrow> service_summary list" where
  "service_summaries services states =
     (let summaries = hm_of_pairs (map (\<lambda>s. (s, empty_summary s)) services)
      in sort_by (\<lambda>a b. letter (ss_service a) \<le> letter (ss_service b))
           (map snd (fold count_state states summaries)))"

definition heartbeat_body :: "string \<Rightarrow> string \<Rightarrow> node_options \<Rightarrow> task_states \<Rightarrow> heartbeat" where
  "heartbeat_body sleet_version slatedb_version options states =
     new_heartbeat sleet_version (no_node_id options) slatedb_version
       (service_summaries (no_services options) states)"

subsection \<open>Housekeeping\<close>

definition housekeeping :: "fleet_root \<Rightarrow> node_options \<Rightarrow> heartbeat_entry list \<Rightarrow> fleet_state \<Rightarrow> string list" where
  "housekeeping root options entries state =
     (let own = node_path root (object_name (no_node_id options) (no_services options));
          long_dead = heartbeat_timeout (sc_node (fs_config state)) * 10
      in map he_location
           (filter (\<lambda>entry. he_node_id entry = no_node_id options \<and> he_location entry \<noteq> own
              \<or> long_dead \<le> he_age entry) entries))"

subsection \<open>The tick\<close>

datatype effect = PutHeartbeat string heartbeat | DeleteObject string

record node =
  nd_poller :: config_poller
  nd_fleet :: fleet_state
  nd_last_poll :: datetime
  nd_tasks :: tasks
  nd_process :: process

record node_env =
  ne_crates :: crates
  ne_toml :: toml_crate
  ne_root :: fleet_root
  ne_options :: node_options
  ne_fingerprint :: "resolved_services \<Rightarrow> nat"
  ne_sleet_version :: string
  ne_slatedb_version :: string

definition node_start :: "node_env \<Rightarrow> store_view \<Rightarrow> datetime \<Rightarrow> node" where
  "node_start E V now =
     (case poll (ne_crates E) (ne_toml E) (ne_root E) V default_config_poller of
        (poller, state) \<Rightarrow>
          \<lparr>nd_poller = poller, nd_fleet = state, nd_last_poll = now, nd_tasks = [], nd_process = start_process\<rparr>)"

definition poll_if_due :: "node_env \<Rightarrow> store_view \<Rightarrow> datetime \<Rightarrow> node \<Rightarrow> node" where
  "poll_if_due E V now n =
     (if int (config_poll (sc_node (fs_config (nd_fleet n)))) \<le> now - nd_last_poll n
      then (case poll (ne_crates E) (ne_toml E) (ne_root E) V (nd_poller n) of
              (poller, state) \<Rightarrow> n\<lparr>nd_poller := poller, nd_fleet := state, nd_last_poll := now\<rparr>)
      else n)"

definition node_owned :: "node_env \<Rightarrow> heartbeat_entry list \<Rightarrow> node \<Rightarrow> (assignment, resolved_services) hmap" where
  "node_owned E entries n =
     owned_assignments (ne_crates E) (no_node_id (ne_options E)) (no_services (ne_options E)) entries (nd_fleet n)"

definition own_path :: "node_env \<Rightarrow> string" where
  "own_path E = node_path (ne_root E) (object_name (no_node_id (ne_options E)) (no_services (ne_options E)))"

definition put_heartbeat :: "node_env \<Rightarrow> node \<Rightarrow> effect" where
  "put_heartbeat E n =
     PutHeartbeat (own_path E)
       (heartbeat_body (ne_sleet_version E) (ne_slatedb_version E) (ne_options E) (pr_states (nd_process n)))"

text \<open>\<open>now\<close> is the monotonic clock of the loop, \<open>wall\<close> the clock heartbeat ages are read against.\<close>

definition tick :: "node_env \<Rightarrow> store_view \<Rightarrow> datetime \<Rightarrow> datetime \<Rightarrow> node \<Rightarrow> node \<times> effect list" where
  "tick E V now wall n0 =
     (let put = put_heartbeat E n0;
          n = poll_if_due E V now n0
      in case list_heartbeats (ne_root E) V wall of
           Inl _ \<Rightarrow> (n, [put])
         | Inr entries \<Rightarrow>
             (let deletes = housekeeping (ne_root E) (ne_options E) entries (nd_fleet n);
                  (tasks, w) = reconcile (ne_fingerprint E) (node_owned E entries n) (nd_tasks n, nd_process n)
              in (n\<lparr>nd_tasks := tasks, nd_process := w\<rparr>, put # map DeleteObject deletes)))"

subsection \<open>Tasks and supervisors\<close>

text \<open>
  The daemon's map and the process agree: a task is an uncancelled supervisor of its assignment,
  and every supervisor that is neither cancelled nor finished is the task of its assignment.
\<close>

definition tasks_ok :: "tasks \<Rightarrow> process \<Rightarrow> bool" where
  "tasks_ok tasks w \<longleftrightarrow>
     distinct (map fst tasks)
     \<and> (\<forall>k t. map_of tasks k = Some t \<longrightarrow>
          tk_task t < length (pr_sups w) \<and> sup_key (pr_sups w ! tk_task t) = k
          \<and> \<not> sup_cancelled (pr_sups w ! tk_task t))
     \<and> (\<forall>i < length (pr_sups w). \<not> sup_cancelled (pr_sups w ! i) \<and> ph w i \<noteq> Finished \<longrightarrow>
          (\<exists>t. map_of tasks (sup_key (pr_sups w ! i)) = Some t \<and> tk_task t = i))"

lemma tasks_okD:
  assumes "tasks_ok tasks w"
  shows "distinct (map fst tasks)"
    and "map_of tasks k = Some t \<Longrightarrow> tk_task t < length (pr_sups w) \<and> sup_key (pr_sups w ! tk_task t) = k
      \<and> \<not> sup_cancelled (pr_sups w ! tk_task t)"
    and "i < length (pr_sups w) \<Longrightarrow> \<not> sup_cancelled (pr_sups w ! i) \<Longrightarrow> ph w i \<noteq> Finished \<Longrightarrow>
      \<exists>t. map_of tasks (sup_key (pr_sups w ! i)) = Some t \<and> tk_task t = i"
  using assms unfolding tasks_ok_def by blast+

lemma cancel_sel:
  "length (pr_sups (cancel i w)) = length (pr_sups w)" "ph (cancel i w) j = ph w j"
  "sup_key (pr_sups (cancel i w) ! j) = sup_key (pr_sups w ! j)"
  "j < length (pr_sups w) \<Longrightarrow> sup_cancelled (pr_sups (cancel i w) ! j) \<longleftrightarrow> j = i \<or> sup_cancelled (pr_sups w ! j)"
  by (cases "j = i"; cases "i < length (pr_sups w)"; simp add: cancel_def list_update_beyond)+

lemma cancel_all_sel:
  "length (pr_sups (fold (\<lambda>x. cancel (f x)) xs w)) = length (pr_sups w)"
  "ph (fold (\<lambda>x. cancel (f x)) xs w) j = ph w j"
  "sup_key (pr_sups (fold (\<lambda>x. cancel (f x)) xs w) ! j) = sup_key (pr_sups w ! j)"
  "j < length (pr_sups w) \<Longrightarrow>
     sup_cancelled (pr_sups (fold (\<lambda>x. cancel (f x)) xs w) ! j) \<longleftrightarrow> j \<in> f ` set xs \<or> sup_cancelled (pr_sups w ! j)"
  by (induction xs arbitrary: w) (auto simp: cancel_sel)

lemma filter_stopped:
  assumes "distinct (map fst tasks)"
  shows "filter (\<lambda>kt. fst kt \<notin> fst ` set (filter P tasks)) tasks = filter (\<lambda>kt. \<not> P kt) tasks"
proof (rule filter_cong [OF refl])
  fix kt assume kt: "kt \<in> set tasks"
  show "fst kt \<notin> fst ` set (filter P tasks) \<longleftrightarrow> \<not> P kt"
  proof
    assume "\<not> P kt"
    then show "fst kt \<notin> fst ` set (filter P tasks)"
      using kt assms by (auto simp: distinct_map inj_on_def)
  qed (use kt in auto)
qed

lemma map_of_filter_Some:
  "distinct (map fst xs) \<Longrightarrow> map_of (filter P xs) k = Some v \<longleftrightarrow> map_of xs k = Some v \<and> P (k, v)"
  by (auto simp: map_of_eq_Some_iff distinct_map_filter)

text \<open>The supervisors of the tasks that a test \<open>P\<close> selects.\<close>

lemma selected_tasks:
  assumes "distinct (map fst T)"
  shows "i \<in> (\<lambda>kt. tk_task (snd kt)) ` set (filter P T) \<longleftrightarrow> (\<exists>k t. map_of T k = Some t \<and> tk_task t = i \<and> P (k, t))"
proof -
  have "i \<in> (\<lambda>kt. tk_task (snd kt)) ` set (filter P T) \<longleftrightarrow> (\<exists>k t. (k, t) \<in> set T \<and> tk_task t = i \<and> P (k, t))" by force
  then show ?thesis by (simp add: assms)
qed

lemma start_task_ok:
  assumes ok: "tasks_ok T w" and st: "start_task fp (k, r) (T, w) = (T', w')"
  shows "tasks_ok T' w' \<and> dom (map_of T') = insert k (dom (map_of T))
    \<and> (\<forall>k' t. map_of T k' = Some t \<longrightarrow> map_of T' k' = Some t)
    \<and> (\<forall>k' t. map_of T' k' = Some t \<longrightarrow> map_of T k' = Some t \<or> k' = k \<and> tk_fingerprint t = fp r)
    \<and> (\<exists>new. pr_sups w' = pr_sups w @ new)"
proof (cases "map_of T k")
  case (Some t)
  then show ?thesis using st ok by (auto simp: start_task_def)
next
  case None
  let ?t = "\<lparr>tk_task = length (pr_sups w), tk_fingerprint = fp r\<rparr>"
  have T': "T' = AList.update k ?t T" and w': "w' = spawn k w"
    using st None by (simp_all add: start_task_def)
  have get: "map_of T' k' = (if k' = k then Some ?t else map_of T k')" for k'
    unfolding T' by (simp add: update_conv')
  have sups: "pr_sups w' = pr_sups w @ [new_supervisor k]" unfolding w' by (simp add: spawn_def)
  have old: "i < length (pr_sups w) \<Longrightarrow> pr_sups w' ! i = pr_sups w ! i" for i by (simp add: sups nth_append)
  have "tasks_ok T' w'"
    unfolding tasks_ok_def
  proof (intro conjI allI impI)
    show "distinct (map fst T')" unfolding T' by (rule distinct_update [OF tasks_okD(1) [OF ok]])
  next
    fix k' t assume "map_of T' k' = Some t"
    then show "tk_task t < length (pr_sups w')" "sup_key (pr_sups w' ! tk_task t) = k'"
      "\<not> sup_cancelled (pr_sups w' ! tk_task t)"
      using tasks_okD(2) [OF ok, of k' t] old [of "tk_task t"]
      by (auto simp: get sups new_supervisor_def split: if_splits)
  next
    fix i assume i: "i < length (pr_sups w')" "\<not> sup_cancelled (pr_sups w' ! i) \<and> ph w' i \<noteq> Finished"
    show "\<exists>t. map_of T' (sup_key (pr_sups w' ! i)) = Some t \<and> tk_task t = i"
    proof (cases "i < length (pr_sups w)")
      case True
      then obtain t where t: "map_of T (sup_key (pr_sups w ! i)) = Some t" "tk_task t = i"
        using tasks_okD(3) [OF ok True] i old [OF True] by auto
      then have "sup_key (pr_sups w ! i) \<noteq> k" using None by auto
      then show ?thesis using t old [OF True] by (simp add: get)
    next
      case False
      then have "i = length (pr_sups w)" using i(1) by (simp add: sups)
      then show ?thesis by (simp add: get sups new_supervisor_def)
    qed
  qed
  moreover have "dom (map_of T') = insert k (dom (map_of T))" by (auto simp: dom_def get)
  moreover have "\<forall>k' t. map_of T k' = Some t \<longrightarrow> map_of T' k' = Some t" using None by (auto simp: get)
  moreover have "\<forall>k' t. map_of T' k' = Some t \<longrightarrow> map_of T k' = Some t \<or> k' = k \<and> tk_fingerprint t = fp r"
    by (auto simp: get split: if_splits)
  ultimately show ?thesis using sups by blast
qed

lemma start_all_ok:
  assumes "tasks_ok T w" and "fold (start_task fp) os (T, w) = (T', w')"
  shows "tasks_ok T' w' \<and> dom (map_of T') = dom (map_of T) \<union> fst ` set os
    \<and> (\<forall>k t. map_of T k = Some t \<longrightarrow> map_of T' k = Some t)
    \<and> (\<forall>k t. map_of T' k = Some t \<longrightarrow> map_of T k = Some t \<or> (\<exists>r. (k, r) \<in> set os \<and> tk_fingerprint t = fp r))
    \<and> (\<exists>new. pr_sups w' = pr_sups w @ new)"
  using assms
proof (induction os arbitrary: T w)
  case (Cons kr os)
  obtain k r where kr: "kr = (k, r)" by (cases kr)
  obtain T1 w1 where st: "start_task fp (k, r) (T, w) = (T1, w1)" by (metis surj_pair)
  have one: "tasks_ok T1 w1" "dom (map_of T1) = insert k (dom (map_of T))"
    "\<And>k' t. map_of T k' = Some t \<Longrightarrow> map_of T1 k' = Some t"
    "\<And>k' t. map_of T1 k' = Some t \<Longrightarrow> map_of T k' = Some t \<or> k' = k \<and> tk_fingerprint t = fp r"
    "\<exists>new. pr_sups w1 = pr_sups w @ new"
    using start_task_ok [OF Cons.prems(1) st] by (elim conjE, fast)+
  have rest: "fold (start_task fp) os (T1, w1) = (T', w')" using Cons.prems(2) by (simp add: kr st)
  have IH: "tasks_ok T' w'" "dom (map_of T') = dom (map_of T1) \<union> fst ` set os"
    "\<And>k' t. map_of T1 k' = Some t \<Longrightarrow> map_of T' k' = Some t"
    "\<And>k' t. map_of T' k' = Some t \<Longrightarrow> map_of T1 k' = Some t \<or> (\<exists>r. (k', r) \<in> set os \<and> tk_fingerprint t = fp r)"
    "\<exists>new. pr_sups w' = pr_sups w1 @ new"
    using Cons.IH [OF one(1) rest] by (elim conjE, fast)+
  obtain n1 n2 where "pr_sups w1 = pr_sups w @ n1" "pr_sups w' = pr_sups w1 @ n2" using one(5) IH(5) by blast
  then have "\<exists>new. pr_sups w' = pr_sups w @ new" by simp
  moreover have "dom (map_of T') = dom (map_of T) \<union> fst ` set (kr # os)" using one(2) IH(2) by (simp add: kr)
  moreover have "\<forall>k t. map_of T k = Some t \<longrightarrow> map_of T' k = Some t" using one(3) IH(3) by blast
  moreover have "\<forall>k' t. map_of T' k' = Some t \<longrightarrow>
      map_of T k' = Some t \<or> (\<exists>r. (k', r) \<in> set (kr # os) \<and> tk_fingerprint t = fp r)"
  proof (intro allI impI)
    fix k' t assume "map_of T' k' = Some t"
    then consider "map_of T1 k' = Some t" | r' where "(k', r') \<in> set os" "tk_fingerprint t = fp r'" using IH(4) by blast
    then show "map_of T k' = Some t \<or> (\<exists>r. (k', r) \<in> set (kr # os) \<and> tk_fingerprint t = fp r)"
    proof cases
      case 1
      then have "map_of T k' = Some t \<or> k' = k \<and> tk_fingerprint t = fp r" by (rule one(4))
      then show ?thesis by (auto simp: kr)
    qed auto
  qed
  ultimately show ?case using IH(1) by (intro conjI)
qed auto

lemma stop_tasks_ok:
  assumes ok: "tasks_ok T w"
    and w1: "w1 = fold (\<lambda>kt. cancel (tk_task (snd kt))) (filter (must_stop fp owned) T) w"
  shows "tasks_ok (filter (\<lambda>kt. \<not> is_finished w1 (snd kt)) (filter (\<lambda>kt. \<not> must_stop fp owned kt) T)) w1"
    (is "tasks_ok ?T w1")
proof -
  note dist = tasks_okD(1) [OF ok]
  have get: "map_of ?T k = Some t \<longleftrightarrow>
      map_of T k = Some t \<and> \<not> must_stop fp owned (k, t) \<and> ph w1 (tk_task t) \<noteq> Finished" for k t
    using dist by (simp add: map_of_filter_Some distinct_map_filter is_finished_def)
  have len: "length (pr_sups w1) = length (pr_sups w)" and ph: "ph w1 i = ph w i"
    and key: "sup_key (pr_sups w1 ! i) = sup_key (pr_sups w ! i)" for i
    unfolding w1 by (rule cancel_all_sel)+
  have cancelled: "sup_cancelled (pr_sups w1 ! i) \<longleftrightarrow>
      (\<exists>k t. map_of T k = Some t \<and> tk_task t = i \<and> must_stop fp owned (k, t)) \<or> sup_cancelled (pr_sups w ! i)"
    if "i < length (pr_sups w)" for i
    unfolding w1 cancel_all_sel(4) [OF that] selected_tasks [OF dist] by (rule refl)
  show ?thesis
    unfolding tasks_ok_def len
  proof (intro conjI allI impI)
    show "distinct (map fst ?T)" using dist by (simp add: distinct_map_filter)
  next
    fix k t assume "map_of ?T k = Some t"
    then have t: "map_of T k = Some t" "\<not> must_stop fp owned (k, t)" unfolding get by blast+
    note o = tasks_okD(2) [OF ok t(1)]
    show "tk_task t < length (pr_sups w)" "sup_key (pr_sups w1 ! tk_task t) = k" using o key by auto
    have "k' = k" if "map_of T k' = Some t'" "tk_task t' = tk_task t" for k' t'
      using tasks_okD(2) [OF ok that(1)] o that(2) by simp
    then show "\<not> sup_cancelled (pr_sups w1 ! tk_task t)" using o t cancelled by fastforce
  next
    fix i assume i: "i < length (pr_sups w)" "\<not> sup_cancelled (pr_sups w1 ! i) \<and> ph w1 i \<noteq> Finished"
    then have nc: "\<not> sup_cancelled (pr_sups w ! i)"
      and ns: "map_of T k = Some t \<Longrightarrow> tk_task t = i \<Longrightarrow> \<not> must_stop fp owned (k, t)" for k t using cancelled by blast+
    obtain t where t: "map_of T (sup_key (pr_sups w ! i)) = Some t" "tk_task t = i"
      using tasks_okD(3) [OF ok i(1) nc] i(2) ph by metis
    have "map_of ?T (sup_key (pr_sups w1 ! i)) = Some t" unfolding get key using ns [OF t] t i(2) by blast
    then show "\<exists>t. map_of ?T (sup_key (pr_sups w1 ! i)) = Some t \<and> tk_task t = i" using t(2) by blast
  qed
qed

lemma reconcile_split:
  assumes "tasks_ok T w" and "reconcile fp owned (T, w) = (T', w')"
  obtains w1 where "w1 = fold (\<lambda>kt. cancel (tk_task (snd kt))) (filter (must_stop fp owned) T) w"
    and "fold (start_task fp) owned
      (filter (\<lambda>kt. \<not> is_finished w1 (snd kt)) (filter (\<lambda>kt. \<not> must_stop fp owned kt) T), w1) = (T', w')"
  using assms(2) unfolding reconcile_def Let_def prod.case filter_stopped [OF tasks_okD(1) [OF assms(1)]]
  by (rule that [OF refl])

lemma reconcile_ok:
  assumes ok: "tasks_ok T w" and dist: "distinct (map fst owned)" and rec: "reconcile fp owned (T, w) = (T', w')"
  shows "tasks_ok T' w' \<and> dom (map_of T') = dom (map_of owned)
    \<and> (\<forall>k t. map_of T' k = Some t \<longrightarrow> (\<exists>r. map_of owned k = Some r \<and> tk_fingerprint t = fp r))
    \<and> (\<forall>k t r. map_of T k = Some t \<and> map_of owned k = Some r \<and> fp r = tk_fingerprint t \<and> \<not> is_finished w t
         \<longrightarrow> map_of T' k = Some t)
    \<and> (\<forall>i < length (pr_sups w). sup_cancelled (pr_sups w' ! i) \<longleftrightarrow> sup_cancelled (pr_sups w ! i)
         \<or> (\<exists>k t. map_of T k = Some t \<and> tk_task t = i \<and> must_stop fp owned (k, t)))"
proof -
  obtain w1 where w1: "w1 = fold (\<lambda>kt. cancel (tk_task (snd kt))) (filter (must_stop fp owned) T) w"
    and start: "fold (start_task fp) owned
      (filter (\<lambda>kt. \<not> is_finished w1 (snd kt)) (filter (\<lambda>kt. \<not> must_stop fp owned kt) T), w1) = (T', w')"
    by (rule reconcile_split [OF ok rec])
  let ?T = "filter (\<lambda>kt. \<not> is_finished w1 (snd kt)) (filter (\<lambda>kt. \<not> must_stop fp owned kt) T)"
  have all: "tasks_ok T' w'" "dom (map_of T') = dom (map_of ?T) \<union> fst ` set owned"
    "\<And>k t. map_of ?T k = Some t \<Longrightarrow> map_of T' k = Some t"
    "\<And>k t. map_of T' k = Some t \<Longrightarrow> map_of ?T k = Some t \<or> (\<exists>r. (k, r) \<in> set owned \<and> tk_fingerprint t = fp r)"
    "\<exists>new. pr_sups w' = pr_sups w1 @ new"
    using start_all_ok [OF stop_tasks_ok [OF ok w1] start] by (elim conjE, fast)+
  have get: "map_of ?T k = Some t \<longleftrightarrow> map_of T k = Some t \<and> \<not> must_stop fp owned (k, t) \<and> \<not> is_finished w1 t" for k t
    using tasks_okD(1) [OF ok] by (auto simp: map_of_filter_Some distinct_map_filter)
  have kept: "\<exists>r. map_of owned k = Some r \<and> tk_fingerprint t = fp r" if "map_of ?T k = Some t" for k t
    using that unfolding get by (auto simp: must_stop_def split: option.splits)
  have dom: "dom (map_of T') = dom (map_of owned)"
    using all(2) kept unfolding dom_map_of_conv_image_fst [of owned, symmetric] by blast
  have fps: "\<exists>r. map_of owned k = Some r \<and> tk_fingerprint t = fp r" if "map_of T' k = Some t" for k t
    using all(4) [OF that] kept [of k t] dist by (metis map_of_is_SomeI)
  have fin: "is_finished w1 t = is_finished w t" for t
    unfolding is_finished_def w1 by (simp only: cancel_all_sel(2))
  have stay: "map_of T' k = Some t"
    if "map_of T k = Some t" "map_of owned k = Some r" "fp r = tk_fingerprint t" "\<not> is_finished w t" for k t r
  proof -
    have "map_of ?T k = Some t" unfolding get using that by (simp add: must_stop_def fin)
    then show ?thesis by (rule all(3))
  qed
  have "sup_cancelled (pr_sups w' ! i) \<longleftrightarrow> sup_cancelled (pr_sups w ! i)
      \<or> (\<exists>k t. map_of T k = Some t \<and> tk_task t = i \<and> must_stop fp owned (k, t))" if i: "i < length (pr_sups w)" for i
  proof -
    have a: "pr_sups w' ! i = pr_sups w1 ! i"
      using all(5) i cancel_all_sel(1) [of "\<lambda>kt. tk_task (snd kt)" "filter (must_stop fp owned) T" w]
      by (auto simp: w1 nth_append)
    show ?thesis
      unfolding a unfolding w1 cancel_all_sel(4) [OF i] selected_tasks [OF tasks_okD(1) [OF ok]] by blast
  qed
  then show ?thesis using all(1) dom fps stay by (intro conjI allI impI) blast+
qed

lemma owned_distinct: "distinct (map fst (node_owned E entries n))"
  by (simp add: node_owned_def owned_assignments_def hm_of_pairs_distinct)

text \<open>Steps of the supervisors themselves: neither a spawn nor a cancellation.\<close>

definition own_step :: "duration \<Rightarrow> process \<Rightarrow> process \<Rightarrow> bool" where
  "own_step hb w w' \<longleftrightarrow> sup_step hb w w' \<and> map sup_cancelled (pr_sups w') = map sup_cancelled (pr_sups w)"

lemma finished_stays:
  assumes "sup_step hb w w'" and "ph w j = Finished" and "j < length (pr_sups w)"
  shows "ph w' j = Finished"
  using assms(1)
proof (cases rule: sup_step.cases)
  case (Ended i r)
  then show ?thesis using assms(2) body_ended_quiet [OF Ended(2), of hb r] by (cases "j = i") (auto simp: in_phase_def)
next
  case (First i)
  then show ?thesis using assms(2) by (cases "j = i") (auto simp: in_phase_def take_instance_def)
next
  case (Exit i)
  then show ?thesis using assms(2,3) by (cases "j = i") (auto simp: in_phase_def finish_def goto_def)
next
  case (Cancel i)
  then show ?thesis using assms(2) by (simp add: cancel_sel)
next
  case (Spawn key)
  then show ?thesis using assms(2,3) by (simp add: spawn_def nth_append)
qed (use assms(2) in \<open>auto simp: in_phase_def ph_goto split: if_splits\<close>)

lemma own_step_sel:
  assumes "own_step hb w w'"
  shows "length (pr_sups w') = length (pr_sups w)"
    and "j < length (pr_sups w) \<Longrightarrow> sup_key (pr_sups w' ! j) = sup_key (pr_sups w ! j)"
    and "j < length (pr_sups w) \<Longrightarrow> sup_cancelled (pr_sups w' ! j) = sup_cancelled (pr_sups w ! j)"
    and "j < length (pr_sups w) \<Longrightarrow> ph w j = Finished \<Longrightarrow> ph w' j = Finished"
proof -
  show len: "length (pr_sups w') = length (pr_sups w)" using assms map_eq_imp_length_eq unfolding own_step_def by blast
  show "j < length (pr_sups w) \<Longrightarrow> sup_cancelled (pr_sups w' ! j) = sup_cancelled (pr_sups w ! j)"
    using assms len unfolding own_step_def by (metis nth_map)
  show "j < length (pr_sups w) \<Longrightarrow> ph w j = Finished \<Longrightarrow> ph w' j = Finished"
    using assms finished_stays unfolding own_step_def by blast
  consider "similar w w'" | key where "w' = spawn key w" | i where "w' = take_instance i w"
    using step_similar assms unfolding own_step_def by blast
  then show "j < length (pr_sups w) \<Longrightarrow> sup_key (pr_sups w' ! j) = sup_key (pr_sups w ! j)"
  proof cases
    case 2
    then show ?thesis using len by (simp add: spawn_def)
  next
    case (3 i)
    show ?thesis unfolding 3 by (cases "j = i"; cases "i < length (pr_sups w)")
      (auto simp: take_instance_def list_update_beyond)
  qed (simp add: similar_def)
qed

lemma tasks_ok_own_step:
  assumes ok: "tasks_ok T w" and st: "own_step hb w w'"
  shows "tasks_ok T w'"
  unfolding tasks_ok_def
proof (intro conjI allI impI)
  note sel = own_step_sel [OF st]
  show "distinct (map fst T)" by (rule tasks_okD(1) [OF ok])
  fix k t assume "map_of T k = Some t"
  note t = tasks_okD(2) [OF ok this]
  then show "tk_task t < length (pr_sups w')" "sup_key (pr_sups w' ! tk_task t) = k"
    "\<not> sup_cancelled (pr_sups w' ! tk_task t)" using sel by auto
next
  note sel = own_step_sel [OF st]
  fix i assume i: "i < length (pr_sups w')" "\<not> sup_cancelled (pr_sups w' ! i) \<and> ph w' i \<noteq> Finished"
  then have "i < length (pr_sups w)" "\<not> sup_cancelled (pr_sups w ! i)" "ph w i \<noteq> Finished" using sel by auto
  from tasks_okD(3) [OF ok this] show "\<exists>t. map_of T (sup_key (pr_sups w' ! i)) = Some t \<and> tk_task t = i"
    using sel(2) \<open>i < length (pr_sups w)\<close> by metis
qed

text \<open>The states a node can be in: after its start, any ticks with any answers and any steps of its tasks.\<close>

inductive node_reach :: "node_env \<Rightarrow> node \<Rightarrow> bool" for E :: node_env where
  start: "node_reach E (node_start E V now)"
| tick: "node_reach E n \<Longrightarrow> node_reach E (fst (Node.tick E V now wall n))"
| work: "node_reach E n \<Longrightarrow> own_step hb (nd_process n) w \<Longrightarrow> node_reach E (n\<lparr>nd_process := w\<rparr>)"

lemma poll_if_due_tasks: "nd_tasks (poll_if_due E V now n) = nd_tasks n \<and> nd_process (poll_if_due E V now n) = nd_process n"
  by (simp add: poll_if_due_def split: prod.splits)

lemma tick_failed:
  "list_heartbeats (ne_root E) V wall = Inl e \<Longrightarrow> fst (tick E V now wall n) = poll_if_due E V now n"
  by (simp add: tick_def Let_def)

lemma tick_listed:
  assumes "list_heartbeats (ne_root E) V wall = Inr es"
  shows "(nd_tasks (fst (tick E V now wall n)), nd_process (fst (tick E V now wall n)))
      = reconcile (ne_fingerprint E) (node_owned E es (poll_if_due E V now n)) (nd_tasks n, nd_process n)
    \<and> nd_fleet (fst (tick E V now wall n)) = nd_fleet (poll_if_due E V now n)"
  using assms by (simp add: tick_def Let_def poll_if_due_tasks split: prod.splits)

lemma node_reach_tasks_ok: "node_reach E n \<Longrightarrow> tasks_ok (nd_tasks n) (nd_process n)"
proof (induction rule: node_reach.induct)
  case (start V now)
  show ?case by (simp add: node_start_def tasks_ok_def start_process_def split: prod.splits)
next
  case (tick n V now wall)
  show ?case
  proof (cases "list_heartbeats (ne_root E) V wall")
    case (Inl e)
    then show ?thesis using tick tick_failed [OF Inl] poll_if_due_tasks by metis
  next
    case (Inr es)
    then show ?thesis
      using reconcile_ok [OF tick.IH owned_distinct] tick_listed [OF Inr, of now n] by metis
  qed
next
  case (work n hb w)
  then show ?case using tasks_ok_own_step by simp
qed

lemma start_all_unfinished:
  assumes "tasks_ok T w" and "\<And>k t. map_of T k = Some t \<Longrightarrow> \<not> is_finished w t"
    and "fold (start_task fp) os (T, w) = (T', w')"
  shows "map_of T' k = Some t \<Longrightarrow> \<not> is_finished w' t"
  using assms
proof (induction os arbitrary: T w)
  case (Cons kr os)
  obtain T1 w1 where st: "start_task fp (fst kr, snd kr) (T, w) = (T1, w1)" by (metis surj_pair)
  have rest: "fold (start_task fp) os (T1, w1) = (T', w')" using Cons.prems(4) st by simp
  have ok1: "tasks_ok T1 w1" using start_task_ok [OF Cons.prems(2) st] by blast
  have "\<not> is_finished w1 t" if t: "map_of T1 k = Some t" for k t
  proof (cases "map_of T (fst kr)")
    case None
    have sups: "pr_sups w1 = pr_sups w @ [new_supervisor (fst kr)]"
      and T1: "T1 = AList.update (fst kr) \<lparr>tk_task = length (pr_sups w), tk_fingerprint = fp (snd kr)\<rparr> T"
      using st None by (auto simp: start_task_def spawn_def)
    show ?thesis
    proof (cases "k = fst kr")
      case True
      then show ?thesis using t by (auto simp: T1 update_conv' is_finished_def sups new_supervisor_def)
    next
      case False
      then have "map_of T k = Some t" using t by (simp add: T1 update_conv')
      then show ?thesis
        using Cons.prems(3) tasks_okD(2) [OF Cons.prems(2)] by (auto simp: is_finished_def sups nth_append)
    qed
  next
    case (Some x)
    then show ?thesis using st t Cons.prems(3) by (auto simp: start_task_def)
  qed
  then show ?case using Cons.IH [OF Cons.prems(1) ok1 _ rest] by blast
qed simp

lemma reconcile_unfinished:
  assumes ok: "tasks_ok T w" and rec: "reconcile fp owned (T, w) = (T', w')" and t: "map_of T' k = Some t"
  shows "\<not> is_finished w' t"
proof -
  obtain w1 where w1: "w1 = fold (\<lambda>kt. cancel (tk_task (snd kt))) (filter (must_stop fp owned) T) w"
    and start: "fold (start_task fp) owned
      (filter (\<lambda>kt. \<not> is_finished w1 (snd kt)) (filter (\<lambda>kt. \<not> must_stop fp owned kt) T), w1) = (T', w')"
    by (rule reconcile_split [OF ok rec])
  have "\<not> is_finished w1 u"
    if "map_of (filter (\<lambda>kt. \<not> is_finished w1 (snd kt)) (filter (\<lambda>kt. \<not> must_stop fp owned kt) T)) j = Some u" for j u
    using map_of_SomeD [OF that] by simp
  then show ?thesis using start_all_unfinished [OF stop_tasks_ok [OF ok w1] _ start t] by blast
qed

definition live :: "process \<Rightarrow> assignment \<Rightarrow> nat \<Rightarrow> bool" where
  "live w k i \<longleftrightarrow>
     i < length (pr_sups w) \<and> sup_key (pr_sups w ! i) = k \<and> \<not> sup_cancelled (pr_sups w ! i) \<and> ph w i \<noteq> Finished"

lemma live_task: "tasks_ok T w \<Longrightarrow> live w k i \<Longrightarrow> \<exists>t. map_of T k = Some t \<and> tk_task t = i"
  unfolding live_def by (blast dest: tasks_okD(3))

lemma task_live: "tasks_ok T w \<Longrightarrow> map_of T k = Some t \<Longrightarrow> \<not> is_finished w t \<Longrightarrow> live w k (tk_task t)"
  unfolding live_def is_finished_def by (blast dest: tasks_okD(2))

lemma tick_live:
  assumes "node_reach E n" and list: "list_heartbeats (ne_root E) V wall = Inr es" and n': "n' = fst (tick E V now wall n)"
  shows "tasks_ok (nd_tasks n') (nd_process n')"
    and "dom (map_of (nd_tasks n')) = dom (map_of (node_owned E es n'))"
    and "map_of (nd_tasks n') k = Some t \<Longrightarrow> live (nd_process n') k (tk_task t)"
    and "(\<exists>i. live (nd_process n') k i) \<longleftrightarrow> k \<in> dom (map_of (node_owned E es n'))"
proof -
  have ok: "tasks_ok (nd_tasks n) (nd_process n)" by (rule node_reach_tasks_ok [OF assms(1)])
  have rec: "reconcile (ne_fingerprint E) (node_owned E es n') (nd_tasks n, nd_process n) = (nd_tasks n', nd_process n')"
    using tick_listed [OF list, of now n] by (simp add: n' node_owned_def)
  show ok': "tasks_ok (nd_tasks n') (nd_process n')" and dom: "dom (map_of (nd_tasks n')) = dom (map_of (node_owned E es n'))"
    using reconcile_ok [OF ok owned_distinct rec] by (elim conjE, fast)+
  show alive: "live (nd_process n') k (tk_task t)" if "map_of (nd_tasks n') k = Some t" for k t
    using task_live [OF ok' that] reconcile_unfinished [OF ok rec that] by blast
  show "(\<exists>i. live (nd_process n') k i) \<longleftrightarrow> k \<in> dom (map_of (node_owned E es n'))"
    using live_task [OF ok'] alive dom by blast
qed

lemma live_unique: "tasks_ok T w \<Longrightarrow> live w k i \<Longrightarrow> live w k j \<Longrightarrow> i = j"
  using live_task by (metis option.inject)

text \<open>
  C11. A tick runs exactly what the node owns. From any state a node can reach, a tick that could
  list the heartbeats leaves, for every assignment the node owns, exactly one supervisor that is
  neither cancelled nor finished, started with the current settings; for every other assignment
  there is none. A task whose settings did not change and that is still running is left alone.
\<close>

theorem tick_runs_what_it_owns:
  assumes "node_reach E n" and list: "list_heartbeats (ne_root E) V wall = Inr es"
    and n': "n' = fst (tick E V now wall n)" and owned: "owned = node_owned E es n'"
  shows "(\<forall>k. if k \<in> dom (map_of owned) then (\<exists>!i. live (nd_process n') k i) else (\<nexists>i. live (nd_process n') k i))
    \<and> (\<forall>k t. map_of (nd_tasks n') k = Some t \<longrightarrow>
         live (nd_process n') k (tk_task t)
         \<and> (\<exists>r. map_of owned k = Some r \<and> tk_fingerprint t = ne_fingerprint E r))
    \<and> (\<forall>k t r. map_of (nd_tasks n) k = Some t \<and> map_of owned k = Some r \<and> ne_fingerprint E r = tk_fingerprint t
         \<and> \<not> is_finished (nd_process n) t \<longrightarrow> map_of (nd_tasks n') k = Some t)"
proof -
  have ok: "tasks_ok (nd_tasks n) (nd_process n)" by (rule node_reach_tasks_ok [OF assms(1)])
  have rec: "reconcile (ne_fingerprint E) owned (nd_tasks n, nd_process n) = (nd_tasks n', nd_process n')"
    using tick_listed [OF list, of now n] by (simp add: owned n' node_owned_def)
  note after = tick_live [OF assms(1) list n', folded owned]
  have "if k \<in> dom (map_of owned) then (\<exists>!i. live (nd_process n') k i) else (\<nexists>i. live (nd_process n') k i)" for k
    using after(4) [of k] live_unique [OF after(1), of k] by (metis (full_types))
  moreover note reconcile_ok [OF ok owned_distinct [of E es n', folded owned] rec] after(3)
  ultimately show ?thesis by blast
qed

text \<open>
  C14. Between ticks and through failures: in every state a node can reach, an assignment has at
  most one supervisor that is neither cancelled nor finished, and a tick that cannot list the
  heartbeats starts and stops nothing, so a stale live set keeps the current assignments.
\<close>

theorem one_live_task_per_assignment:
  assumes "node_reach E n"
  shows "(live (nd_process n) k i \<and> live (nd_process n) k j \<longrightarrow> i = j)
    \<and> (\<forall>e. list_heartbeats (ne_root E) V wall = Inl e \<longrightarrow>
         nd_tasks (fst (tick E V now wall n)) = nd_tasks n \<and> nd_process (fst (tick E V now wall n)) = nd_process n)"
  using live_unique [OF node_reach_tasks_ok [OF assms], of k i j] by (auto simp: tick_failed poll_if_due_tasks)

definition demo_env :: node_env where
  "demo_env =
     \<lparr>ne_crates = demo_crates, ne_toml = sched_toml, ne_root = demo_root,
      ne_options = with_services [Gc] (new_node_options None ''n1''), ne_fingerprint = (\<lambda>_. 0),
      ne_sleet_version = ''0.1'', ne_slatedb_version = ''0.9''\<rparr>"

definition demo_node_view :: store_view where
  "demo_node_view =
     \<lparr>sv_list = (\<lambda>p. if p = ''fleet/dbs'' then Inr [demo_meta\<lparr>om_size := 0\<rparr>] else Inr []),
      sv_get = (\<lambda>_. Inl NotFound)\<rparr>"

lemma demo_node_fleet: "nd_fleet (node_start demo_env demo_node_view 0) = demo_state"
proof -
  have dec: "decode_entry demo_crates (demo_meta\<lparr>om_size := 0\<rparr>) = (Some (demo_entry\<lparr>re_meta := demo_meta\<lparr>om_size := 0\<rparr>\<rparr>), [])"
    by (simp add: decode_entry_def demo_filename demo_parse_name demo_canonical demo_entry_def)
  show ?thesis
    by (simp add: node_start_def demo_env_def demo_node_view_def demo_state_def poll_def poll_config_def
        default_config_poller_def poll_registry_def root_list_def Let_def decode_entries_def dec scan_entries_def
        registry_step_def demo_entry_def file_config_def)
qed

lemma demo_node_owns:
  assumes "nd_fleet n = demo_state"
  shows "(''s3://b/db'', Gc, None) \<in> dom (map_of (node_owned demo_env [] n))"
proof -
  have wf: "bt_wf (fs_databases demo_state)" by (simp add: bt_wf_def)
  have "map_of (node_owned demo_env [] n) (''s3://b/db'', Gc, None) = Some (resolve default_sleet_config (Some default_database_config))"
    using assms
    by (simp add: node_owned_def owned_assignments_iff [OF wf] service_assignments_iff entitled_def demo_resolve_services
        ALL_SERVICES_def owner_count_def candidates_def live_nodes_def node_view_def youngest_per_node_def owners_def
        rank_def demo_env_def with_services_def new_node_options_def default_node_options_def)
  then show ?thesis by blast
qed

lemma demo_node_lists: "list_heartbeats (ne_root demo_env) demo_node_view 0 = Inr []"
  by (simp add: list_heartbeats_def demo_env_def demo_node_view_def root_list_def nodes_prefix_def demo_root_def
      path_join_def List.map_filter_simps)

theorem tick_runs_what_it_owns_witness:
  "\<exists>!i. live (nd_process (fst (tick demo_env demo_node_view 0 0 (node_start demo_env demo_node_view 0))))
     (''s3://b/db'', Gc, None) i"
proof -
  let ?n = "node_start demo_env demo_node_view 0"
  have "nd_fleet (fst (tick demo_env demo_node_view 0 0 ?n)) = nd_fleet (poll_if_due demo_env demo_node_view 0 ?n)"
    using tick_listed [OF demo_node_lists] by blast
  also have "\<dots> = demo_state"
    using demo_node_fleet
    by (simp add: poll_if_due_def default_sleet_config_def default_node_config_def from_secs_def)
       (simp add: node_start_def split: prod.splits)
  finally have "(''s3://b/db'', Gc, None)
      \<in> dom (map_of (node_owned demo_env [] (fst (tick demo_env demo_node_view 0 0 ?n))))"
    by (rule demo_node_owns)
  then show ?thesis
    using tick_runs_what_it_owns [OF node_reach.start demo_node_lists refl refl] by presburger
qed

theorem one_live_task_per_assignment_witness:
  "nd_tasks (fst (tick demo_env (demo_view (Inl NotFound) (Inl (OtherError ''503'')) []) 0 0 (node_start demo_env demo_node_view 0)))
     = nd_tasks (node_start demo_env demo_node_view 0)"
proof -
  have "list_heartbeats (ne_root demo_env) (demo_view (Inl NotFound) (Inl (OtherError ''503'')) []) 0 = Inl (OtherError ''503'')"
    by (simp add: list_heartbeats_def root_list_def demo_view_def)
  then show ?thesis
    using one_live_task_per_assignment [OF node_reach.start, of demo_env demo_node_view 0 _ _ _
        "demo_view (Inl NotFound) (Inl (OtherError ''503'')) []" 0 0] by blast
qed

subsection \<open>Heartbeat bodies and housekeeping\<close>

definition entries_of :: "task_states \<Rightarrow> service \<Rightarrow> task_state \<Rightarrow> nat" where
  "entries_of states s st = length (filter (\<lambda>e. fst (snd (fst e)) = s \<and> snd (snd e) = st) states)"

definition summary_of :: "task_states \<Rightarrow> service \<Rightarrow> service_summary" where
  "summary_of states s =
     \<lparr>ss_service = s, ss_running = entries_of states s Running, ss_backoff = entries_of states s Backoff\<rparr>"

lemma count_state_keys:
  "distinct (map fst m) \<Longrightarrow> distinct (map fst (fold count_state es m))"
proof (induction es arbitrary: m)
  case (Cons e es)
  have "distinct (map fst (count_state e m))"
    using Cons.prems by (cases e; cases "snd (snd e)") (auto simp: count_state_def Let_def distinct_update split: prod.splits)
  then show ?case using Cons.IH by simp
qed simp

lemma count_fold:
  assumes "\<And>s x. map_of m s = Some x \<Longrightarrow> ss_service x = s"
  shows "map_of (fold count_state es m) s =
    (if map_of m s = None \<and> s \<notin> (\<lambda>e. fst (snd (fst e))) ` set es then None
     else Some (let x = unwrap_or (map_of m s) (empty_summary s) in
       \<lparr>ss_service = s, ss_running = ss_running x + entries_of es s Running,
        ss_backoff = ss_backoff x + entries_of es s Backoff\<rparr>))"
  using assms
proof (induction es arbitrary: m)
  case Nil
  then show ?case by (cases "map_of m s") (auto simp: entries_of_def)
next
  case (Cons e es)
  obtain u s' t i st where e: "e = ((u, s', t), (i, st))" by (metis surj_pair)
  let ?x = "unwrap_or (map_of m s') (empty_summary s')"
  let ?y = "case st of Running \<Rightarrow> ?x\<lparr>ss_running := ss_running ?x + 1\<rparr> | Backoff \<Rightarrow> ?x\<lparr>ss_backoff := ss_backoff ?x + 1\<rparr>"
  have m': "count_state e m = AList.update s' ?y m" by (simp add: count_state_def e Let_def)
  have "ss_service ?x = s'" using Cons.prems by (cases "map_of m s'") (auto simp: empty_summary_def)
  then have svc: "ss_service ?y = s'" by (cases st) auto
  have inv: "\<And>s x. map_of (count_state e m) s = Some x \<Longrightarrow> ss_service x = s"
    using Cons.prems svc unfolding m' by (auto simp: update_conv' split: if_splits)
  have sel: "fst (snd (fst e)) = s'" "snd (snd e) = st" by (simp_all add: e)
  have val: "map_of (count_state e m) s = (if s = s' then Some ?y else map_of m s)" unfolding m' by (simp add: update_conv')
  have cons: "entries_of (e # es) s x = (if s = s' \<and> st = x then 1 else 0) + entries_of es s x" for x
    by (simp add: entries_of_def sel)
  have "fold count_state (e # es) m = fold count_state es (count_state e m)" by simp
  then show ?case
    using Cons.IH [OF inv] val unfolding cons
    by (cases "s = s'"; cases st) (simp_all add: sel Let_def)
qed

lemma empty_summaries:
  "map_of (hm_of_pairs (map (\<lambda>s. (s, empty_summary s)) services)) s =
     (if s \<in> set services then Some (empty_summary s) else None)"
proof -
  have "functional_pairs (map (\<lambda>s. (s, empty_summary s)) services)" by (auto simp: functional_pairs_def)
  note get = hm_of_pairs_get [OF this, of s]
  show ?thesis
    using get [of "empty_summary s"] get
    by (cases "map_of (hm_of_pairs (map (\<lambda>s. (s, empty_summary s)) services)) s") auto
qed

interpretation by_letter: comparator "\<lambda>a b. letter (ss_service a) \<le> letter (ss_service b)"
  by unfold_locales auto

text \<open>
  The heartbeat body. It lists each service once, in letter order: those the node offers and
  those it has tasks for; and each summary counts exactly the entries of the task table, running
  and in backoff, of that service.
\<close>

theorem heartbeat_summaries_count:
  "set (service_summaries services states)
      = summary_of states ` (set services \<union> (\<lambda>e. fst (snd (fst e))) ` set states)
    \<and> sorted_wrt (\<lambda>a b. letter (ss_service a) < letter (ss_service b)) (service_summaries services states)"
proof -
  define m0 where "m0 = hm_of_pairs (map (\<lambda>s. (s, empty_summary s)) services)"
  let ?m = "fold count_state states m0"
  have start: "map_of m0 s = (if s \<in> set services then Some (empty_summary s) else None)" for s
    unfolding m0_def by (rule empty_summaries)
  then have inv: "map_of m0 s = Some x \<Longrightarrow> ss_service x = s" for s x
    by (auto simp: empty_summary_def split: if_splits)
  have base: "unwrap_or (map_of m0 s) (empty_summary s) = empty_summary s" for s by (simp add: start)
  have get: "map_of ?m s = (if s \<in> set services \<union> (\<lambda>e. fst (snd (fst e))) ` set states then Some (summary_of states s) else None)" for s
    using count_fold [where m = m0 and es = states and s = s, OF inv] unfolding base
    by (simp add: start summary_of_def Let_def empty_summary_def)
  have dist: "distinct (map fst ?m)" unfolding m0_def by (rule count_state_keys [OF hm_of_pairs_distinct])
  have pairs: "(s, x) \<in> set ?m \<longleftrightarrow> s \<in> set services \<union> (\<lambda>e. fst (snd (fst e))) ` set states \<and> x = summary_of states s" for s x
    using get [of s] map_of_eq_Some_iff [OF dist, of s x] by (auto split: if_splits)
  then have key: "p \<in> set ?m \<Longrightarrow> ss_service (snd p) = fst p" for p by (cases p) (auto simp: summary_of_def)
  have "set (service_summaries services states) = snd ` set ?m" by (simp add: service_summaries_def m0_def)
  also have "\<dots> = summary_of states ` (set services \<union> (\<lambda>e. fst (snd (fst e))) ` set states)"
    using pairs by (auto simp: image_iff) force+
  finally have 1: "set (service_summaries services states) = \<dots>" .
  have "distinct (map (\<lambda>x. letter (ss_service x)) (map snd ?m))"
  proof -
    have eq: "map (\<lambda>x. letter (ss_service x)) (map snd ?m) = map letter (map fst ?m)" using key by simp
    have "distinct (map letter (map fst ?m))"
      using dist by (subst distinct_map) (auto simp: inj_on_def letter_inject)
    then show ?thesis unfolding eq .
  qed
  then have "distinct (map (\<lambda>x. letter (ss_service x)) (service_summaries services states))"
    unfolding service_summaries_def Let_def m0_def
    by (metis (no_types, lifting) mset_sort_by mset_map mset_eq_imp_distinct_iff)
  moreover have "sorted_wrt (\<lambda>a b. letter (ss_service a) \<le> letter (ss_service b)) (service_summaries services states)"
    unfolding service_summaries_def Let_def by (rule by_letter.sorted_sort_by)
  ultimately have "sorted_wrt (<) (map (\<lambda>x. letter (ss_service x)) (service_summaries services states))"
    unfolding strict_sorted_iff by (simp add: sorted_wrt_map)
  then have "sorted_wrt (\<lambda>a b. letter (ss_service a) < letter (ss_service b)) (service_summaries services states)"
    unfolding sorted_wrt_map .
  then show ?thesis using 1 by blast
qed

text \<open>
  C34. Housekeeping clears only what it may: an object it deletes is a listed heartbeat that either
  carries this node's id under a name other than its current one, or has been dead for ten
  timeouts. So no heartbeat that makes another node live is ever deleted, nor the node's own
  current one while it is younger than ten timeouts.
\<close>

theorem housekeeping_spares_the_living:
  "(\<forall>l \<in> set (housekeeping root options es state). \<exists>e \<in> set es. he_location e = l
      \<and> (he_node_id e = no_node_id options \<and> l \<noteq> node_path root (object_name (no_node_id options) (no_services options))
         \<or> heartbeat_timeout (sc_node (fs_config state)) * 10 \<le> he_age e))
   \<and> (\<forall>e. distinct (map he_location es) \<and> is_youngest es e \<and> he_age e < heartbeat_timeout (sc_node (fs_config state))
        \<and> (he_node_id e \<noteq> no_node_id options
           \<or> he_location e = node_path root (object_name (no_node_id options) (no_services options)))
        \<longrightarrow> he_location e \<notin> set (housekeeping root options es state))"
proof (intro conjI ballI allI impI)
  fix l assume "l \<in> set (housekeeping root options es state)"
  then show "\<exists>e \<in> set es. he_location e = l
      \<and> (he_node_id e = no_node_id options \<and> l \<noteq> node_path root (object_name (no_node_id options) (no_services options))
         \<or> heartbeat_timeout (sc_node (fs_config state)) * 10 \<le> he_age e)"
    by (auto simp: housekeeping_def Let_def)
next
  fix e assume e: "distinct (map he_location es) \<and> is_youngest es e \<and> he_age e < heartbeat_timeout (sc_node (fs_config state))
      \<and> (he_node_id e \<noteq> no_node_id options
         \<or> he_location e = node_path root (object_name (no_node_id options) (no_services options)))"
  then have in_es: "e \<in> set es" using is_youngest_in by blast
  have same: "x = e" if "x \<in> set es" "he_location x = he_location e" for x
    using e in_es that by (auto simp: distinct_map inj_on_def)
  show "he_location e \<notin> set (housekeeping root options es state)"
  proof
    assume "he_location e \<in> set (housekeeping root options es state)"
    then obtain x where x: "x \<in> set es" "he_location x = he_location e"
      "he_node_id x = no_node_id options \<and> he_location x \<noteq> node_path root (object_name (no_node_id options) (no_services options))
       \<or> heartbeat_timeout (sc_node (fs_config state)) * 10 \<le> he_age x"
      by (auto simp: housekeeping_def Let_def)
    then show False using same [OF x(1,2)] e by auto
  qed
qed

theorem housekeeping_spares_the_living_witness:
  "''fleet/nodes/n2.g.json'' \<notin> set (housekeeping demo_root (new_node_options None ''n1'') demo_heartbeats demo_state)"
proof -
  let ?e = "\<lparr>he_node_id = ''n2'', he_services = [Gc], he_age = 7, he_location = ''fleet/nodes/n2.g.json''\<rparr>"
  have "is_youngest demo_heartbeats ?e"
    unfolding is_youngest_def demo_heartbeats_def 
    by (intro exI [of _ "[\<lparr>he_node_id = ''n1'', he_services = [Gc, Mirror], he_age = 5, he_location = ''fleet/nodes/n1.gm.json''\<rparr>]"]
        exI [of _ "[]"]) simp
  moreover have "distinct (map he_location demo_heartbeats)" by (simp add: demo_heartbeats_def)
  moreover have "he_age ?e < heartbeat_timeout (sc_node (fs_config demo_state))"
    by (simp add: default_sleet_config_def default_node_config_def from_secs_def)
  moreover have "he_node_id ?e \<noteq> no_node_id (new_node_options None ''n1'')"
    by (simp add: new_node_options_def)
  ultimately have "he_location ?e \<notin> set (housekeeping demo_root (new_node_options None ''n1'') demo_heartbeats demo_state)"
    using housekeeping_spares_the_living [of demo_root "new_node_options None ''n1''" demo_heartbeats demo_state] by blast
  then show ?thesis by simp
qed

end
