(* ===== verification/Ops.thy ===== *)
theory Ops
  imports Messages Response Mirror_Loops Node
begin

text \<open>
  \<^verbatim>\<open>src/ops.rs\<close>, the one-shot subcommands, with \<^verbatim>\<open>src/store.rs\<close>, \<^verbatim>\<open>FleetRoot::open\<close> and
  \<^verbatim>\<open>DatabaseHandle::open\<close>, which they start from.

  Opening a store is the object_store crate's (\<open>parse_url_opts\<close>); what the program does is pass it
  the process environment. \<open>stop\<close> is how a computation that can also panic or be timed out ends
  early: the two \<^verbatim>\<open>expect\<close>s on reparsing a canonical URL are \<open>Panicked\<close>. The fleet root's writes
  act on \<open>fleet_objects\<close>, the objects of the root's store by path. A status command reads the
  fleet root through the same \<open>store_view\<close> a node's poll does, and probes each database in a
  world of its own: \<open>probe_hung n\<close> says that the deadline passes at request \<open>n\<close> of a probe, which
  then keeps what it had filled in.
\<close>

datatype 'e stop = Panicked | TimedOut | Failed 'e

datatype ops_error =
    OUrl url_error
  | OStore store_error
  | NotRegistered string
  | NoSuchTarget string string
  | OService service_error
  | OMirror mirror_error

fun ops_error_text :: "displays \<Rightarrow> ops_error \<Rightarrow> string" where
  "ops_error_text D (OUrl e) = url_error_text e"
| "ops_error_text D (OStore e) = ''object store error: '' @ dp_store D e"
| "ops_error_text D (NotRegistered url) = url @ '' is not registered; `sleet register` it first''"
| "ops_error_text D (NoSuchTarget target url) =
     ''no enabled mirror target '' @ debug_str target @ '' applies to '' @ url"
| "ops_error_text D (OService e) = service_error_text D e"
| "ops_error_text D (OMirror e) = mirror_error_text D e"

subsection \<open>Opening stores\<close>

record object_store_crate =
  oc_vars :: "(string \<times> string) list"
  oc_parse_url_opts :: "string \<Rightarrow> (string \<times> string) list \<Rightarrow> store_error + string"

definition utf8_var :: "string \<times> string \<Rightarrow> (string \<times> string) option" where
  "utf8_var kv =
     (case from_utf8 (fst kv) of
        None \<Rightarrow> None
      | Some key \<Rightarrow> (case from_utf8 (snd kv) of None \<Rightarrow> None | Some v \<Rightarrow> Some (key, v)))"

definition parse_url :: "object_store_crate \<Rightarrow> string \<Rightarrow> store_error + string" where
  "parse_url S url = oc_parse_url_opts S url (List.map_filter utf8_var (oc_vars S))"

definition fleet_root_open :: "crates \<Rightarrow> object_store_crate \<Rightarrow> string \<Rightarrow> open_error stop + fleet_root" where
  "fleet_root_open X S url =
     (case canonicalize_url X url of
        Inl e \<Rightarrow> Inl (Failed (RootUrl e))
      | Inr canonical \<Rightarrow>
          (case url_parse X canonical of
             Inl _ \<Rightarrow> Inl Panicked
           | Inr parsed \<Rightarrow>
               (case parse_url S parsed of
                  Inl e \<Rightarrow> Inl (Failed (RootStore e))
                | Inr prefix \<Rightarrow> Inr \<lparr>fr_prefix = prefix, fr_url = canonical\<rparr>)))"

definition db_open :: "crates \<Rightarrow> object_store_crate \<Rightarrow> side \<Rightarrow> string \<Rightarrow> service_error stop + db_handle" where
  "db_open X S side url =
     (case canonicalize_database_url X url of
        Inl e \<Rightarrow> Inl (Failed (SUrl e))
      | Inr canonical \<Rightarrow>
          (case url_parse X canonical of
             Inl _ \<Rightarrow> Inl Panicked
           | Inr parsed \<Rightarrow>
               (case parse_url S parsed of
                  Inl e \<Rightarrow> Inl (Failed (SStore e))
                | Inr path \<Rightarrow> Inr \<lparr>db_url = url, db_side = side, db_path = path\<rparr>)))"

fun service_stop :: "service_error stop \<Rightarrow> ops_error stop" where
  "service_stop Panicked = Panicked"
| "service_stop TimedOut = TimedOut"
| "service_stop (Failed e) = Failed (OService e)"

definition open_in :: "crates \<Rightarrow> object_store_crate \<Rightarrow> side \<Rightarrow> string \<Rightarrow> (ops_error stop, db_handle) act" where
  "open_in X S side url =
     (case db_open X S side url of Inl e \<Rightarrow> fail (service_stop e) | Inr db \<Rightarrow> ret db)"

subsection \<open>register\<close>

type_synonym fleet_objects = "(string, stored) hmap"

text \<open>
  A create-only PUT. A request that fails may have been carried out all the same, which
  \<open>pa_applied\<close> says.
\<close>

record put_answer =
  pa_fault :: "store_error option"
  pa_applied :: bool

definition put_create ::
  "put_answer \<Rightarrow> datetime \<Rightarrow> string \<Rightarrow> string \<Rightarrow> fleet_objects \<Rightarrow> (store_error + unit) \<times> fleet_objects" where
  "put_create A now path bytes objs =
     (let written = (if map_of objs path = None
            then AList.update path \<lparr>so_bytes = bytes, so_modified = now\<rparr> objs else objs)
      in case pa_fault A of
           Some e \<Rightarrow> (Inl e, if pa_applied A then written else objs)
         | None \<Rightarrow> if map_of objs path = None then (Inr (), written) else (Inl AlreadyExists, objs))"

definition register ::
  "crates \<Rightarrow> fleet_root \<Rightarrow> put_answer \<Rightarrow> datetime \<Rightarrow> string \<Rightarrow> fleet_objects
     \<Rightarrow> (ops_error + register_response) \<times> fleet_objects" where
  "register X root A now url objs =
     (case canonicalize_database_url X url of
        Inl e \<Rightarrow> (Inl (OUrl e), objs)
      | Inr canonical \<Rightarrow>
          (let path = database_path X root canonical;
               file = ''dbs/'' @ file_name X canonical;
               response = (\<lambda>created. \<lparr>rr_url = canonical, rr_file = file, rr_created = created\<rparr>)
           in case put_create A now path [] objs of
                (Inr _, objs') \<Rightarrow> (Inr (response True), objs')
              | (Inl AlreadyExists, objs') \<Rightarrow> (Inr (response False), objs')
              | (Inl e, objs') \<Rightarrow> (Inl (OStore e), objs')))"

subsection \<open>Mirror lag\<close>

definition STATUS_PROBE_CONCURRENCY :: nat where
  "STATUS_PROBE_CONCURRENCY = 16"

definition STATUS_PROBE_TIMEOUT :: duration where
  "STATUS_PROBE_TIMEOUT = from_secs 10"

record probe =
  pb_env :: mirror_env
  pb_world :: world
  pb_hung :: "nat \<Rightarrow> bool"

text \<open>A step of a probe: the deadline may pass while it waits, and its error is the command's.\<close>

definition await :: "probe \<Rightarrow> (mirror_error, 'a) act \<Rightarrow> (ops_error stop, 'a) act" where
  "await P m w =
     (if pb_hung P (w_requests w) then (Inl TimedOut, w) else map_err (\<lambda>e. Failed (OMirror e)) m w)"

type_synonym 'a lag = "mirror_status_response \<Rightarrow> world \<Rightarrow> (ops_error stop + 'a) \<times> mirror_status_response \<times> world"

definition lag_ret :: "'a \<Rightarrow> 'a lag" where
  "lag_ret a st w = (Inr a, st, w)"

definition lag_fail :: "ops_error stop \<Rightarrow> 'a lag" where
  "lag_fail e st w = (Inl e, st, w)"

definition lag_do :: "(ops_error stop, 'a) act \<Rightarrow> 'a lag" where
  "lag_do m st w = (case m w of (r, w') \<Rightarrow> (r, st, w'))"

definition lag_set :: "(mirror_status_response \<Rightarrow> mirror_status_response) \<Rightarrow> unit lag" where
  "lag_set f st w = (Inr (), f st, w)"

definition lag_bind :: "'a lag \<Rightarrow> ('a \<Rightarrow> 'b lag) \<Rightarrow> 'b lag" where
  "lag_bind m f st w = (case m st w of (Inl e, st', w') \<Rightarrow> (Inl e, st', w') | (Inr a, st', w') \<Rightarrow> f a st' w')"

definition num_seconds :: "int \<Rightarrow> int" where
  "num_seconds d = (if 0 \<le> d then d div 1000000000 else - ((- d) div 1000000000))"

definition seconds_behind :: "mirror_env \<Rightarrow> vmanifest \<Rightarrow> vmanifest \<Rightarrow> nat option" where
  "seconds_behind V source_head dest_head =
     (case (me_find_ts V source_head (vm_last_l0_seq source_head), me_find_ts V source_head (vm_last_l0_seq dest_head)) of
        (Some source_ts, Some dest_ts) \<Rightarrow> Some (nat (max (num_seconds (source_ts - dest_ts)) 0))
      | _ \<Rightarrow> None)"

definition lag_behind :: "probe \<Rightarrow> db_handle \<Rightarrow> db_handle \<Rightarrow> vmanifest \<Rightarrow> vmanifest \<Rightarrow> unit lag" where
  "lag_behind P source dest source_head dest_head =
     lag_bind (lag_set (\<lambda>st. st\<lparr>ms_dest_manifest_id := Some (vm_id dest_head),
                                ms_manifests_behind := Some (vm_id source_head - vm_id dest_head)\<rparr>)) (\<lambda>_.
     lag_bind (lag_do (await P (list_wals (pb_env P) source))) (\<lambda>source_wals.
     lag_bind (lag_do (await P (list_wals (pb_env P) dest))) (\<lambda>dest_wals.
     lag_bind (case last_opt source_wals of
         None \<Rightarrow> lag_ret ()
       | Some (source_wal, _) \<Rightarrow>
           lag_set (\<lambda>st. st\<lparr>ms_wal_behind :=
             Some (source_wal - (case last_opt dest_wals of None \<Rightarrow> 0 | Some (dest_wal, _) \<Rightarrow> dest_wal))\<rparr>)) (\<lambda>_.
     case seconds_behind (pb_env P) source_head dest_head of
       None \<Rightarrow> lag_ret ()
     | Some s \<Rightarrow> lag_set (\<lambda>st. st\<lparr>ms_seconds_behind := Some s\<rparr>)))))"

definition mirror_lag :: "crates \<Rightarrow> object_store_crate \<Rightarrow> probe \<Rightarrow> string \<Rightarrow> applied_target \<Rightarrow> unit lag" where
  "mirror_lag X S P url target =
     lag_bind (lag_do (open_in X S AtSource url)) (\<lambda>source.
     lag_bind (lag_do (open_in X S AtDest (at_destination target))) (\<lambda>dest.
     lag_bind (lag_do (await P (admin_read_manifest (pb_env P) source None))) (\<lambda>source_head.
     case source_head of
       None \<Rightarrow> lag_fail (Failed (OMirror (NotADatabase url)))
     | Some source_head \<Rightarrow>
         lag_bind (lag_set (\<lambda>st. st\<lparr>ms_source_manifest_id := Some (vm_id source_head)\<rparr>)) (\<lambda>_.
         lag_bind (lag_do (await P (admin_read_manifest (pb_env P) dest None))) (\<lambda>dest_head.
         case dest_head of
           None \<Rightarrow> lag_set (\<lambda>st. st\<lparr>ms_manifests_behind := Some (vm_id source_head)\<rparr>)
         | Some dest_head \<Rightarrow> lag_behind P source dest source_head dest_head)))))"

definition unread_status :: "string \<Rightarrow> applied_target \<Rightarrow> mirror_status_response" where
  "unread_status url target =
     \<lparr>ms_database = url, ms_target = at_name target, ms_destination = at_destination target,
      ms_source_manifest_id = None, ms_dest_manifest_id = None, ms_manifests_behind = None, ms_wal_behind = None,
      ms_seconds_behind = None, ms_error = None\<rparr>"

definition mirror_status ::
  "crates \<Rightarrow> object_store_crate \<Rightarrow> displays \<Rightarrow> probe \<Rightarrow> string \<Rightarrow> applied_target \<Rightarrow> mirror_status_response option" where
  "mirror_status X S D P url target =
     (case mirror_lag X S P url target (unread_status url target) (pb_world P) of
        (Inr _, st, _) \<Rightarrow> Some st
      | (Inl (Failed e), st, _) \<Rightarrow> Some (st\<lparr>ms_error := Some (ops_error_text D e)\<rparr>)
      | (Inl TimedOut, st, _) \<Rightarrow>
          Some (st\<lparr>ms_error := Some (''lag read timed out after '' @ show_nat (STATUS_PROBE_TIMEOUT div from_secs 1) @ ''s'')\<rparr>)
      | (Inl Panicked, _, _) \<Rightarrow> None)"

subsection \<open>status\<close>

record status_env =
  se_crates :: crates
  se_toml :: toml_crate
  se_root :: fleet_root
  se_stores :: object_store_crate
  se_displays :: displays
  se_heartbeat :: "string \<Rightarrow> heartbeat option"
  se_probe :: "string \<Rightarrow> applied_target \<Rightarrow> probe"
  se_compactions :: "string \<Rightarrow> (slate_error + compaction_status list option) option"

definition heartbeat_read :: "status_env \<Rightarrow> store_view \<Rightarrow> string \<Rightarrow> heartbeat option" where
  "heartbeat_read E V location =
     (case sv_get V location of
        Inl _ \<Rightarrow> None
      | Inr get \<Rightarrow> (case ga_bytes get of Inl _ \<Rightarrow> None | Inr b \<Rightarrow> se_heartbeat E b))"

definition node_statuses :: "status_env \<Rightarrow> store_view \<Rightarrow> heartbeat_entry list \<Rightarrow> duration \<Rightarrow> node_status list" where
  "node_statuses E V entries timeout =
     map (\<lambda>entry. let body = heartbeat_read E V (he_location entry) in
        \<lparr>ns_node_id = he_node_id entry, ns_live = (he_age entry < timeout),
         ns_heartbeat_age = from_secs (he_age entry div from_secs 1), ns_services = he_services entry,
         ns_sleet_version = map_option hb_sleet_version body, ns_slatedb_version = map_option hb_slatedb_version body\<rparr>)
       (map snd (youngest_per_node entries))"

record status_scan =
  sn_placements :: "service_placement list"
  sn_probes :: "(string \<times> applied_target) list"
  sn_destinations :: "(string, string list) btree"
  sn_unoffered :: "service list"
  sn_warnings :: "string list"

definition start_scan :: "string list \<Rightarrow> status_scan" where
  "start_scan warnings =
     \<lparr>sn_placements = [], sn_probes = [], sn_destinations = [], sn_unoffered = [], sn_warnings = warnings\<rparr>"

definition push_placement :: "service \<Rightarrow> string list \<Rightarrow> status_scan \<Rightarrow> status_scan" where
  "push_placement service nodes s =
     s\<lparr>sn_unoffered := (if nodes = [] then List.insert service (sn_unoffered s) else sn_unoffered s),
       sn_placements := sn_placements s @ [\<lparr>sp_service = service, sp_nodes = nodes\<rparr>]\<rparr>"

definition push_destination :: "string \<Rightarrow> string \<Rightarrow> (string, string list) btree \<Rightarrow> (string, string list) btree" where
  "push_destination destination source m = bt_insert destination (unwrap_or (bt_get m destination) [] @ [source]) m"

definition place_target :: "string \<Rightarrow> string list \<Rightarrow> bool \<Rightarrow> applied_target \<Rightarrow> status_scan \<Rightarrow> status_scan" where
  "place_target url cs mirrors target s =
     (let owner = owner_target url (at_name target) cs;
          s = push_placement Mirror (case owner of None \<Rightarrow> [] | Some n \<Rightarrow> [n]) s
      in if mirrors
         then s\<lparr>sn_destinations := push_destination (at_destination target) (url @ '' target '' @ at_name target) (sn_destinations s),
                sn_probes := sn_probes s @ [(url, target)]\<rparr>
         else s)"

definition place_service ::
  "crates \<Rightarrow> node_view_entry list \<Rightarrow> bool \<Rightarrow> string \<Rightarrow> resolved_services \<Rightarrow> service \<Rightarrow> status_scan \<Rightarrow> status_scan" where
  "place_service X alive mirrors url resolved service s =
     (let cs = candidates alive service in
      if service = Mirror
      then (let applied = applied_targets X url (rv_mirror resolved);
                s = (if mirrors \<and> applied = []
                     then s\<lparr>sn_warnings := sn_warnings s @ [url @ '' has mirror enabled but no applicable target'']\<rparr> else s)
            in fold (place_target url cs mirrors) applied s)
      else push_placement service (owners url service (owner_count resolved service) cs) s)"

definition place_database ::
  "crates \<Rightarrow> sleet_config \<Rightarrow> node_view_entry list \<Rightarrow> bool \<Rightarrow> string \<times> database_config
     \<Rightarrow> database_status list \<times> status_scan \<Rightarrow> database_status list \<times> status_scan" where
  "place_database X config alive mirrors entry acc =
     (let resolved = resolve config (Some (snd entry));
          s = fold (place_service X alive mirrors (fst entry) resolved) (rv_services resolved) ((snd acc)\<lparr>sn_placements := []\<rparr>)
      in (fst acc @ [\<lparr>ds_url = fst entry, ds_services = sn_placements s, ds_queue = None\<rparr>], s))"

definition queue_status :: "status_env \<Rightarrow> string \<Rightarrow> string stop + queue_status_response" where
  "queue_status E url =
     (case db_open (se_crates E) (se_stores E) AtSource url of
        Inl (Failed e) \<Rightarrow> Inl (Failed (service_error_text (se_displays E) e))
      | Inl TimedOut \<Rightarrow> Inl TimedOut
      | Inl Panicked \<Rightarrow> Inl Panicked
      | Inr _ \<Rightarrow>
          (case se_compactions E url of
             None \<Rightarrow> Inl TimedOut
           | Some answer \<Rightarrow>
               (case queue_depth_of answer of
                  Inl e \<Rightarrow> Inl (Failed (dp_slate (se_displays E) e))
                | Inr depth \<Rightarrow> Inr \<lparr>qs_claimable = qd_claimable depth, qs_running = qd_running depth\<rparr>)))"

definition attach_queue :: "status_env \<Rightarrow> database_status \<Rightarrow> (database_status \<times> string list) option" where
  "attach_queue E db =
     (let failed = (\<lambda>e. Some (db, [''failed to read compactions for '' @ ds_url db @ '': '' @ e])) in
      case queue_status E (ds_url db) of
        Inr queue \<Rightarrow> Some (db\<lparr>ds_queue := Some queue\<rparr>, [])
      | Inl (Failed e) \<Rightarrow> failed e
      | Inl TimedOut \<Rightarrow> failed (''timed out after '' @ show_nat (STATUS_PROBE_TIMEOUT div from_secs 1) @ ''s'')
      | Inl Panicked \<Rightarrow> None)"

definition destination_warnings :: "(string, database_config) btree \<Rightarrow> string \<times> string list \<Rightarrow> string list" where
  "destination_warnings databases e =
     (if 1 < length (snd e)
      then [''mirror destinations collide: '' @ join '' and '' (snd e) @ '' all map to '' @ fst e] else [])
     @ (if bt_get databases (fst e) \<noteq> None
        then [''mirror destination '' @ fst e
                @ '' is itself a registered database; its services will fork the mirror's history''] else [])"

definition unoffered_warning :: "service \<Rightarrow> string" where
  "unoffered_warning service = ''no live node offers '' @ as_str service"

definition mirror_statuses :: "status_env \<Rightarrow> (string \<times> applied_target) list \<Rightarrow> mirror_status_response list option" where
  "mirror_statuses E probes =
     those (map (\<lambda>(url, target). mirror_status (se_crates E) (se_stores E) (se_displays E) (se_probe E url target) url target) probes)"

definition queue_depths ::
  "status_env \<Rightarrow> bool \<Rightarrow> database_status list \<Rightarrow> (database_status list \<times> string list) option" where
  "queue_depths E compactions databases =
     (if compactions
      then map_option (\<lambda>rs. (map fst rs, concat (map snd rs))) (those (map (attach_queue E) databases))
      else Some (databases, []))"

definition status :: "status_env \<Rightarrow> store_view \<Rightarrow> datetime \<Rightarrow> bool \<Rightarrow> bool \<Rightarrow> ops_error stop + status_response" where
  "status E V now compactions mirrors =
     (let state = snd (poll (se_crates E) (se_toml E) (se_root E) V default_config_poller) in
      case list_heartbeats (se_root E) V now of
        Inl e \<Rightarrow> Inl (Failed (OStore e))
      | Inr entries \<Rightarrow>
          (let timeout = heartbeat_timeout (sc_node (fs_config state));
               nodes = node_statuses E V entries timeout;
               alive = node_view entries timeout;
               (placed, s) = fold (place_database (se_crates E) (fs_config state) alive mirrors) (fs_databases state)
                  ([], start_scan (map (warning_text (se_displays E)) (fs_warnings state)))
           in case mirror_statuses E (sn_probes s) of
                None \<Rightarrow> Inl Panicked
              | Some lags \<Rightarrow>
                  (case queue_depths E compactions placed of
                     None \<Rightarrow> Inl Panicked
                   | Some (databases, queue_warnings) \<Rightarrow>
                       Inr \<lparr>sr_nodes = nodes, sr_databases = databases, sr_mirrors = lags,
                            sr_warnings = sort (sn_warnings s @ queue_warnings
                              @ concat (map (destination_warnings (fs_databases state)) (sn_destinations s))
                              @ map unoffered_warning (sn_unoffered s))\<rparr>)))"

subsection \<open>mirror sync and mirror restore\<close>

definition applied_target_of ::
  "crates \<Rightarrow> toml_crate \<Rightarrow> fleet_root \<Rightarrow> store_view \<Rightarrow> string \<Rightarrow> string \<Rightarrow> ops_error + string \<times> applied_target" where
  "applied_target_of X T root V db_arg target_name =
     (case canonicalize_database_url X db_arg of
        Inl e \<Rightarrow> Inl (OUrl e)
      | Inr canonical \<Rightarrow>
          (let state = snd (poll X T root V default_config_poller) in
           case bt_get (fs_databases state) canonical of
             None \<Rightarrow> Inl (NotRegistered canonical)
           | Some db \<Rightarrow>
               (let resolved = resolve (fs_config state) (Some db) in
                case List.find (\<lambda>t. at_name t = target_name) (applied_targets X canonical (rv_mirror resolved)) of
                  None \<Rightarrow> Inl (NoSuchTarget target_name canonical)
                | Some applied \<Rightarrow> Inr (canonical, applied))))"

definition mirror_sync ::
  "crates \<Rightarrow> toml_crate \<Rightarrow> object_store_crate \<Rightarrow> fleet_root \<Rightarrow> store_view \<Rightarrow> mirror_env \<Rightarrow> string \<Rightarrow> string \<Rightarrow> string option
     \<Rightarrow> (ops_error stop, mirror_sync_response) act" where
  "mirror_sync X T S root V M db_arg target_name rclone =
     (case applied_target_of X T root V db_arg target_name of
        Inl e \<Rightarrow> fail (Failed e)
      | Inr (canonical, target) \<Rightarrow>
          bnd (open_in X S AtSource canonical) (\<lambda>source.
          bnd (open_in X S AtDest (at_destination target)) (\<lambda>dest.
          bnd (map_err (\<lambda>e. Failed (OMirror e)) (sync_once M source dest target rclone)) (\<lambda>(outcome, report).
          ret \<lparr>sy_database = canonical, sy_target = at_name target, sy_destination = at_destination target,
               sy_head = pc_head outcome, sy_committed = pc_committed outcome,
               sy_manifests_committed = pc_manifests_committed outcome,
               sy_objects_copied = cd_objects (pc_copied outcome), sy_bytes_copied = cd_bytes (pc_copied outcome),
               sy_pruned_manifests = pr_deleted_manifests report, sy_pruned_objects = pr_deleted_objects report\<rparr>))))"

definition mirror_restore ::
  "crates \<Rightarrow> object_store_crate \<Rightarrow> mirror_env \<Rightarrow> time_format \<Rightarrow> string \<Rightarrow> string \<Rightarrow> restore_at
     \<Rightarrow> (ops_error stop, mirror_restore_response) act" where
  "mirror_restore X S M F backup_url dest_url at_point =
     bnd (open_in X S AtSource backup_url) (\<lambda>backup.
     bnd (open_in X S AtDest dest_url) (\<lambda>dest.
     bnd (map_err (\<lambda>e. Failed (OMirror e)) (restore M F backup dest at_point)) (\<lambda>outcome.
     ret \<lparr>rp_backup = db_url backup, rp_destination = db_url dest, rp_manifest_id = ro_manifest_id outcome,
          rp_manifests_committed = ro_manifests_committed outcome, rp_objects_copied = ro_copied_objects outcome,
          rp_bytes_copied = ro_copied_bytes outcome\<rparr>)))"

end
