(* ===== verification/Ops_Correct.thy ===== *)
theory Ops_Correct
  imports Ops
begin

text \<open>
  What the operator commands promise: registering never overwrites and every node's next poll sees
  the database, the placement that \<^verbatim>\<open>sleet status\<close> prints is the one the nodes compute for
  themselves, and \<^verbatim>\<open>sleet mirror sync\<close> touches nothing unless the target applies and leaves a
  mirror when it does.
\<close>

subsection \<open>register\<close>

text \<open>The answers a store that holds \<open>objs\<close> gives to reads, with \<open>tag\<close> its ETags.\<close>

definition object_meta_of :: "(stored \<Rightarrow> string option) \<Rightarrow> string \<times> stored \<Rightarrow> object_meta" where
  "object_meta_of tag px =
     \<lparr>om_location = fst px, om_last_modified = so_modified (snd px), om_size = length (so_bytes (snd px)),
      om_e_tag = tag (snd px)\<rparr>"

definition objects_view :: "(stored \<Rightarrow> string option) \<Rightarrow> fleet_objects \<Rightarrow> store_view" where
  "objects_view tag objs =
     \<lparr>sv_list = (\<lambda>pre. Inr (map (object_meta_of tag) (filter (\<lambda>px. take (length pre + 1) (fst px) = pre @ ''/'') objs))),
      sv_get = (\<lambda>path. case map_of objs path of
          None \<Rightarrow> Inl NotFound
        | Some x \<Rightarrow> Inr \<lparr>ga_e_tag = tag x, ga_bytes = Inr (so_bytes x)\<rparr>)\<rparr>"

lemma file_name_one_segment:
  assumes "percent_documented X"
  shows "filename (p @ ''/'' @ file_name X url) = Some (file_name X url)"
  using file_name_safe_and_injective [OF assms] rsplit_once_append [of "CHR ''/''" "file_name X url" p]
  by (simp add: filename_def)

lemma registered_is_polled:
  assumes doc: "percent_documented X" and utf8: "utf8_valid c" and canon: "canonicalize_database_url X c = Inr c"
    and held: "map_of objs (database_path X root c) = Some x"
  shows "bt_get (fs_databases (snd (poll X T root (objects_view tag objs) p))) c \<noteq> None"
proof -
  let ?V = "objects_view tag objs" and ?path = "database_path X root c"
  let ?m = "object_meta_of tag (?path, x)"
  obtain metas where metas: "root_list ?V (dbs_prefix root) = Inr metas" and m: "?m \<in> set metas"
  proof
    show "root_list ?V (dbs_prefix root) = Inr (map (object_meta_of tag)
        (filter (\<lambda>px. take (length (dbs_prefix root) + 1) (fst px) = dbs_prefix root @ ''/'') objs))"
      by (simp add: root_list_def objects_view_def)
    have "(?path, x) \<in> set objs" using held by (rule map_of_SomeD)
    then show "?m \<in> set (map (object_meta_of tag)
        (filter (\<lambda>px. take (length (dbs_prefix root) + 1) (fst px) = dbs_prefix root @ ''/'') objs))"
      by (auto simp: database_path_def)
  qed
  have "fst (decode_entry X ?m) = Some \<lparr>re_noncanonical = False, re_name = file_name X c, re_url = c, re_meta = ?m\<rparr>"
    using file_name_one_segment [OF doc, of "dbs_prefix root" c] file_name_parses [OF doc utf8] canon
    by (simp add: decode_entry_def object_meta_of_def database_path_def)
  then have e: "c \<in> re_url ` set (decode_entries X metas)" using m by (force simp: set_decode_entries)
  obtain p1 ws1 p2 dbs ws2 where run: "poll_config X T root ?V p = (p1, ws1)" "poll_registry X T root ?V p1 = (p2, dbs, ws2)"
    by (metis prod.exhaust)
  have "c \<in> fst ` set dbs" using poll_registry_databases [OF metas run(2)] e by blast
  then have "bt_get dbs c \<noteq> None" by (simp add: map_of_eq_None_iff)
  then show ?thesis using run by (simp add: poll_def)
qed

lemma put_create_cases:
  assumes "put_create A now path bytes objs = (r, objs')"
  shows "(\<forall>p. p \<noteq> path \<longrightarrow> map_of objs' p = map_of objs p)
    \<and> (map_of objs path \<noteq> None \<longrightarrow> objs' = objs)
    \<and> (map_of objs' path = map_of objs path \<or> map_of objs' path = Some \<lparr>so_bytes = bytes, so_modified = now\<rparr>)
    \<and> (pa_fault A = None \<longrightarrow> map_of objs' path \<noteq> None \<and> (r = Inr () \<longleftrightarrow> map_of objs path = None)
         \<and> (r = Inr () \<or> r = Inl AlreadyExists))
    \<and> (\<forall>e. pa_fault A = Some e \<longrightarrow> r = Inl e)"
  using assms by (auto simp: put_create_def Let_def update_conv' split: option.splits if_splits)

text \<open>
  C22. Registering is create-only and takes effect. Whatever the store answers, no object of the fleet
  root changes and at most the database's registry file, empty, is added, so operator edits are
  never overwritten. When the command reports success the file is there, \<open>created\<close> says whether it
  is new, and the next poll of any node (whatever it had cached) has the database.
\<close>

theorem register_then_polled:
  assumes doc: "percent_documented X" and utf8: "utf8_valid c"
    and c: "canonicalize_database_url X url = Inr c" and canon: "canonicalize_database_url X c = Inr c"
    and honest: "pa_fault A \<noteq> Some AlreadyExists"
    and run: "register X root A now url objs = (r, objs')"
  shows "(\<forall>p. p \<noteq> database_path X root c \<longrightarrow> map_of objs' p = map_of objs p)
    \<and> (map_of objs (database_path X root c) \<noteq> None \<longrightarrow> objs' = objs)
    \<and> (map_of objs (database_path X root c) = None \<longrightarrow>
         map_of objs' (database_path X root c) \<in> {None, Some \<lparr>so_bytes = [], so_modified = now\<rparr>})
    \<and> (\<forall>resp. r = Inr resp \<longrightarrow>
         resp = \<lparr>rr_url = c, rr_file = ''dbs/'' @ file_name X c, rr_created = (map_of objs (database_path X root c) = None)\<rparr>
         \<and> bt_get (fs_databases (snd (poll X T root (objects_view tag objs') p))) c \<noteq> None)"
proof -
  let ?path = "database_path X root c"
  obtain a where put: "put_create A now ?path [] objs = (a, objs')"
    using run c by (auto simp: register_def Let_def split: prod.splits sum.splits store_error.splits)
  note facts = put_create_cases [OF put]
  have "resp = \<lparr>rr_url = c, rr_file = ''dbs/'' @ file_name X c, rr_created = (map_of objs ?path = None)\<rparr>
      \<and> bt_get (fs_databases (snd (poll X T root (objects_view tag objs') p))) c \<noteq> None" if resp: "r = Inr resp" for resp
  proof -
    have none: "pa_fault A = None"
      using run c put facts honest resp
      by (cases "pa_fault A") (auto simp: register_def Let_def split: sum.splits store_error.splits)
    have "resp = \<lparr>rr_url = c, rr_file = ''dbs/'' @ file_name X c, rr_created = (a = Inr ())\<rparr>"
      using run c put facts none resp
      by (auto simp: register_def Let_def split: sum.splits store_error.splits)
    moreover obtain x where "map_of objs' ?path = Some x" using facts none by auto
    ultimately show ?thesis using registered_is_polled [OF doc utf8 canon] facts none by simp
  qed
  then show ?thesis using facts by auto
qed

theorem register_then_polled_witness:
  "\<exists>objs'. register demo_crates demo_root \<lparr>pa_fault = None, pa_applied = False\<rparr> 7 ''s3://b/db'' []
       = (Inr \<lparr>rr_url = ''s3://b/db'', rr_file = ''dbs/s3%3A%2F%2Fb%2Fdb.toml'', rr_created = True\<rparr>, objs')
     \<and> bt_get (fs_databases (snd (poll demo_crates sched_toml demo_root (objects_view (\<lambda>_. None) objs') run_v1))) ''s3://b/db'' \<noteq> None"
proof -
  let ?A = "\<lparr>pa_fault = None, pa_applied = False\<rparr>"
  have name: "file_name demo_crates ''s3://b/db'' = ''s3%3A%2F%2Fb%2Fdb.toml''" by code_simp
  obtain objs' where run: "register demo_crates demo_root ?A 7 ''s3://b/db'' []
      = (Inr \<lparr>rr_url = ''s3://b/db'', rr_file = ''dbs/s3%3A%2F%2Fb%2Fdb.toml'', rr_created = True\<rparr>, objs')"
    by (simp add: register_def demo_canonical Let_def put_create_def name)
  have utf8: "utf8_valid ''s3://b/db''" by (simp add: ascii_utf8_valid between_def byte_of_def)
  show ?thesis
    using register_then_polled [OF demo_crates_documented utf8 demo_canonical demo_canonical _ run,
        of sched_toml "\<lambda>_. None" run_v1] run by auto
qed

subsection \<open>status\<close>

text \<open>What one service of one database adds to the placements, as a function of the live nodes.\<close>

definition service_placements ::
  "crates \<Rightarrow> node_view_entry list \<Rightarrow> string \<Rightarrow> resolved_services \<Rightarrow> service \<Rightarrow> service_placement list" where
  "service_placements X alive url resolved service =
     (if service = Mirror
      then map (\<lambda>a. \<lparr>sp_service = Mirror,
               sp_nodes = (case owner_target url (at_name a) (candidates alive Mirror) of None \<Rightarrow> [] | Some n \<Rightarrow> [n])\<rparr>)
             (applied_targets X url (rv_mirror resolved))
      else [\<lparr>sp_service = service, sp_nodes = owners url service (owner_count resolved service) (candidates alive service)\<rparr>])"

definition database_placements ::
  "crates \<Rightarrow> sleet_config \<Rightarrow> node_view_entry list \<Rightarrow> string \<times> database_config \<Rightarrow> service_placement list" where
  "database_placements X config alive e =
     (let resolved = resolve config (Some (snd e)) in
      concat (map (service_placements X alive (fst e) resolved) (rv_services resolved)))"

lemma place_targets:
  "sn_placements (fold (place_target url cs mirrors) ts s) =
     sn_placements s @ map (\<lambda>a. \<lparr>sp_service = Mirror,
        sp_nodes = (case owner_target url (at_name a) cs of None \<Rightarrow> [] | Some n \<Rightarrow> [n])\<rparr>) ts"
  by (induction ts arbitrary: s) (simp_all add: place_target_def push_placement_def Let_def)

lemma place_service_placements:
  "sn_placements (place_service X alive mirrors url r service s) =
     sn_placements s @ service_placements X alive url r service"
  by (simp add: place_service_def service_placements_def Let_def place_targets push_placement_def)

lemma place_services:
  "sn_placements (fold (place_service X alive mirrors url r) services s) =
     sn_placements s @ concat (map (service_placements X alive url r) services)"
  by (induction services arbitrary: s) (simp_all add: place_service_placements)

lemma place_databases:
  "fst (fold (place_database X config alive mirrors) dbs acc) =
     fst acc @ map (\<lambda>e. \<lparr>ds_url = fst e, ds_services = database_placements X config alive e, ds_queue = None\<rparr>) dbs"
  by (induction dbs arbitrary: acc)
     (simp_all add: place_database_def place_services database_placements_def Let_def)

lemma attach_queue_keeps:
  "attach_queue E db = Some (db', ws) \<Longrightarrow> ds_url db' = ds_url db \<and> ds_services db' = ds_services db"
  by (auto simp: attach_queue_def Let_def split: sum.splits stop.splits)

lemma attach_queues_keep:
  "those (map (attach_queue E) placed) = Some rs \<Longrightarrow>
     map (\<lambda>r. (ds_url (fst r), ds_services (fst r))) rs = map (\<lambda>db. (ds_url db, ds_services db)) placed"
proof (induction placed arbitrary: rs)
  case (Cons db placed)
  then obtain db' ws rs' where "attach_queue E db = Some (db', ws)" "those (map (attach_queue E) placed) = Some rs'"
    "rs = (db', ws) # rs'"
    by (auto split: option.splits)
  then show ?case using attach_queue_keeps Cons.IH by fastforce
qed simp

lemma queue_depths_keep:
  assumes "queue_depths E compactions placed = Some (databases, ws)"
  shows "map (\<lambda>db. (ds_url db, ds_services db)) databases = map (\<lambda>db. (ds_url db, ds_services db)) placed"
  using assms attach_queues_keep [of E placed] by (auto simp: queue_depths_def comp_def split: if_splits)

lemma status_databases:
  assumes "status E V now compactions mirrors = Inr r" and "list_heartbeats (se_root E) V now = Inr entries"
    and "state = snd (poll (se_crates E) (se_toml E) (se_root E) V default_config_poller)"
  shows "map (\<lambda>db. (ds_url db, ds_services db)) (sr_databases r) =
    map (\<lambda>e. (fst e, database_placements (se_crates E) (fs_config state) (fleet_view entries state) e)) (fs_databases state)"
proof -
  obtain placed s where scan: "fold (place_database (se_crates E) (fs_config state) (fleet_view entries state) mirrors) (fs_databases state)
      ([], start_scan (map (warning_text (se_displays E)) (fs_warnings state))) = (placed, s)"
    by fastforce
  obtain ws where "queue_depths E compactions placed = Some (sr_databases r, ws)"
    using assms scan by (auto simp: status_def Let_def fleet_view_def split: option.splits prod.splits)
  from queue_depths_keep [OF this] show ?thesis
    using place_databases [of "se_crates E" "fs_config state" "fleet_view entries state" mirrors "fs_databases state"
        "([], start_scan (map (warning_text (se_displays E)) (fs_warnings state)))"] scan
    by (simp add: comp_def)
qed

lemma polled_databases_wf: "bt_wf (fs_databases (snd (poll X T root V default_config_poller)))"
proof -
  have "poller_ok X default_config_poller"
    by (simp add: default_config_poller_def poller_ok_def default_config_valid Config_Poller.cache_ok_def last_good_def)
  then have ok: "poller_ok X (fst (poll_registry X T root V (fst (poll_config X T root V default_config_poller))))"
    by (intro poll_registry_ok poll_config_ok)
  have "cp_databases (fst (poll_registry X T root V p)) = fst (snd (poll_registry X T root V p))" for p
    by (auto simp: poll_registry_def Let_def split: sum.splits)
  then show ?thesis using ok by (simp add: poll_def poller_ok_def case_prod_unfold Let_def)
qed

text \<open>The nodes that a status response shows for a service of a database.\<close>

definition shown :: "status_response \<Rightarrow> string \<Rightarrow> service \<Rightarrow> string set" where
  "shown r url s =
     {n. \<exists>db \<in> set (sr_databases r). ds_url db = url \<and> (\<exists>p \<in> set (ds_services db). sp_service p = s \<and> n \<in> set (sp_nodes p))}"

lemma service_placements_iff:
  "(\<exists>p \<in> set (service_placements X alive url r s'). sp_service p = s \<and> n \<in> set (sp_nodes p)) \<longleftrightarrow>
     s' = s \<and> (\<exists>t. (url, s, t) \<in> set (service_assignments X n alive url r s))"
  by (auto simp: service_placements_def service_assignments_iff entitled_def split: option.splits) metis+

lemma keyed_map_ex:
  "(\<exists>v. (k, v) \<in> set (map (\<lambda>e. (fst e, f e)) xs) \<and> P v) \<longleftrightarrow> (\<exists>x. (k, x) \<in> set xs \<and> P (f (k, x)))"
  by (auto simp: image_iff) (metis fst_conv)+

lemma database_placements_iff:
  "(\<exists>p \<in> set (database_placements X config alive (url, db)). sp_service p = s \<and> n \<in> set (sp_nodes p)) \<longleftrightarrow>
     s \<in> set (rv_services (resolve config (Some db)))
     \<and> (\<exists>t. (url, s, t) \<in> set (service_assignments X n alive url (resolve config (Some db)) s))"
  (is "?l \<longleftrightarrow> ?r")
proof -
  have "?l \<longleftrightarrow> (\<exists>s' \<in> set (rv_services (resolve config (Some db))).
      \<exists>p \<in> set (service_placements X alive url (resolve config (Some db)) s'). sp_service p = s \<and> n \<in> set (sp_nodes p))"
    by (auto simp: database_placements_def Let_def)
  then show ?thesis unfolding service_placements_iff by blast
qed

lemma placed_nodes_are_live:
  assumes "(url, s, t) \<in> set (service_assignments X n alive url r s)"
  shows "n \<in> nv_node_id ` set alive"
proof -
  have "n \<in> set (candidates alive s)"
    using assms owners_subset [of url s "owner_count r s" "candidates alive s"] owner_target_Some
    by (auto simp: service_assignments_iff entitled_def split: if_splits)
  then show ?thesis by (auto simp: candidates_def)
qed

text \<open>
  C18. What status shows is what the nodes do. If every live node holds the listing and the fleet state
  that status read, then for every database and service the nodes shown are exactly the live nodes
  that compute an assignment of that pair as theirs, whether or not the store probes of the
  response failed; and the databases shown are the registered ones, in order.
\<close>

theorem status_refines_ownership:
  assumes run: "status E V now compactions mirrors = Inr r"
    and entries: "list_heartbeats (se_root E) V now = Inr entries"
    and state: "state = snd (poll (se_crates E) (se_toml E) (se_root E) V default_config_poller)"
  shows "map ds_url (sr_databases r) = map fst (fs_databases state)
    \<and> (\<forall>url s. shown r url s = (\<Union>t. owning (se_crates E) svc entries state (url, s, t)))"
proof (intro conjI allI set_eqI)
  note dbs = status_databases [OF run entries state]
  from arg_cong [OF dbs, of "map fst"] show "map ds_url (sr_databases r) = map fst (fs_databases state)"
    by (simp add: comp_def)
  fix url s n
  let ?live = "fleet_view entries state"
  have wf: "bt_wf (fs_databases state)" unfolding state by (rule polled_databases_wf)
  have "n \<in> shown r url s \<longleftrightarrow> (\<exists>ps. (url, ps) \<in> set (map (\<lambda>db. (ds_url db, ds_services db)) (sr_databases r))
      \<and> (\<exists>p \<in> set ps. sp_service p = s \<and> n \<in> set (sp_nodes p)))"
    by (auto simp: shown_def)
  also have "\<dots> \<longleftrightarrow> (\<exists>db. (url, db) \<in> set (fs_databases state)
      \<and> (\<exists>p \<in> set (database_placements (se_crates E) (fs_config state) ?live (url, db)). sp_service p = s \<and> n \<in> set (sp_nodes p)))"
    unfolding dbs by (rule keyed_map_ex)
  also have "\<dots> \<longleftrightarrow> (\<exists>t. n \<in> owning (se_crates E) svc entries state (url, s, t))"
  proof -
    have "n \<in> owning (se_crates E) svc entries state (url, s, t) \<longleftrightarrow>
        (\<exists>db. (url, db) \<in> set (fs_databases state) \<and> s \<in> set (rv_services (resolve (fs_config state) (Some db)))
           \<and> (url, s, t) \<in> set (service_assignments (se_crates E) n ?live url (resolve (fs_config state) (Some db)) s))" for t
    proof (cases "n \<in> nv_node_id ` set ?live")
      case True
      then have "live_nodes n (svc n) entries (heartbeat_timeout (sc_node (fs_config state))) = ?live"
        by (simp add: fleet_view_def live_nodes_in_view)
      then show ?thesis using True
        by (auto simp: owning_def dom_def owned_assignments_iff [OF wf] bt_get_iff [OF wf])
    next
      case False
      then show ?thesis using placed_nodes_are_live by (fastforce simp: owning_def)
    qed
    then show ?thesis unfolding database_placements_iff by blast
  qed
  finally show "n \<in> shown r url s \<longleftrightarrow> n \<in> (\<Union>t. owning (se_crates E) svc entries state (url, s, t))" by simp
qed

lemma place_targets_probes: "sn_probes (fold (place_target url cs False) ts s) = sn_probes s"
  by (induction ts arbitrary: s) (simp_all add: place_target_def push_placement_def Let_def)

lemma place_services_probes: "sn_probes (fold (place_service X alive False url r) services s) = sn_probes s"
  by (induction services arbitrary: s) (simp_all add: place_service_def Let_def place_targets_probes push_placement_def)

lemma place_databases_probes: "sn_probes (snd (fold (place_database X config alive False) dbs acc)) = sn_probes (snd acc)"
  by (induction dbs arbitrary: acc) (simp_all add: place_database_def Let_def place_services_probes)

lemma status_without_probes:
  assumes "list_heartbeats (se_root E) V now = Inr entries"
  shows "\<exists>r. status E V now False False = Inr r"
proof -
  let ?state = "snd (poll (se_crates E) (se_toml E) (se_root E) V default_config_poller)"
  obtain placed s where scan: "fold (place_database (se_crates E) (fs_config ?state)
      (node_view entries (heartbeat_timeout (sc_node (fs_config ?state)))) False) (fs_databases ?state)
      ([], start_scan (map (warning_text (se_displays E)) (fs_warnings ?state))) = (placed, s)"
    by fastforce
  have "sn_probes s = []"
    using place_databases_probes [of "se_crates E" "fs_config ?state"
        "node_view entries (heartbeat_timeout (sc_node (fs_config ?state)))" "fs_databases ?state"
        "([], start_scan (map (warning_text (se_displays E)) (fs_warnings ?state)))"]
    unfolding scan by (simp add: start_scan_def)
  then show ?thesis using assms scan by (simp add: status_def Let_def mirror_statuses_def queue_depths_def)
qed

definition demo_displays :: displays where
  "demo_displays = \<lparr>dp_store = \<lambda>_. ''store'', dp_slate = sle_message, dp_utf8 = \<lambda>_. ''utf-8'', dp_duration = show_nat\<rparr>"

definition demo_stores :: object_store_crate where
  "demo_stores = \<lparr>oc_vars = [], oc_parse_url_opts = (\<lambda>url _. Inr ''db'')\<rparr>"

definition demo_status_env :: status_env where
  "demo_status_env =
     \<lparr>se_crates = demo_crates, se_toml = sched_toml, se_root = demo_root, se_stores = demo_stores,
      se_displays = demo_displays, se_heartbeat = (\<lambda>_. None),
      se_probe = (\<lambda>_ _. \<lparr>pb_env = Mirror_Invariant.demo_env, pb_world = demo_world, pb_hung = (\<lambda>_. False)\<rparr>),
      se_compactions = (\<lambda>_. None)\<rparr>"

definition demo_heartbeat_meta :: "string \<Rightarrow> int \<Rightarrow> object_meta" where
  "demo_heartbeat_meta name age =
     \<lparr>om_location = ''fleet/nodes/'' @ name, om_last_modified = - age, om_size = 2, om_e_tag = None\<rparr>"

definition demo_status_view :: store_view where
  "demo_status_view =
     \<lparr>sv_list = (\<lambda>p. if p = ''fleet/dbs'' then Inr [demo_meta\<lparr>om_size := 0\<rparr>]
         else Inr [demo_heartbeat_meta ''n1.gm.json'' 5, demo_heartbeat_meta ''n2.g.json'' 7]),
      sv_get = (\<lambda>_. Inl NotFound)\<rparr>"

lemma demo_status_state:
  "snd (poll demo_crates sched_toml demo_root demo_status_view default_config_poller) = Ownership.demo_state"
proof -
  have dec: "decode_entry demo_crates (demo_meta\<lparr>om_size := 0\<rparr>) = (Some (demo_entry\<lparr>re_meta := demo_meta\<lparr>om_size := 0\<rparr>\<rparr>), [])"
    by (simp add: decode_entry_def demo_filename demo_parse_name demo_canonical demo_entry_def)
  show ?thesis
    by (simp add: demo_status_view_def Ownership.demo_state_def poll_def poll_config_def dbs_prefix_def demo_root_def path_join_def
        default_config_poller_def poll_registry_def root_list_def Let_def decode_entries_def dec scan_entries_def
        registry_step_def demo_entry_def file_config_def)
qed

lemma demo_status_lists: "list_heartbeats demo_root demo_status_view 0 = Inr demo_heartbeats"
proof -
  have "heartbeat_entry_of 0 (demo_heartbeat_meta ''n1.gm.json'' 5) = Some (demo_heartbeats ! 0)"
    "heartbeat_entry_of 0 (demo_heartbeat_meta ''n2.g.json'' 7) = Some (demo_heartbeats ! 1)"
    by code_simp+
  then show ?thesis
    by (simp add: list_heartbeats_def demo_status_view_def root_list_def nodes_prefix_def demo_root_def path_join_def
        List.map_filter_simps demo_heartbeats_def)
qed

theorem status_refines_ownership_witness:
  "\<exists>r. status demo_status_env demo_status_view 0 False False = Inr r \<and> map ds_url (sr_databases r) = [''s3://b/db'']
     \<and> shown r ''s3://b/db'' Gc = (\<Union>t. owning demo_crates (\<lambda>_. [Gc]) demo_heartbeats Ownership.demo_state (''s3://b/db'', Gc, t))"
proof -
  have lists: "list_heartbeats (se_root demo_status_env) demo_status_view 0 = Inr demo_heartbeats"
    by (simp add: demo_status_env_def demo_status_lists)
  obtain r where r: "status demo_status_env demo_status_view 0 False False = Inr r" using status_without_probes [OF lists] by blast
  show ?thesis
    using status_refines_ownership [OF r lists refl, of "\<lambda>_. [Gc]"] r
    by (simp add: demo_status_env_def demo_status_state)
qed

subsection \<open>Probes that fail\<close>

text \<open>
  The one thing the commands rely on of the \<^verbatim>\<open>url\<close> crate beyond its results: a URL it printed
  and the program trimmed of slashes parses again (the \<^verbatim>\<open>expect\<close> says so in the source).
\<close>

definition reparses :: "crates \<Rightarrow> bool" where
  "reparses X \<longleftrightarrow> (\<forall>u c. canonicalize_url X u = Inr c \<longrightarrow> (\<exists>p. url_parse X c = Inr p))"

lemma db_open_no_panic: "reparses X \<Longrightarrow> db_open X S side url \<noteq> Inl Panicked"
  by (fastforce simp: db_open_def reparses_def canonicalize_database_url_def Let_def split: sum.splits if_splits)

lemma open_in_no_panic: "reparses X \<Longrightarrow> fst (open_in X S side url w) \<noteq> Inl Panicked"
  using db_open_no_panic [of X S side url]
  by (auto simp: open_in_def fail_def ret_def split: sum.splits) (metis service_stop.elims stop.distinct(1, 3))

definition lag_ok :: "(mirror_status_response \<Rightarrow> bool) \<Rightarrow> 'a lag \<Rightarrow> (mirror_status_response \<Rightarrow> bool) \<Rightarrow> bool" where
  "lag_ok P m Q \<longleftrightarrow>
     (\<forall>st w. P st \<longrightarrow> (case m st w of (r, st', w') \<Rightarrow> r \<noteq> Inl Panicked \<and> ms_error st' = ms_error st \<and> (\<forall>a. r = Inr a \<longrightarrow> Q st')))"

lemma lag_ok_bind: "lag_ok P m Q \<Longrightarrow> (\<And>a. lag_ok Q (f a) R) \<Longrightarrow> lag_ok P (lag_bind m f) R"
  unfolding lag_ok_def lag_bind_def by (fastforce split: prod.splits sum.splits)

lemma lag_ok_ret: "lag_ok P (lag_ret a) P"
  by (simp add: lag_ok_def lag_ret_def)

lemma lag_ok_fail: "lag_ok P (lag_fail (Failed e)) Q"
  by (simp add: lag_ok_def lag_fail_def)

lemma lag_ok_set: "(\<And>st. P st \<Longrightarrow> Q (f st) \<and> ms_error (f st) = ms_error st) \<Longrightarrow> lag_ok P (lag_set f) Q"
  by (simp add: lag_ok_def lag_set_def)

lemma lag_ok_await: "lag_ok P (lag_do (await pb m)) P"
  by (auto simp: lag_ok_def lag_do_def await_def map_err_def split: prod.splits sum.splits)

lemma lag_ok_open: "reparses X \<Longrightarrow> lag_ok P (lag_do (open_in X S side url)) P"
  using open_in_no_panic [of X S side url] by (auto simp: lag_ok_def lag_do_def split: prod.splits) (metis fst_conv)

definition lag_known :: "mirror_status_response \<Rightarrow> bool" where
  "lag_known st \<longleftrightarrow> ms_source_manifest_id st \<noteq> None \<and> ms_manifests_behind st \<noteq> None"

lemma lag_behind_ok: "lag_ok (\<lambda>st. ms_source_manifest_id st \<noteq> None) (lag_behind P source dest sh dh) lag_known"
  unfolding lag_behind_def
  by (intro lag_ok_bind [OF lag_ok_set [where Q = lag_known]] lag_ok_bind [OF lag_ok_await])
     (auto simp: lag_known_def split: option.splits intro!: lag_ok_bind [where Q = lag_known] lag_ok_ret lag_ok_set)

lemma mirror_lag_ok:
  assumes "reparses X"
  shows "lag_ok (\<lambda>_. True) (mirror_lag X S P url target) lag_known"
  unfolding mirror_lag_def
proof (intro lag_ok_bind [OF lag_ok_open [OF assms]] lag_ok_bind [OF lag_ok_await])
  fix source dest source_head
  show "lag_ok (\<lambda>_. True) (case source_head of
       None \<Rightarrow> lag_fail (Failed (OMirror (NotADatabase url)))
     | Some source_head \<Rightarrow>
         lag_bind (lag_set (\<lambda>st. st\<lparr>ms_source_manifest_id := Some (vm_id source_head)\<rparr>)) (\<lambda>_.
         lag_bind (lag_do (await P (admin_read_manifest (pb_env P) dest None))) (\<lambda>dest_head.
         case dest_head of
           None \<Rightarrow> lag_set (\<lambda>st. st\<lparr>ms_manifests_behind := Some (vm_id source_head)\<rparr>)
         | Some dest_head \<Rightarrow> lag_behind P source dest source_head dest_head))) lag_known"
    by (auto split: option.splits intro!: lag_ok_fail lag_ok_set lag_behind_ok
        lag_ok_bind [where Q = "\<lambda>st. ms_source_manifest_id st \<noteq> None"] lag_ok_await simp: lag_known_def simp del: not_None_eq)
qed

lemma mirror_status_total:
  assumes "reparses X"
  shows "\<exists>st. mirror_status X S D P url target = Some st \<and> (ms_error st = None \<longrightarrow> lag_known st)"
proof -
  obtain r st w where run: "mirror_lag X S P url target (unread_status url target) (pb_world P) = (r, st, w)" by (metis prod.exhaust)
  have "r \<noteq> Inl Panicked" "r = Inr () \<longrightarrow> lag_known st"
    using mirror_lag_ok [OF assms] run unfolding lag_ok_def by (fastforce split: prod.splits)+
  then show ?thesis using run by (auto simp: mirror_status_def split: sum.splits stop.splits)
qed

lemma those_total: "(\<And>x. x \<in> set xs \<Longrightarrow> \<exists>y. f x = Some y \<and> Q x y) \<Longrightarrow> \<exists>ys. those (map f xs) = Some ys \<and> list_all2 Q xs ys"
proof (induction xs)
  case (Cons x xs)
  then obtain ys where "those (map f xs) = Some ys" "list_all2 Q xs ys" by auto
  moreover obtain y where "f x = Some y" "Q x y" using Cons.prems by auto
  ultimately show ?case by auto
qed simp

lemma mirror_statuses_total:
  assumes "reparses (se_crates E)"
  shows "\<exists>ms. mirror_statuses E probes = Some ms \<and> list_all2 (\<lambda>_ m. ms_error m = None \<longrightarrow> lag_known m) probes ms"
  unfolding mirror_statuses_def
  by (rule those_total) (use mirror_status_total [OF assms] in \<open>auto split: prod.splits\<close>)

definition queue_failure :: "database_status \<Rightarrow> string \<Rightarrow> bool" where
  "queue_failure db w \<longleftrightarrow> (\<exists>e. w = ''failed to read compactions for '' @ ds_url db @ '': '' @ e)"

lemma attach_queue_total:
  assumes "reparses (se_crates E)"
  shows "\<exists>r. attach_queue E db = Some r \<and> (ds_queue (fst r) = None \<longrightarrow> (\<exists>w \<in> set (snd r). queue_failure (fst r) w))"
proof -
  have "queue_status E (ds_url db) \<noteq> Inl Panicked"
    using db_open_no_panic [OF assms, of "se_stores E" AtSource "ds_url db"]
    by (auto simp: queue_status_def split: sum.splits stop.splits option.splits)
  then show ?thesis by (auto simp: attach_queue_def Let_def queue_failure_def split: sum.splits stop.splits)
qed

lemma queue_depths_total:
  assumes "reparses (se_crates E)"
  shows "\<exists>dbs ws. queue_depths E compactions placed = Some (dbs, ws)
    \<and> (compactions \<longrightarrow> (\<forall>db \<in> set dbs. ds_queue db = None \<longrightarrow> (\<exists>w \<in> set ws. queue_failure db w)))"
proof -
  obtain rs where rs: "those (map (attach_queue E) placed) = Some rs"
    "list_all2 (\<lambda>_ r. ds_queue (fst r) = None \<longrightarrow> (\<exists>w \<in> set (snd r). queue_failure (fst r) w)) placed rs"
    using those_total [where f = "attach_queue E" and xs = placed, OF attach_queue_total [OF assms]] by blast
  have "\<exists>w \<in> set (snd r). queue_failure (fst r) w" if "r \<in> set rs" "ds_queue (fst r) = None" for r
    using rs(2) that by (auto simp: list_all2_conv_all_nth in_set_conv_nth)
  then show ?thesis using rs(1) by (cases compactions) (force simp: queue_depths_def)+
qed

lemma place_targets_probed: "sn_probes (fold (place_target url cs True) ts s) = sn_probes s @ map (\<lambda>t. (url, t)) ts"
  by (induction ts arbitrary: s) (simp_all add: place_target_def push_placement_def Let_def)

definition service_probes :: "crates \<Rightarrow> string \<Rightarrow> resolved_services \<Rightarrow> service \<Rightarrow> (string \<times> applied_target) list" where
  "service_probes X url resolved service =
     (if service = Mirror then map (\<lambda>t. (url, t)) (applied_targets X url (rv_mirror resolved)) else [])"

lemma place_services_probed:
  "sn_probes (fold (place_service X alive True url r) services s) = sn_probes s @ concat (map (service_probes X url r) services)"
  by (induction services arbitrary: s)
     (simp_all add: place_service_def Let_def place_targets_probed push_placement_def service_probes_def)

definition database_probes :: "crates \<Rightarrow> sleet_config \<Rightarrow> string \<times> database_config \<Rightarrow> (string \<times> applied_target) list" where
  "database_probes X config e =
     (let resolved = resolve config (Some (snd e)) in concat (map (service_probes X (fst e) resolved) (rv_services resolved)))"

lemma place_databases_probed:
  "sn_probes (snd (fold (place_database X config alive True) dbs acc)) =
     sn_probes (snd acc) @ concat (map (database_probes X config) dbs)"
  by (induction dbs arbitrary: acc) (simp_all add: place_database_def Let_def place_services_probed database_probes_def)

definition unplaced :: "service_placement list \<Rightarrow> service set" where
  "unplaced ps = sp_service ` {p \<in> set ps. sp_nodes p = []}"

lemma unplaced_Nil [simp]: "unplaced [] = {}"
  by (simp add: unplaced_def)

lemma unplaced_Cons [simp]: "unplaced (p # ps) = (if sp_nodes p = [] then insert (sp_service p) (unplaced ps) else unplaced ps)"
  by (auto simp: unplaced_def)

lemma unplaced_append [simp]: "unplaced (ps @ qs) = unplaced ps \<union> unplaced qs"
  by (auto simp: unplaced_def)

lemma push_unoffered: "set (sn_unoffered (push_placement service nodes s)) =
    set (sn_unoffered s) \<union> unplaced [\<lparr>sp_service = service, sp_nodes = nodes\<rparr>]"
  by (auto simp: push_placement_def)

lemma place_targets_unoffered:
  "set (sn_unoffered (fold (place_target url cs mirrors) ts s)) = set (sn_unoffered s)
     \<union> unplaced (map (\<lambda>a. \<lparr>sp_service = Mirror,
          sp_nodes = (case owner_target url (at_name a) cs of None \<Rightarrow> [] | Some n \<Rightarrow> [n])\<rparr>) ts)"
proof (induction ts arbitrary: s)
  case (Cons t ts)
  have "set (sn_unoffered (place_target url cs mirrors t s)) = set (sn_unoffered s)
      \<union> unplaced [\<lparr>sp_service = Mirror, sp_nodes = (case owner_target url (at_name t) cs of None \<Rightarrow> [] | Some n \<Rightarrow> [n])\<rparr>]"
    by (simp add: place_target_def Let_def push_unoffered)
  then show ?case using Cons by auto
qed simp

lemma place_service_unoffered:
  "set (sn_unoffered (place_service X alive mirrors url r service s)) =
     set (sn_unoffered s) \<union> unplaced (service_placements X alive url r service)"
  by (simp add: place_service_def service_placements_def Let_def place_targets_unoffered push_unoffered)

lemma place_services_unoffered:
  "set (sn_unoffered (fold (place_service X alive mirrors url r) services s)) =
     set (sn_unoffered s) \<union> unplaced (concat (map (service_placements X alive url r) services))"
  by (induction services arbitrary: s) (auto simp: place_service_unoffered)

lemma place_databases_unoffered:
  "set (sn_unoffered (snd (fold (place_database X config alive mirrors) dbs acc))) =
     set (sn_unoffered (snd acc)) \<union> unplaced (concat (map (database_placements X config alive) dbs))"
  by (induction dbs arbitrary: acc)
     (auto simp: place_database_def Let_def place_services_unoffered database_placements_def)



subsection \<open>mirror sync\<close>

lemma open_in_keeps:
  assumes "open_in X S side url w = (r, w')"
  shows "w' = w \<and> (\<forall>db. r = Inr db \<longrightarrow> db_side db = side \<and> db_url db = url)"
  using assms by (auto simp: open_in_def fail_def ret_def db_open_def split: sum.splits)

lemma find_SomeD: "List.find P xs = Some x \<Longrightarrow> P x \<and> x \<in> set xs"
  by (metis find_Some_iff nth_mem)

lemma applied_target_of_Inr:
  assumes "applied_target_of X T root V url name = Inr (c, target)"
  shows "canonicalize_database_url X url = Inr c \<and> at_name target = name \<and> at_destination target \<noteq> c"
proof -
  obtain m where c: "canonicalize_database_url X url = Inr c"
    and "List.find (\<lambda>t. at_name t = name) (applied_targets X c m) = Some target"
    using assms by (auto simp: applied_target_of_def Let_def split: sum.splits option.splits)
  from find_SomeD [OF this(2)] have name: "at_name target = name" and target: "target \<in> set (applied_targets X c m)" by auto
  obtain n t d where "destination_for X c t = Some d" "target = \<lparr>at_name = n, at_destination = d, at_settings = t\<rparr>"
    using target unfolding applied_targets_iff by blast
  then have "at_destination target \<noteq> c" using destination_for_iff [of X c t d] by simp
  then show ?thesis using c name by simp
qed

lemma sync_once_outcome:
  assumes sides: "db_side source = AtSource" "db_side dest = AtDest"
  shows "triple (loop_inv hist body V) (forth body) (onward body w0) (sync_once V source dest target rclone)
    (\<lambda>a w. at_most w0 (pc_head (fst a)) \<and> (\<exists>j \<in> manifest_ids w AtDest. pc_head (fst a) \<le> j))"
proof -
  have held: "stable (loop_inv hist body V) (forth body) (\<lambda>w. at_most w0 h \<and> (\<exists>j \<in> manifest_ids w AtDest. h \<le> j))" for h
    unfolding stable_def forth_def by (meson order_trans)
  have prune: "triple (loop_inv hist body V) (forth body) (\<lambda>w. at_most w0 h \<and> (\<exists>j \<in> manifest_ids w AtDest. h \<le> j))
      (scoped (prune V source dest (at_name target) (at_settings target)))
      (\<lambda>_ w. at_most w0 h \<and> (\<exists>j \<in> manifest_ids w AtDest. h \<le> j))" for h
    by (rule lo.conseq [OF lo.frame [OF prune_loop [OF sides] held]]) auto
  have pass: "triple (loop_inv hist body V) (forth body) (onward body w0)
      (scoped (sync_pass V source dest (at_name target) (at_settings target) rclone))
      (\<lambda>out w. at_most w0 (pc_head out) \<and> (\<exists>j \<in> manifest_ids w AtDest. pc_head out \<le> j))"
    by (rule lo.conseq [OF sync_loop [OF sides]]) auto
  show ?thesis unfolding sync_once_def
    by (rule lo.bnd [OF pass], rule lo.bnd [OF prune], rule lo.ret) simp
qed


definition mirror_toml :: toml_crate where
  "mirror_toml =
     \<lparr>toml_config = (\<lambda>_. Inr (default_sleet_config\<lparr>sc_database := demo_mirror_config (Some ''s3://b/copy'') None\<rparr>)),
      toml_database = (\<lambda>_. Inl ''unsupported'')\<rparr>"

abbreviation mirror_policy :: sleet_config where
  "mirror_policy \<equiv> default_sleet_config\<lparr>sc_database := demo_mirror_config (Some ''s3://b/copy'') None\<rparr>"

abbreviation mirror_view :: store_view where
  "mirror_view \<equiv> demo_view (served ''a'' ''m'') (Inr [demo_meta\<lparr>om_size := 0\<rparr>]) []"

lemma mirror_policy_targets:
  "rm_targets (rv_mirror (resolve mirror_policy db)) =
     [(''dr'', default_resolved_mirror_target\<lparr>rt_url := Some ''s3://b/copy''\<rparr>)]"
  if "db = None \<or> db = Some default_database_config"
  using that
  by (auto simp: resolve_def database_apply_def demo_mirror_config_def default_sleet_config_def default_database_config_def
      default_resolved_services_def mirror_apply_def mirror_target_apply_def Config_Resolve.demo_target_def set_opt_def
      default_resolved_mirror_target_def Let_def unwrap_or_def)

lemma demo_copy_url: "canonicalize_url demo_crates ''s3://b/copy'' = Inr ''s3://b/copy''"
  by code_simp

lemma mirror_policy_scheduler:
  "rc_scheduler (rv_coordinator (resolve mirror_policy None)) = default_resolved_scheduler"
  by (simp add: resolve_def database_apply_def demo_mirror_config_def default_sleet_config_def default_database_config_def
      default_resolved_services_def default_resolved_coordinator_def set_opt_def)

lemma mirror_policy_valid: "validate demo_crates mirror_policy = Inr ()"
proof -
  have name: "validate_target_name ''dr''" by code_simp
  have "check_resolved demo_crates (resolve mirror_policy None) tbl = []" for tbl
    using mirror_policy_targets [of None] mirror_policy_scheduler demo_copy_url
    by (simp add: check_resolved_def check_resolved_target_def push_if_def default_resolved_scheduler_def
        default_resolved_mirror_target_def)
  moreover have "check_database (demo_mirror_config (Some ''s3://b/copy'') None) ''database'' = []"
    using name by (simp add: check_database_def demo_mirror_config_def default_database_config_def check_target_def
        Config_Resolve.demo_target_def push_if_def is_zero_def)
  ultimately show ?thesis
    by (simp add: validate_def Let_def push_if_def default_sleet_config_def default_node_config_def from_secs_def)
qed

lemma mirror_view_state:
  "snd (poll demo_crates mirror_toml demo_root mirror_view default_config_poller) =
     \<lparr>fs_config = mirror_policy, fs_databases = [(''s3://b/db'', default_database_config)], fs_warnings = []\<rparr>"
proof -
  have dec: "decode_entry demo_crates (demo_meta\<lparr>om_size := 0\<rparr>) = (Some (demo_entry\<lparr>re_meta := demo_meta\<lparr>om_size := 0\<rparr>\<rparr>), [])"
    by (simp add: decode_entry_def demo_filename demo_parse_name demo_canonical demo_entry_def)
  have utf8: "from_utf8 ''m'' = Some ''m''" by code_simp
  have config: "config_path demo_root = ''fleet/sleet.toml''" by code_simp
  show ?thesis
    by (simp add: demo_view_def served_def poll_def poll_config_def config read_config_def parse_config_def mirror_toml_def
        utf8 mirror_policy_valid default_config_poller_def poll_registry_def root_list_def Let_def decode_entries_def dec
        scan_entries_def registry_step_def demo_entry_def file_config_def)
qed

lemma demo_applied:
  "applied_target_of demo_crates mirror_toml demo_root mirror_view ''s3://b/db'' ''dr''
   = Inr (''s3://b/db'', \<lparr>at_name = ''dr'', at_destination = ''s3://b/copy'',
       at_settings = default_resolved_mirror_target\<lparr>rt_url := Some ''s3://b/copy''\<rparr>\<rparr>)"
proof -
  have "rm_targets (rv_mirror (resolve mirror_policy (Some default_database_config))) =
      [(''dr'', default_resolved_mirror_target\<lparr>rt_url := Some ''s3://b/copy''\<rparr>)]"
    by (rule mirror_policy_targets) simp
  then have "applied_targets demo_crates ''s3://b/db'' (rv_mirror (resolve mirror_policy (Some default_database_config))) =
      [\<lparr>at_name = ''dr'', at_destination = ''s3://b/copy'', at_settings = default_resolved_mirror_target\<lparr>rt_url := Some ''s3://b/copy''\<rparr>\<rparr>]"
    by (simp add: applied_targets_def destination_for_def mapped_destination_def demo_copy_url List.map_filter_simps
        default_resolved_mirror_target_def)
  then show ?thesis by (simp add: applied_target_of_def demo_canonical mirror_view_state)
qed


end
