(* ===== verification/Task_Body.thy ===== *)
theory Task_Body
  imports Ops_Correct
begin

text \<open>
  \<^verbatim>\<open>src/daemon.rs\<close>, \<open>supervise\<close>: the body of a supervised task, where a node's assignment meets the
  services and the mirror. The supervision of the body (restarts, backoff, the task table) is in
  \<open>Supervision\<close>; here is what one run of it does. \<open>admin\<close> is SlateDB's service for an opened
  database. A mirror body is observed for \<open>k\<close> turns: \<open>True\<close> means it returned.
\<close>

definition open_db :: "crates \<Rightarrow> object_store_crate \<Rightarrow> side \<Rightarrow> string \<Rightarrow> (service_error stop, db_handle) act" where
  "open_db X S side url = (case db_open X S side url of Inl e \<Rightarrow> fail e | Inr db \<Rightarrow> ret db)"

definition mirror_body ::
  "crates \<Rightarrow> object_store_crate \<Rightarrow> mirror_env \<Rightarrow> nat \<Rightarrow> nat \<Rightarrow> (nat \<Rightarrow> bool) \<Rightarrow> string \<Rightarrow> applied_target \<Rightarrow> string option
     \<Rightarrow> (service_error stop, bool) act" where
  "mirror_body X S V k fuel cancelled url applied rclone =
     bnd (open_db X S AtSource url) (\<lambda>source.
     bnd (open_db X S AtDest (at_destination applied)) (\<lambda>dest.
     map_err (\<lambda>e. Failed (SMirror e)) (run_mirror k fuel V cancelled source dest applied rclone)))"

definition service_body ::
  "crates \<Rightarrow> object_store_crate \<Rightarrow> (db_handle \<Rightarrow> slate_admin) \<Rightarrow> string \<Rightarrow> service \<Rightarrow> resolved_services \<Rightarrow> (service_error stop, bool) act" where
  "service_body X S admin url service resolved =
     bnd (open_db X S AtSource url) (\<lambda>db.
     case run_service (admin db) service resolved of
       None \<Rightarrow> fail Panicked
     | Some (Inl e) \<Rightarrow> fail (Failed e)
     | Some (Inr _) \<Rightarrow> ret True)"

definition task_body ::
  "crates \<Rightarrow> object_store_crate \<Rightarrow> (db_handle \<Rightarrow> slate_admin) \<Rightarrow> mirror_env \<Rightarrow> nat \<Rightarrow> nat \<Rightarrow> (nat \<Rightarrow> bool) \<Rightarrow> assignment
     \<Rightarrow> resolved_services \<Rightarrow> string option \<Rightarrow> (service_error stop, bool) act" where
  "task_body X S admin V k fuel cancelled key resolved rclone =
     (case key of (url, service, target) \<Rightarrow>
        if service = Mirror
        then (case target of
                None \<Rightarrow> fail Panicked
              | Some name \<Rightarrow>
                  (case List.find (\<lambda>t. at_name t = name) (applied_targets X url (rv_mirror resolved)) of
                     None \<Rightarrow> ret True
                   | Some applied \<Rightarrow> mirror_body X S V k fuel cancelled url applied rclone))
        else service_body X S admin url service resolved)"

subsection \<open>Bodies of owned assignments\<close>

lemma open_db_keeps:
  assumes "open_db X S side url w = (r, w')"
  shows "w' = w \<and> (\<forall>db. r = Inr db \<longrightarrow> db_side db = side) \<and> (reparses X \<longrightarrow> r \<noteq> Inl Panicked)"
  using assms db_open_no_panic [of X S side url]
  by (auto simp: open_db_def fail_def ret_def db_open_def split: sum.splits)

lemma run_service_total: "s \<noteq> Mirror \<Longrightarrow> run_service a s r \<noteq> None"
  by (cases s) simp_all

lemma service_body_keeps:
  assumes "reparses X" and "s \<noteq> Mirror" and "service_body X S admin url s r w = (res, w')"
  shows "w' = w \<and> res \<noteq> Inl Panicked"
proof -
  obtain a u where u: "open_db X S AtSource url w = (a, u)" by fastforce
  show ?thesis
    using assms(3) u open_db_keeps [OF u] assms(1) run_service_total [OF assms(2), of _ r]
    by (cases a) (auto simp del: not_None_eq simp: service_body_def bnd_def fail_def ret_def split: option.splits sum.splits)
qed

lemma mirror_body_keeps:
  assumes "reparses X" and inv: "loop_inv hist body V w"
    and run: "mirror_body X S V k fuel cancelled url applied rclone w = (res, w')"
  shows "loop_inv hist body V w' \<and> forth body w w' \<and> res \<noteq> Inl Panicked"
proof -
  obtain a u where u: "open_db X S AtSource url w = (a, u)" by fastforce
  obtain b v where v: "open_db X S AtDest (at_destination applied) w = (b, v)" by fastforce
  note opened = open_db_keeps [OF u] open_db_keeps [OF v]
  show ?thesis
  proof (cases a; cases b)
    fix source dest assume h: "a = Inr source" "b = Inr dest"
    have sides: "db_side source = AtSource" "db_side dest = AtDest" using opened h by auto
    obtain c x where c: "run_mirror k fuel V cancelled source dest applied rclone w = (c, x)" by fastforce
    have "res = (case c of Inl e \<Rightarrow> Inl (Failed (SMirror e)) | Inr t \<Rightarrow> Inr t)" "w' = x"
      using run u v opened h c by (auto simp: mirror_body_def bnd_def map_err_def split: sum.splits)
    then show ?thesis using tripleD [OF run_mirror_ok [OF sides] inv TrueI c] by (auto split: sum.splits)
  qed (use run u v opened inv assms(1) forth_refl [of body w] in \<open>auto simp: mirror_body_def bnd_def\<close>)
qed

lemma owned_mirror_target:
  assumes "(url, Mirror, t) \<in> set (service_assignments X n nodes url r Mirror)"
  obtains name a where "t = Some name" "List.find (\<lambda>a. at_name a = name) (applied_targets X url (rv_mirror r)) = Some a"
proof -
  obtain a0 where a0: "a0 \<in> set (applied_targets X url (rv_mirror r))" "t = Some (at_name a0)"
    using assms by (auto simp: service_assignments_iff entitled_def)
  then have "List.find (\<lambda>a. at_name a = at_name a0) (applied_targets X url (rv_mirror r)) \<noteq> None"
    by (auto simp: find_None_iff)
  then show ?thesis using that a0(2) by auto
qed


definition total_crates :: crates where
  "total_crates = demo_crates\<lparr>url_parse := Inr\<rparr>"

abbreviation mirror_state :: fleet_state where
  "mirror_state \<equiv> \<lparr>fs_config = mirror_policy, fs_databases = [(''s3://b/db'', default_database_config)], fs_warnings = []\<rparr>"

lemma mirror_state_owned:
  "map_of (owned_assignments total_crates ''n1'' [Mirror] [] mirror_state) (''s3://b/db'', Mirror, Some ''dr'')
     = Some (resolve mirror_policy (Some default_database_config))"
proof -
  let ?r = "resolve mirror_policy (Some default_database_config)"
  have wf: "bt_wf (fs_databases mirror_state)" by (simp add: bt_wf_def)
  have url: "canonicalize_url total_crates ''s3://b/copy'' = Inr ''s3://b/copy''" by code_simp
  have "rm_targets (rv_mirror ?r) = [(''dr'', default_resolved_mirror_target\<lparr>rt_url := Some ''s3://b/copy''\<rparr>)]"
    by (rule mirror_policy_targets) simp
  then have "applied_targets total_crates ''s3://b/db'' (rv_mirror ?r) =
      [\<lparr>at_name = ''dr'', at_destination = ''s3://b/copy'', at_settings = default_resolved_mirror_target\<lparr>rt_url := Some ''s3://b/copy''\<rparr>\<rparr>]"
    by (simp add: applied_targets_def destination_for_def mapped_destination_def url List.map_filter_simps
        default_resolved_mirror_target_def)
  moreover have "Mirror \<in> set (rv_services ?r)"
    by (simp add: resolve_def database_apply_def demo_mirror_config_def default_sleet_config_def default_database_config_def
        default_resolved_services_def set_opt_def ALL_SERVICES_def)
  moreover have "candidates (live_nodes ''n1'' [Mirror] [] d) Mirror = [''n1'']" for d
    by (simp add: candidates_def live_nodes_def node_view_def youngest_per_node_def)
  moreover have "owner_target ''s3://b/db'' ''dr'' [''n1''] = Some ''n1''"
    using owner_target_None [of "''s3://b/db''" "''dr''" "[''n1'']"] owner_target_Some [of "''s3://b/db''" "''dr''" "[''n1'']"]
    by (cases "owner_target ''s3://b/db'' ''dr'' [''n1'']") auto
  ultimately show ?thesis by (simp add: owned_assignments_iff [OF wf] service_assignments_iff entitled_def)
qed

definition demo_admin :: slate_admin where
  "demo_admin =
     \<lparr>run_gc_with_options = \<lambda>_. Inr (), run_compactor_with_options = \<lambda>_. Inr (), run_compaction_worker_with_options = \<lambda>_. Inr ()\<rparr>"


end
