(* ===== verification/Node_Run.thy ===== *)
theory Node_Run
  imports Node
begin

text \<open>
  \<^verbatim>\<open>src/daemon.rs\<close>, the whole life of a node: \<^verbatim>\<open>Node::run\<close> from its first poll through its ticks to
  the shutdown, and \<^verbatim>\<open>run\<close>, which checks the node id first.

  The loop is driven by a script: for every turn what the store answers, what the clocks show and
  what the supervised tasks do while the loop sleeps; the script ends when the shutdown token
  fires. The tasks' own steps are executable events, and an event that its supervisor is not ready
  for does nothing. \<open>fire_iff\<close> shows that the events are exactly the steps of \<open>Supervision\<close>.
\<close>

subsection \<open>Events of supervised tasks\<close>

datatype sup_event =
    TakeInstance nat
  | EnterBody nat
  | BodyEnds nat "service_error + unit"
  | ReportBackoff nat
  | WakeUp nat
  | BreakSleep nat
  | LeaveLoop nat

fun event_sup :: "sup_event \<Rightarrow> nat" where
  "event_sup (TakeInstance i) = i"
| "event_sup (EnterBody i) = i"
| "event_sup (BodyEnds i r) = i"
| "event_sup (ReportBackoff i) = i"
| "event_sup (WakeUp i) = i"
| "event_sup (BreakSleep i) = i"
| "event_sup (LeaveLoop i) = i"

text \<open>What an event does in the phase its supervisor is in; \<open>None\<close> when it is not possible there.\<close>

fun event_effect :: "duration \<Rightarrow> sup_event \<Rightarrow> phase \<Rightarrow> process \<Rightarrow> process option" where
  "event_effect hb (TakeInstance i) Spawned w = Some (take_instance i w)"
| "event_effect hb (EnterBody i) LoopTop w = Some (goto i InBody (write_state i Running w))"
| "event_effect hb (BodyEnds i r) InBody w = Some (body_ended hb i r w)"
| "event_effect hb (ReportBackoff i) (Failing d) w = Some (goto i (Sleeping d) (write_state i Backoff w))"
| "event_effect hb (WakeUp i) (Sleeping d) w = Some (goto i LoopTop w)"
| "event_effect hb (BreakSleep i) (Sleeping d) w = (if sup_cancelled (pr_sups w ! i) then Some (goto i Exiting w) else None)"
| "event_effect hb (LeaveLoop i) Exiting w = Some (finish i w)"
| "event_effect hb e p w = None"

text \<open>\<open>hb\<close> is the heartbeat interval the supervisor was started with.\<close>

definition fire :: "duration \<Rightarrow> sup_event \<Rightarrow> process \<Rightarrow> process" where
  "fire hb e w =
     (if event_sup e < length (pr_sups w)
      then unwrap_or (event_effect hb e (ph w (event_sup e)) w) w else w)"

subsection \<open>The node's loop\<close>

record turn =
  tn_view :: store_view
  tn_now :: datetime
  tn_wall :: datetime
  tn_work :: "(duration \<times> sup_event) list"

record script =
  st_view :: store_view
  st_now :: datetime
  st_first :: turn
  st_rest :: "turn list"
  st_grace :: "(duration \<times> sup_event) list"
  st_wall :: datetime

definition work :: "(duration \<times> sup_event) list \<Rightarrow> node \<Rightarrow> node" where
  "work events n = n\<lparr>nd_process := fold (\<lambda>(hb, e). fire hb e) events (nd_process n)\<rparr>"

type_synonym timed_effects = "(datetime \<times> effect) list"

fun node_loop :: "node_env \<Rightarrow> turn list \<Rightarrow> node \<Rightarrow> node \<times> timed_effects" where
  "node_loop E [] n = (n, [])"
| "node_loop E (t # ts) n =
     (case tick E (tn_view t) (tn_now t) (tn_wall t) n of
        (n1, effects) \<Rightarrow>
          (case node_loop E ts (work (tn_work t) n1) of
             (n2, later) \<Rightarrow> (n2, map (Pair (tn_wall t)) effects @ later)))"

text \<open>The tasks are cancelled, get a grace period to stop in, and the heartbeat is deleted.\<close>

definition shutdown :: "node_env \<Rightarrow> (duration \<times> sup_event) list \<Rightarrow> datetime \<Rightarrow> node \<Rightarrow> node \<times> timed_effects" where
  "shutdown E grace wall n =
     (work grace (n\<lparr>nd_process := fold (\<lambda>kt. cancel (tk_task (snd kt))) (nd_tasks n) (nd_process n)\<rparr>),
      [(wall, DeleteObject (own_path E))])"

definition node_run :: "node_env \<Rightarrow> script \<Rightarrow> node \<times> timed_effects" where
  "node_run E S =
     (case node_loop E (st_first S # st_rest S) (node_start E (st_view S) (st_now S)) of
        (n, effects) \<Rightarrow>
          (case shutdown E (st_grace S) (st_wall S) n of (n', final) \<Rightarrow> (n', effects @ final)))"

datatype daemon_error = BadNodeId string | RootError open_error

definition daemon_run :: "node_env \<Rightarrow> script \<Rightarrow> daemon_error + node \<times> timed_effects" where
  "daemon_run E S =
     (case validate_node_id (no_node_id (ne_options E)) of
        Inl e \<Rightarrow> Inl (BadNodeId e)
      | Inr _ \<Rightarrow> Inr (node_run E S))"

subsection \<open>Events are the steps of the supervisors\<close>

lemma event_effect_step:
  assumes "event_effect hb e (ph w (event_sup e)) w = Some w'" and "event_sup e < length (pr_sups w)"
  shows "sup_step hb w w'"
  using assms
  by (cases e; cases "ph w (event_sup e)")
    (auto intro: sup_step.intros simp: in_phase_def split: if_splits)

lemma cancelled_update:
  "sup_cancelled s = sup_cancelled (pr_sups w ! i) \<Longrightarrow> i < length (pr_sups w) \<Longrightarrow>
     map sup_cancelled ((pr_sups w)[i := s]) = map sup_cancelled (pr_sups w)"
  by (simp add: map_update) (metis list_update_id nth_map)

lemma event_effect_cancelled:
  assumes "event_effect hb e (ph w (event_sup e)) w = Some w'" and "event_sup e < length (pr_sups w)"
  shows "map sup_cancelled (pr_sups w') = map sup_cancelled (pr_sups w)"
  using assms
  by (cases e; cases "ph w (event_sup e)")
    (auto simp: goto_def take_instance_def write_state_def finish_def body_ended_def Let_def cancelled_update
      split: if_splits sum.splits prod.splits)

lemma fire_cases: "fire hb e w = w \<or> own_step hb w (fire hb e w)"
proof (cases "event_sup e < length (pr_sups w)")
  case True
  then show ?thesis
    using event_effect_step [OF _ True] event_effect_cancelled [OF _ True]
    by (cases "event_effect hb e (ph w (event_sup e)) w") (auto simp: fire_def own_step_def)
qed (simp add: fire_def)

lemma own_step_fires:
  assumes "own_step hb w w'"
  shows "\<exists>e. fire hb e w = w'"
proof -
  have st: "sup_step hb w w'" and same: "map sup_cancelled (pr_sups w') = map sup_cancelled (pr_sups w)"
    using assms by (simp_all add: own_step_def)
  have idle: "fire hb (TakeInstance (length (pr_sups w))) w = w" by (simp add: fire_def)
  from st show ?thesis
  proof (cases rule: sup_step.cases)
    case (Spawn key)
    then show ?thesis using same by (simp add: spawn_def)
  next
    case (Cancel i)
    then have "map sup_cancelled (pr_sups w) ! i" using same by (metis cancel_sel(4) length_map nth_map)
    then have "(pr_sups w)[i := (pr_sups w ! i)\<lparr>sup_cancelled := True\<rparr>] = pr_sups w"
      using Cancel(2) by (simp add: list_update_same_conv)
    then have "w' = w" using Cancel by (simp add: cancel_def)
    then show ?thesis using idle by blast
  next
    case (First i)
    then show ?thesis by (intro exI [of _ "TakeInstance i"]) (simp add: fire_def in_phase_def)
  next
    case (Run i)
    then show ?thesis by (intro exI [of _ "EnterBody i"]) (simp add: fire_def in_phase_def)
  next
    case (Ended i r)
    then show ?thesis by (intro exI [of _ "BodyEnds i r"]) (simp add: fire_def in_phase_def)
  next
    case (Fail i d)
    then show ?thesis by (intro exI [of _ "ReportBackoff i"]) (simp add: fire_def in_phase_def)
  next
    case (Wake i d)
    then show ?thesis by (intro exI [of _ "WakeUp i"]) (simp add: fire_def in_phase_def)
  next
    case (Stop i d)
    then show ?thesis by (intro exI [of _ "BreakSleep i"]) (simp add: fire_def in_phase_def)
  next
    case (Exit i)
    then show ?thesis by (intro exI [of _ "LeaveLoop i"]) (simp add: fire_def in_phase_def)
  qed
qed

text \<open>
  The executable scheduler and the transition relation agree: from any process, the states one
  event leads to are the process itself (an event that is not possible) and exactly those one step
  of a supervisor leads to.
\<close>

lemma fire_iff: "(\<exists>e. fire hb e w = w') \<longleftrightarrow> w' = w \<or> own_step hb w w'"
proof
  assume "w' = w \<or> own_step hb w w'"
  moreover have "fire hb (TakeInstance (length (pr_sups w))) w = w" by (simp add: fire_def)
  ultimately show "\<exists>e. fire hb e w = w'" using own_step_fires by blast
qed (use fire_cases in blast)

subsection \<open>Runs\<close>

text \<open>Every state of a run is one of the states \<open>node_reach\<close> describes.\<close>

lemma work_reach: "node_reach E n \<Longrightarrow> node_reach E (work events n)"
proof (induction events arbitrary: n)
  case (Cons a events)
  obtain hb e where a: "a = (hb, e)" by (cases a)
  have "node_reach E (n\<lparr>nd_process := fire hb e (nd_process n)\<rparr>)"
    using fire_cases [of hb e "nd_process n"] Cons.prems node_reach.work [OF Cons.prems] by auto
  from Cons.IH [OF this] show ?case by (simp add: work_def a)
qed (simp add: work_def)

lemma node_loop_Cons:
  "node_loop E (t # ts) n =
     (fst (node_loop E ts (work (tn_work t) (fst (tick E (tn_view t) (tn_now t) (tn_wall t) n)))),
      map (Pair (tn_wall t)) (snd (tick E (tn_view t) (tn_now t) (tn_wall t) n))
        @ snd (node_loop E ts (work (tn_work t) (fst (tick E (tn_view t) (tn_now t) (tn_wall t) n)))))"
  by (simp split: prod.splits)

declare node_loop.simps(2) [simp del]

lemma node_loop_reach: "node_reach E n \<Longrightarrow> node_reach E (fst (node_loop E ts n))"
proof (induction ts arbitrary: n)
  case (Cons t ts)
  have "node_reach E (work (tn_work t) (fst (tick E (tn_view t) (tn_now t) (tn_wall t) n)))"
    by (rule work_reach [OF node_reach.tick [OF Cons.prems]])
  from Cons.IH [OF this] show ?case by (simp add: node_loop_Cons)
qed simp

definition idle :: "process \<Rightarrow> bool" where
  "idle w \<longleftrightarrow> (\<nexists>k i. live w k i)"

lemma idle_own_step:
  assumes "own_step hb w w'" and "idle w"
  shows "idle w'"
  using assms(2) own_step_sel [OF assms(1)] unfolding idle_def live_def by metis

lemma idle_work: "idle (nd_process n) \<Longrightarrow> idle (nd_process (work events n))"
proof (induction events arbitrary: n)
  case (Cons a events)
  obtain hb e where a: "a = (hb, e)" by (cases a)
  have "idle (fire hb e (nd_process n))"
    using fire_cases [of hb e "nd_process n"] idle_own_step [OF _ Cons.prems] Cons.prems by metis
  with Cons.IH [of "n\<lparr>nd_process := fire hb e (nd_process n)\<rparr>"] show ?case by (simp add: work_def a)
qed (simp add: work_def)

lemma cancelled_idle:
  assumes "tasks_ok T w"
  shows "idle (fold (\<lambda>kt. cancel (tk_task (snd kt))) T w)"
  unfolding idle_def
proof (intro notI, elim exE)
  fix k i assume live: "live (fold (\<lambda>kt. cancel (tk_task (snd kt))) T w) k i"
  then have i: "live w k i" and out: "i \<notin> (\<lambda>kt. tk_task (snd kt)) ` set T"
    using cancel_all_sel [where f = "\<lambda>kt. tk_task (snd kt)" and xs = T and w = w] unfolding live_def by auto
  obtain t where "map_of T k = Some t" "tk_task t = i" using live_task [OF assms i] by blast
  then show False using out map_of_SomeD by force
qed

definition is_heartbeat :: "effect \<Rightarrow> bool" where
  "is_heartbeat e = (case e of PutHeartbeat _ _ \<Rightarrow> True | DeleteObject _ \<Rightarrow> False)"

lemma tick_effects:
  "\<exists>b ls. snd (tick E V now wall n) = PutHeartbeat (own_path E) b # map DeleteObject ls"
  by (simp add: tick_def put_heartbeat_def Let_def split: sum.splits prod.splits) (metis list.map_disc_iff)

lemma loop_heartbeats:
  "\<exists>bs. map snd (filter (\<lambda>e. is_heartbeat (snd e)) (snd (node_loop E ts n))) = map (PutHeartbeat (own_path E)) bs
     \<and> length bs = length ts"
proof (induction ts arbitrary: n)
  case (Cons t ts)
  let ?n = "fst (tick E (tn_view t) (tn_now t) (tn_wall t) n)"
  obtain b ls where eff: "snd (tick E (tn_view t) (tn_now t) (tn_wall t) n) = PutHeartbeat (own_path E) b # map DeleteObject ls"
    using tick_effects by blast
  have dels: "filter (\<lambda>e. is_heartbeat (snd e)) (map (Pair x) (map DeleteObject ls)) = []" for x :: datetime
    by (induction ls) (simp_all add: is_heartbeat_def)
  obtain bs where "map snd (filter (\<lambda>e. is_heartbeat (snd e)) (snd (node_loop E ts (work (tn_work t) ?n))))
      = map (PutHeartbeat (own_path E)) bs" "length bs = length ts"
    using Cons.IH by blast
  then show ?case
    using eff dels by (intro exI [of _ "b # bs"]) (simp add: node_loop_Cons is_heartbeat_def)
qed simp


subsection \<open>What the heartbeat says\<close>

text \<open>The invariants of \<open>Supervision\<close> hold of a node's process, whose tasks the ticks start and cancel.\<close>

definition process_ok :: "process \<Rightarrow> bool" where
  "process_ok w \<longleftrightarrow> instances_ok w \<and> table_ok w \<and> newest_shown w \<and> distinct (map fst (pr_states w))"

lemma states_distinct_step:
  "sup_step hb w w' \<Longrightarrow> distinct (map fst (pr_states w)) \<Longrightarrow> distinct (map fst (pr_states w'))"
  by (erule sup_stepE)
    (auto simp: op_defs set_state_def remove_own_def distinct_update distinct_delete split: option.splits sum.splits prod.splits if_splits)

lemma process_ok_step: "sup_step hb w w' \<Longrightarrow> process_ok w \<Longrightarrow> process_ok w'"
  unfolding process_ok_def using instances_ok_step table_ok_step newest_shown_step states_distinct_step by blast

lemma process_ok_cancel: "process_ok w \<Longrightarrow> process_ok (cancel i w)"
  using process_ok_step [OF sup_step.Cancel] by (cases "i < length (pr_sups w)") (auto simp: cancel_def list_update_beyond)

lemma process_ok_cancels: "process_ok w \<Longrightarrow> process_ok (fold (\<lambda>x. cancel (f x)) xs w)"
  by (induction xs arbitrary: w) (simp_all add: process_ok_cancel)

lemma process_ok_start:
  "process_ok (snd tw) \<Longrightarrow> process_ok (snd (fold (start_task fp) os tw))"
proof (induction os arbitrary: tw)
  case (Cons kr os)
  have "process_ok (snd (start_task fp kr tw))"
    using Cons.prems process_ok_step [OF sup_step.Spawn [of 0 "snd tw" "fst kr"]] by (auto simp: start_task_def split: prod.splits)
  then show ?case using Cons.IH by simp
qed simp

lemma process_ok_reconcile: "process_ok w \<Longrightarrow> process_ok (snd (reconcile fp owned (T, w)))"
  unfolding reconcile_def Let_def prod.case by (intro process_ok_start) (simp add: process_ok_cancels)

lemma node_reach_process_ok: "node_reach E n \<Longrightarrow> process_ok (nd_process n)"
proof (induction rule: node_reach.induct)
  case (start V now)
  show ?case
    by (simp add: node_start_def process_ok_def start_process_def instances_ok_def table_ok_def newest_shown_def newest_def
        split: prod.splits)
next
  case (tick n V now wall)
  show ?case
  proof (cases "list_heartbeats (ne_root E) V wall")
    case (Inl e)
    then show ?thesis using tick tick_failed [OF Inl] poll_if_due_tasks by metis
  next
    case (Inr es)
    have "nd_process (fst (tick E V now wall n)) =
        snd (reconcile (ne_fingerprint E) (node_owned E es (poll_if_due E V now n)) (nd_tasks n, nd_process n))"
      using tick_listed [OF Inr, of now n] by (metis snd_conv)
    then show ?thesis using process_ok_reconcile [OF tick.IH] by simp
  qed
next
  case (work n hb w)
  then show ?case using process_ok_step by (auto simp: own_step_def)
qed

definition counted :: "process \<Rightarrow> service \<Rightarrow> task_state \<Rightarrow> assignment set" where
  "counted w s st = {k. fst (snd k) = s \<and> (\<exists>m. map_of (pr_states w) k = Some (m, st))}"

definition doing :: "process \<Rightarrow> assignment \<Rightarrow> (phase \<Rightarrow> bool) \<Rightarrow> nat \<Rightarrow> bool" where
  "doing w k P i \<longleftrightarrow> i < length (pr_sups w) \<and> sup_key (pr_sups w ! i) = k \<and> P (ph w i)"

lemma entries_of_card:
  assumes "distinct (map fst (pr_states w))"
  shows "entries_of (pr_states w) s st = card (counted w s st)"
proof -
  let ?es = "filter (\<lambda>e. fst (snd (fst e)) = s \<and> snd (snd e) = st) (pr_states w)"
  have "k \<in> fst ` set ?es \<longleftrightarrow> fst (snd k) = s \<and> (\<exists>m. (k, m, st) \<in> set (pr_states w))" for k by force
  then have "counted w s st = fst ` set ?es"
    unfolding counted_def map_of_eq_Some_iff [OF assms] by blast
  moreover have "distinct (map fst ?es)" using assms by (rule distinct_map_filter)
  ultimately show ?thesis using distinct_card [of "map fst ?es"] unfolding entries_of_def by simp
qed

lemma counted_doing:
  assumes "process_ok w" and "k \<in> counted w s st"
  shows "\<exists>i. doing w k (\<lambda>p. st \<in> reports p) i"
proof -
  obtain m where "map_of (pr_states w) k = Some (m, st)" using assms(2) by (auto simp: counted_def)
  then obtain i where "reported_by w k m st i" using table_okD assms(1) unfolding process_ok_def by blast
  then show ?thesis by (auto simp: doing_def reported_by_def)
qed

lemma newest_counted:
  assumes "process_ok w" and "newest w i" and "at_work (ph w i)" and "reports (ph w i) = {st}"
  shows "sup_key (pr_sups w ! i) \<in> counted w (fst (snd (sup_key (pr_sups w ! i)))) st"
  using assms newest_shownD [OF _ assms(2,3)] by (auto simp: process_ok_def counted_def)



end
