(* ===== verification/Fleet.thy ===== *)
theory Fleet
  imports Node_Run Ops_Correct
begin

text \<open>
  The fleet: any number of nodes of \<open>Node\<close> that share nothing but the objects of one root. A node's
  heartbeat reaches the others only through the store: what one writes under \<^verbatim>\<open>nodes/\<close> the others
  list, parse and rank. Here the nodes' own ticks are composed over one store, in any order, and
  the theorem says what the operator of a fleet relies on: when nodes stop coming and going, two
  rounds of ticks later every assignment runs on exactly the nodes it should.

  What the nodes need of the store is the locale \<open>shared_root\<close>, interpreted on the objects of a fleet
  root and on the store of the simulation tests.
\<close>

subsection \<open>Nodes on a shared root\<close>

record 's root_ops =
  ro_put :: "string \<Rightarrow> string \<Rightarrow> datetime \<Rightarrow> 's \<Rightarrow> 's"
  ro_delete :: "string \<Rightarrow> 's \<Rightarrow> 's"
  ro_view :: "'s \<Rightarrow> store_view"

text \<open>A node's write is carried out; \<open>json\<close> is serde's encoding of a heartbeat body.\<close>

fun carry_out :: "'s root_ops \<Rightarrow> (heartbeat \<Rightarrow> string) \<Rightarrow> datetime \<times> effect \<Rightarrow> 's \<Rightarrow> 's" where
  "carry_out R json (stamp, PutHeartbeat path body) s = ro_put R path (json body) stamp s"
| "carry_out R json (stamp, DeleteObject path) s = ro_delete R path s"

record 's fleet =
  fl_root :: 's
  fl_nodes :: "string \<Rightarrow> node"

text \<open>
  One tick of one node: the tasks do their work, then the node puts its heartbeat, reads the store
  as it is after that, and deletes what housekeeping clears. \<open>rt_stamp\<close> is the store's clock, which
  stamps the heartbeat, \<open>rt_wall\<close> the node's own, against which it reads ages.
\<close>

record round_turn =
  rt_node :: string
  rt_work :: "(duration \<times> sup_event) list"
  rt_now :: datetime
  rt_wall :: datetime
  rt_stamp :: datetime

definition fleet_tick ::
  "'s root_ops \<Rightarrow> (heartbeat \<Rightarrow> string) \<Rightarrow> (string \<Rightarrow> node_env) \<Rightarrow> round_turn \<Rightarrow> 's fleet \<Rightarrow> 's fleet" where
  "fleet_tick R json E t F =
     (let i = rt_node t;
          n = work (rt_work t) (fl_nodes F i);
          s = carry_out R json (rt_stamp t, put_heartbeat (E i) n) (fl_root F)
      in case tick (E i) (ro_view R s) (rt_now t) (rt_wall t) n of
           (n', effects) \<Rightarrow>
             \<lparr>fl_root = fold (\<lambda>e. carry_out R json (rt_stamp t, e)) (tl effects) s,
              fl_nodes = (fl_nodes F)(i := n')\<rparr>)"

definition fleet_run ::
  "'s root_ops \<Rightarrow> (heartbeat \<Rightarrow> string) \<Rightarrow> (string \<Rightarrow> node_env) \<Rightarrow> round_turn list \<Rightarrow> 's fleet \<Rightarrow> 's fleet" where
  "fleet_run R json E ts F = fold (fleet_tick R json E) ts F"

text \<open>A node is shut down: its tasks are stopped and its heartbeat is deleted.\<close>

definition fleet_leave ::
  "'s root_ops \<Rightarrow> (heartbeat \<Rightarrow> string) \<Rightarrow> (string \<Rightarrow> node_env) \<Rightarrow> string \<Rightarrow> (duration \<times> sup_event) list \<Rightarrow> datetime
     \<Rightarrow> 's fleet \<Rightarrow> 's fleet" where
  "fleet_leave R json E i grace stamp F =
     (case shutdown (E i) grace stamp (fl_nodes F i) of
        (n, effects) \<Rightarrow> \<lparr>fl_root = fold (carry_out R json) effects (fl_root F), fl_nodes = (fl_nodes F)(i := n)\<rparr>)"

text \<open>Every tick of a schedule decides on the same policy and registry.\<close>

definition holds :: "sleet_config \<Rightarrow> (string, database_config) btree \<Rightarrow> node \<Rightarrow> bool" where
  "holds config dbs n \<longleftrightarrow> fs_config (nd_fleet n) = config \<and> fs_databases (nd_fleet n) = dbs"

fun agreed ::
  "'s root_ops \<Rightarrow> (heartbeat \<Rightarrow> string) \<Rightarrow> (string \<Rightarrow> node_env) \<Rightarrow> sleet_config \<Rightarrow> (string, database_config) btree
     \<Rightarrow> round_turn list \<Rightarrow> 's fleet \<Rightarrow> bool" where
  "agreed R json E config dbs [] F = True"
| "agreed R json E config dbs (t # ts) F =
     (let F' = fleet_tick R json E t F
      in holds config dbs (fl_nodes F' (rt_node t)) \<and> agreed R json E config dbs ts F')"

subsection \<open>Heartbeats in the store\<close>

definition under :: "string \<Rightarrow> string \<Rightarrow> bool" where
  "under pre p \<longleftrightarrow> take (length pre + 1) p = pre @ ''/''"

definition beat :: "string \<Rightarrow> (string \<times> service list) option" where
  "beat p = (case filename p of None \<Rightarrow> None | Some name \<Rightarrow> parse_object_name name)"

text \<open>The entries a listing of \<^verbatim>\<open>nodes/\<close> gives when the store holds \<open>h\<close>, objects by path with their times.\<close>

definition listing :: "(string \<Rightarrow> datetime option) \<Rightarrow> fleet_root \<Rightarrow> datetime \<Rightarrow> heartbeat_entry set" where
  "listing h root wall =
     {\<lparr>he_node_id = j, he_services = ss, he_age = nat (wall - u), he_location = p\<rparr> | j ss p u.
        h p = Some u \<and> under (nodes_prefix root) p \<and> beat p = Some (j, ss)}"

definition member :: "fleet_root \<Rightarrow> node_env \<Rightarrow> string \<Rightarrow> bool" where
  "member root E i \<longleftrightarrow> ne_root E = root \<and> no_node_id (ne_options E) = i \<and> validate_node_id i = Inr i"

lemma heartbeat_entry_of_beat:
  "heartbeat_entry_of now meta =
     map_option (\<lambda>(i, ss). \<lparr>he_node_id = i, he_services = ss, he_age = nat (now - om_last_modified meta),
        he_location = om_location meta\<rparr>) (beat (om_location meta))"
  by (auto simp: heartbeat_entry_of_def beat_def split: option.splits)

lemma nodes_prefix_nonempty: "nodes_prefix root \<noteq> []"
  by (simp add: nodes_prefix_def path_join_def)

lemma own_path_shape:
  "own_path E = nodes_prefix (ne_root E) @ ''/'' @ object_name (no_node_id (ne_options E)) (no_services (ne_options E))"
  using nodes_prefix_nonempty by (simp add: own_path_def node_path_def path_join_def)

lemma own_path_under: "under (nodes_prefix (ne_root E)) (own_path E)"
  by (simp add: under_def own_path_shape)

lemma own_path_beat:
  assumes "member root E i"
  shows "beat (own_path E) = Some (i, sorted_list_of_set (set (no_services (ne_options E))))"
proof -
  have id: "no_node_id (ne_options E) = i" and v: "validate_node_id i = Inr i" using assms by (simp_all add: member_def)
  let ?name = "object_name i (no_services (ne_options E))"
  have "i \<noteq> []" using v by (auto simp: validate_node_id_def split: if_splits)
  moreover have "CHR ''/'' \<notin> set ?name" using heartbeat_name_identifies [OF v v] by blast
  then have "filename (own_path E) = Some ?name"
    using rsplit_once_append [of "CHR ''/''" ?name "nodes_prefix (ne_root E)"] id
    by (simp add: filename_def own_path_shape)
  ultimately show ?thesis by (simp add: beat_def parse_written_name)
qed

lemma own_path_inject:
  "member root (E i) i \<Longrightarrow> member root (E j) j \<Longrightarrow> own_path (E i) = own_path (E j) \<Longrightarrow> i = j"
  using own_path_beat [of root "E i" i] own_path_beat [of root "E j" j] by (metis Pair_inject option.inject)

subsection \<open>What the nodes rely on\<close>

locale shared_root =
  fixes R :: "'s root_ops" and held :: "'s \<Rightarrow> string \<Rightarrow> datetime option" and ok :: "'s \<Rightarrow> bool"
  assumes put: "ok s \<Longrightarrow> ok (ro_put R p b t s) \<and> held (ro_put R p b t s) = (held s)(p \<mapsto> t)"
    and delete: "ok s \<Longrightarrow> ok (ro_delete R p s) \<and> held (ro_delete R p s) = (held s)(p := None)"
    and lists: "ok s \<Longrightarrow> \<exists>metas. sv_list (ro_view R s) pre = Inr metas
      \<and> (\<lambda>m. (om_location m, om_last_modified m)) ` set metas = {(p, t). held s p = Some t \<and> under pre p}"
begin

lemma deletes:
  "ok s \<Longrightarrow> ok (fold (\<lambda>e. carry_out R json (stamp, e)) (map DeleteObject ls) s)
     \<and> held (fold (\<lambda>e. carry_out R json (stamp, e)) (map DeleteObject ls) s) = held s |` (- set ls)"
proof (induction ls arbitrary: s)
  case (Cons l ls)
  show ?case using Cons.IH [of "ro_delete R l s"] delete [OF Cons.prems, of l] by (auto simp: restrict_map_def)
qed (simp add: restrict_map_def)

lemma entries:
  assumes "ok s"
  obtains es where "list_heartbeats root (ro_view R s) wall = Inr es"
    and "set es = listing (held s) root wall"
proof -
  obtain metas where l: "sv_list (ro_view R s) (nodes_prefix root) = Inr metas"
    and m: "(\<lambda>m. (om_location m, om_last_modified m)) ` set metas = {(p, t). held s p = Some t \<and> under (nodes_prefix root) p}"
    using lists [OF assms] by blast
  let ?es = "List.map_filter (heartbeat_entry_of wall) metas"
  have "list_heartbeats root (ro_view R s) wall = Inr ?es" by (simp add: list_heartbeats_def root_list_def l)
  moreover have "e \<in> set ?es \<longleftrightarrow> (\<exists>i ss p t. (p, t) \<in> (\<lambda>m. (om_location m, om_last_modified m)) ` set metas
      \<and> beat p = Some (i, ss) \<and> e = \<lparr>he_node_id = i, he_services = ss, he_age = nat (wall - t), he_location = p\<rparr>)" for e
    by (force simp: List.map_filter_def heartbeat_entry_of_beat image_iff)
  ultimately show thesis using that [of ?es] unfolding m listing_def by blast
qed

end

subsection \<open>A window without comings and goings\<close>

text \<open>
  From \<open>t0\<close> on, within one timeout \<open>T\<close>: only the members \<open>S\<close> tick; every other heartbeat object in
  the store is dead already, or is one a member left under another name before \<open>t0\<close>.
\<close>

definition stale :: "(string \<Rightarrow> datetime option) \<Rightarrow> fleet_root \<Rightarrow> (string \<Rightarrow> node_env) \<Rightarrow> string set \<Rightarrow> datetime \<Rightarrow> duration \<Rightarrow> bool" where
  "stale h root E S t0 T \<longleftrightarrow>
     (\<forall>p t i ss. h p = Some t \<and> under (nodes_prefix root) p \<and> beat p = Some (i, ss) \<and> p \<notin> (\<lambda>i. own_path (E i)) ` S
        \<longrightarrow> (if i \<in> S then t < t0 else t + int T \<le> t0))"

definition fresh :: "(string \<Rightarrow> datetime option) \<Rightarrow> (string \<Rightarrow> node_env) \<Rightarrow> string set \<Rightarrow> datetime \<Rightarrow> bool" where
  "fresh h E A t0 \<longleftrightarrow> (\<forall>i \<in> A. \<exists>t. h (own_path (E i)) = Some t \<and> t0 \<le> t)"

text \<open>The only heartbeat of a member of \<open>A\<close> is the one under its current name.\<close>

definition tidy :: "(string \<Rightarrow> datetime option) \<Rightarrow> fleet_root \<Rightarrow> (string \<Rightarrow> node_env) \<Rightarrow> string set \<Rightarrow> bool" where
  "tidy h root E A \<longleftrightarrow>
     (\<forall>p i ss. h p \<noteq> None \<and> under (nodes_prefix root) p \<and> beat p = Some (i, ss) \<and> i \<in> A \<longrightarrow> p = own_path (E i))"

definition announced :: "(string \<Rightarrow> datetime option) \<Rightarrow> fleet_root \<Rightarrow> (string \<Rightarrow> node_env) \<Rightarrow> string set \<Rightarrow> datetime \<Rightarrow> bool" where
  "announced h root E A t0 \<longleftrightarrow> fresh h E A t0 \<and> tidy h root E A"

definition in_window :: "datetime \<Rightarrow> duration \<Rightarrow> round_turn \<Rightarrow> bool" where
  "in_window t0 T t \<longleftrightarrow> t0 \<le> rt_wall t \<and> rt_wall t < t0 + int T \<and> t0 \<le> rt_stamp t"

definition services_of :: "node_env \<Rightarrow> service set" where
  "services_of E = set (no_services (ne_options E))"

definition offered :: "(string \<Rightarrow> node_env) \<Rightarrow> string set \<Rightarrow> service \<Rightarrow> string set" where
  "offered E S s = {i \<in> S. s \<in> services_of (E i)}"

text \<open>What member \<open>i\<close> has to run, by the ranking of all members that offer the service.\<close>

definition duty ::
  "crates \<Rightarrow> (string \<Rightarrow> node_env) \<Rightarrow> string set \<Rightarrow> sleet_config \<Rightarrow> (string, database_config) btree \<Rightarrow> string \<Rightarrow> assignment \<Rightarrow> bool" where
  "duty X E S config dbs i k =
     (case k of (url, s, t) \<Rightarrow>
        \<exists>db r. bt_get dbs url = Some db \<and> r = resolve config (Some db) \<and> s \<in> set (rv_services r)
          \<and> entitled X (sorted_list_of_set (offered E S s)) url r s t i)"

lemma housekeeping_iff:
  assumes "member root Ei i"
  shows "l \<in> set (housekeeping root (ne_options Ei) es state) \<longleftrightarrow>
    (\<exists>e \<in> set es. he_location e = l \<and> (he_node_id e = i \<and> l \<noteq> own_path Ei
       \<or> heartbeat_timeout (sc_node (fs_config state)) * 10 \<le> he_age e))"
  using assms by (auto simp: housekeeping_def Let_def member_def own_path_def)

text \<open>A tick clears a member's former names and no current heartbeat of the window.\<close>

lemma housekeeping_spares_fresh:
  assumes "set es = listing h root (rt_wall t)" and i: "member root Ei i" and j: "member root Ej j" and same: "i = j \<longrightarrow> Ei = Ej"
    and "h (own_path Ej) = Some u" "t0 \<le> u" and "in_window t0 T t"
    and "heartbeat_timeout (sc_node (fs_config state)) = T"
  shows "own_path Ej \<notin> set (housekeeping root (ne_options Ei) es state)"
proof
  assume "own_path Ej \<in> set (housekeeping root (ne_options Ei) es state)"
  then obtain e where e: "e \<in> set es" "he_location e = own_path Ej"
    "he_node_id e = i \<and> own_path Ej \<noteq> own_path Ei \<or> T * 10 \<le> he_age e"
    using assms(8) by (auto simp: housekeeping_iff [OF i])
  then have "he_node_id e = j" "he_age e = nat (rt_wall t - u)"
    using assms(1,5) own_path_beat [OF j] by (auto simp: listing_def)
  then show False using e(3) same assms(6,7) by (auto simp: in_window_def)
qed

lemma housekeeping_clears_former:
  assumes "set es = listing h root wall" and i: "member root Ei i" and "h p = Some u" and "under (nodes_prefix root) p"
    and "beat p = Some (i, ss)" and "p \<noteq> own_path Ei"
  shows "p \<in> set (housekeeping root (ne_options Ei) es state)"
proof -
  have "\<lparr>he_node_id = i, he_services = ss, he_age = nat (wall - u), he_location = p\<rparr> \<in> set es"
    using assms(1,3-5) by (auto simp: listing_def)
  then show ?thesis using assms(6) by (force simp: housekeeping_iff [OF i])
qed

context shared_root
begin

lemma tick_of:
  assumes "ok (fl_root F)" and i: "i = rt_node t" "member root (E i) i" and F': "F' = fleet_tick R json E t F"
    and n: "n = work (rt_work t) (fl_nodes F i)"
  obtains s es where "ok s" and "held s = (held (fl_root F))(own_path (E i) \<mapsto> rt_stamp t)"
    and "set es = listing (held s) root (rt_wall t)"
    and "list_heartbeats (ne_root (E i)) (ro_view R s) (rt_wall t) = Inr es"
    and "fl_nodes F' = (fl_nodes F)(i := fst (tick (E i) (ro_view R s) (rt_now t) (rt_wall t) n))"
    and "ok (fl_root F')"
    and "held (fl_root F') = held s |` (- set (housekeeping root (ne_options (E i)) es (nd_fleet (fl_nodes F' i))))"
proof -
  have root: "ne_root (E i) = root" using i(2) by (simp add: member_def)
  define s where "s = carry_out R json (rt_stamp t, put_heartbeat (E i) n) (fl_root F)"
  have s: "ok s" "held s = (held (fl_root F))(own_path (E i) \<mapsto> rt_stamp t)"
    using put [OF assms(1)] by (simp_all add: s_def put_heartbeat_def)
  obtain es where es: "list_heartbeats root (ro_view R s) (rt_wall t) = Inr es"
    "set es = listing (held s) root (rt_wall t)"
    by (rule entries [OF s(1)])
  obtain n' effects where run: "tick (E i) (ro_view R s) (rt_now t) (rt_wall t) n = (n', effects)" by fastforce
  let ?ls = "housekeeping root (ne_options (E i)) es (nd_fleet n')"
  have eff: "tl effects = map DeleteObject ?ls"
    using run es(1) root by (auto simp: tick_def Let_def split: prod.splits)
  have F'_eq: "F' = \<lparr>fl_root = fold (\<lambda>e. carry_out R json (rt_stamp t, e)) (tl effects) s, fl_nodes = (fl_nodes F)(i := n')\<rparr>"
    using F' run by (simp add: fleet_tick_def Let_def i(1) [symmetric] n [symmetric] s_def [symmetric])
  show thesis
  proof (rule that [OF s es(2)])
    show "list_heartbeats (ne_root (E i)) (ro_view R s) (rt_wall t) = Inr es" using es(1) root by simp
    show "fl_nodes F' = (fl_nodes F)(i := fst (tick (E i) (ro_view R s) (rt_now t) (rt_wall t) n))"
      by (simp add: F'_eq run)
    show "ok (fl_root F')" "held (fl_root F') = held s |` (- set (housekeeping root (ne_options (E i)) es (nd_fleet (fl_nodes F' i))))"
      using deletes [OF s(1), of json "rt_stamp t" ?ls] by (simp_all add: F'_eq eff)
  qed
qed

lemma tick_keeps:
  assumes "ok (fl_root F)" and S: "\<forall>j \<in> S. member root (E j) j" and i: "i = rt_node t" "i \<in> S"
    and win: "in_window t0 T t" and A: "A \<subseteq> S" "announced (held (fl_root F)) root E A t0" and st: "stale (held (fl_root F)) root E S t0 T"
    and F': "F' = fleet_tick R json E t F"
    and T: "heartbeat_timeout (sc_node (fs_config (nd_fleet (fl_nodes F' i)))) = T"
  shows "ok (fl_root F') \<and> announced (held (fl_root F')) root E (insert i A) t0 \<and> stale (held (fl_root F')) root E S t0 T"
proof -
  have mem: "member root (E i) i" using S i(2) by blast
  obtain s es where s: "ok s" "held s = (held (fl_root F))(own_path (E i) \<mapsto> rt_stamp t)"
    and es: "set es = listing (held s) root (rt_wall t)"
    and "list_heartbeats (ne_root (E i)) (ro_view R s) (rt_wall t) = Inr es"
    and "fl_nodes F' = (fl_nodes F)(i := fst (tick (E i) (ro_view R s) (rt_now t) (rt_wall t) (work (rt_work t) (fl_nodes F i))))"
    and F'_ok: "ok (fl_root F')"
    and F'_held: "held (fl_root F') = held s |` (- set (housekeeping root (ne_options (E i)) es (nd_fleet (fl_nodes F' i))))"
    by (rule tick_of [OF assms(1) i(1) mem F' refl])
  let ?ls = "housekeeping root (ne_options (E i)) es (nd_fleet (fl_nodes F' i))"
  have "fresh (held s) E (insert i A) t0"
    using A(2) win by (auto simp: s(2) announced_def fresh_def in_window_def)
  moreover have "own_path (E j) \<notin> set ?ls" if "j \<in> insert i A" "held s (own_path (E j)) = Some u" "t0 \<le> u" for j u
    using that A(1) i(2) S by (intro housekeeping_spares_fresh [OF es mem _ _ that(2,3) win T, of j]) auto
  ultimately have "fresh (held (fl_root F')) E (insert i A) t0"
    unfolding fresh_def F'_held by (metis ComplI restrict_in)
  moreover have "p = own_path (E j)"
    if p: "(held s |` (- set ?ls)) p \<noteq> None" "under (nodes_prefix root) p" "beat p = Some (j, ss)" "j \<in> insert i A" for p j ss
  proof -
    obtain u where u: "held s p = Some u" and kept: "p \<notin> set ?ls" using p(1) by (auto simp: restrict_map_def split: if_splits)
    show ?thesis
    proof (cases "p = own_path (E i)")
      case True
      then show ?thesis using own_path_beat [OF mem] p(3) by auto
    next
      case False
      then have "j \<noteq> i" using housekeeping_clears_former [OF es mem u p(2)] p(3) kept by blast
      then show ?thesis using A(2) p(2-4) u False unfolding announced_def tidy_def s(2) by auto
    qed
  qed
  then have "tidy (held (fl_root F')) root E (insert i A)" unfolding tidy_def F'_held by blast
  moreover have "held (fl_root F) p = Some u" if "held (fl_root F') p = Some u" "p \<notin> (\<lambda>i. own_path (E i)) ` S" for p u
    using that i(2) by (auto simp: F'_held s(2) restrict_map_def split: if_splits)
  then have "stale (held (fl_root F')) root E S t0 T" using st unfolding stale_def by blast
  ultimately show ?thesis using F'_ok unfolding announced_def by blast
qed

end

text \<open>In the window every member sees the same live set: all members, each with its own services.\<close>

definition member_entry :: "(string \<Rightarrow> node_env) \<Rightarrow> datetime \<Rightarrow> string \<Rightarrow> datetime \<Rightarrow> heartbeat_entry" where
  "member_entry E wall j u =
     \<lparr>he_node_id = j, he_services = sorted_list_of_set (services_of (E j)), he_age = nat (wall - u),
      he_location = own_path (E j)\<rparr>"

lemma member_listed:
  assumes "member root (E j) j" and "h (own_path (E j)) = Some u"
  shows "member_entry E wall j u \<in> listing h root wall"
  using assms own_path_beat [OF assms(1)] own_path_under [of "E j"]
  by (auto simp: listing_def member_entry_def services_of_def member_def)

lemma listed_cases [consumes 3]:
  assumes "e \<in> listing h root wall" and S: "\<forall>j \<in> S. member root (E j) j" and "stale h root E S t0 T"
  obtains (current) j u where "j \<in> S" "h (own_path (E j)) = Some u" "e = member_entry E wall j u"
    | (former) u where "he_node_id e \<in> S" "u < t0" "he_age e = nat (wall - u)"
    | (dead) u where "he_node_id e \<notin> S" "u + int T \<le> t0" "he_age e = nat (wall - u)"
proof -
  obtain j ss p u where e: "e = \<lparr>he_node_id = j, he_services = ss, he_age = nat (wall - u), he_location = p\<rparr>"
    "h p = Some u" "under (nodes_prefix root) p" "beat p = Some (j, ss)"
    using assms(1) by (auto simp: listing_def)
  show thesis
  proof (cases "p \<in> (\<lambda>i. own_path (E i)) ` S")
    case True
    then obtain j' where j': "j' \<in> S" "p = own_path (E j')" by blast
    then have "j = j'" "ss = sorted_list_of_set (services_of (E j'))"
      using e(4) own_path_beat [OF S [THEN bspec, OF j'(1)]] j'(2) by (auto simp: services_of_def)
    then show thesis using e(1,2) j' by (intro that(1) [of j' u]) (simp_all add: member_entry_def)
  next
    case False
    then have "if j \<in> S then u < t0 else u + int T \<le> t0" using assms(3) e(2-4) unfolding stale_def by blast
    then show thesis using that(2,3) [of u] e(1) by (auto split: if_splits)
  qed
qed

lemma window_view:
  assumes es: "set es = listing h root wall" and S: "\<forall>j \<in> S. member root (E j) j"
    and fresh: "fresh h E S t0" and st: "stale h root E S t0 T" and win: "t0 \<le> wall" "wall < t0 + int T"
  shows "is_youngest es e \<and> he_age e < T \<longleftrightarrow> (\<exists>j \<in> S. \<exists>u. h (own_path (E j)) = Some u \<and> e = member_entry E wall j u)"
proof
  have own: "\<exists>u. h (own_path (E j)) = Some u \<and> t0 \<le> u" if "j \<in> S" for j using fresh that by (auto simp: fresh_def)
  show "\<exists>j \<in> S. \<exists>u. h (own_path (E j)) = Some u \<and> e = member_entry E wall j u" if y: "is_youngest es e \<and> he_age e < T"
  proof -
    have "e \<in> listing h root wall" using is_youngest_in y es by blast
    from this S st show ?thesis
    proof (cases rule: listed_cases)
      case (former u)
      obtain v where v: "h (own_path (E (he_node_id e))) = Some v" "t0 \<le> v" using own former(1) by blast
      have "he_age e \<le> he_age (member_entry E wall (he_node_id e) v)"
        using y member_listed [of root E "he_node_id e" h v wall, OF S [THEN bspec, OF former(1)] v(1)]
        by (intro is_youngest_min [of es]) (simp_all add: es, simp add: member_entry_def)
      then show ?thesis using former v(2) win by (simp add: member_entry_def)
    qed (use y win in auto)
  qed
  show "is_youngest es e \<and> he_age e < T" if e: "\<exists>j \<in> S. \<exists>u. h (own_path (E j)) = Some u \<and> e = member_entry E wall j u"
  proof -
    from e obtain j u where j: "j \<in> S" "h (own_path (E j)) = Some u" "e = member_entry E wall j u" by blast
    then have u: "t0 \<le> u" using own by fastforce
    have "is_youngest es e"
    proof (rule is_youngestI)
      show "e \<in> set es" unfolding es j(3) by (rule member_listed [of root E j h, OF S [THEN bspec, OF j(1)] j(2)])
      fix x assume x: "x \<in> set es" "he_node_id x = he_node_id e"
      have "x \<in> listing h root wall" using x(1) es by blast
      from this S st show "x = e \<or> he_age e < he_age x"
        by (cases rule: listed_cases) (use x(2) j u win in \<open>auto simp: member_entry_def\<close>)
    qed
    then show ?thesis using j u win by (simp add: member_entry_def)
  qed
qed

lemma window_candidates:
  assumes "set es = listing h root wall" and "finite S" and "\<forall>j \<in> S. member root (E j) j"
    and "fresh h E S t0" and "stale h root E S t0 T" and "t0 \<le> wall" "wall < t0 + int T" and i: "i \<in> S"
  shows "candidates (live_nodes i svc es T) s = sorted_list_of_set (offered E S s)"
proof -
  note view = window_view [OF assms(1,3-7)]
  have members: "v \<in> set (node_view es T) \<longleftrightarrow> (\<exists>j \<in> S. \<exists>u. h (own_path (E j)) = Some u
      \<and> v = \<lparr>nv_node_id = j, nv_services = sorted_list_of_set (services_of (E j)), nv_age = nat (wall - u)\<rparr>)" for v
  proof -
    have "v \<in> set (node_view es T) \<longleftrightarrow> (\<exists>e. (is_youngest es e \<and> he_age e < T)
        \<and> v = \<lparr>nv_node_id = he_node_id e, nv_services = he_services e, nv_age = he_age e\<rparr>)"
      by (simp add: node_view_iff conj_assoc)
    also have "\<dots> \<longleftrightarrow> (\<exists>e. (\<exists>j \<in> S. \<exists>u. h (own_path (E j)) = Some u \<and> e = member_entry E wall j u)
        \<and> v = \<lparr>nv_node_id = he_node_id e, nv_services = he_services e, nv_age = he_age e\<rparr>)"
      by (simp only: view)
    also have "\<dots> \<longleftrightarrow> (\<exists>j \<in> S. \<exists>u. h (own_path (E j)) = Some u \<and> v = \<lparr>nv_node_id = he_node_id (member_entry E wall j u),
        nv_services = he_services (member_entry E wall j u), nv_age = he_age (member_entry E wall j u)\<rparr>)"
      by blast
    finally show ?thesis by (simp add: member_entry_def)
  qed
  have own: "\<exists>u. h (own_path (E j)) = Some u" if "j \<in> S" for j using assms(4) that by (auto simp: fresh_def)
  have "i \<in> nv_node_id ` set (node_view es T)" using own [OF i] i by (force simp: members)
  then have live: "live_nodes i svc es T = node_view es T" by (rule live_nodes_in_view)
  have "sorted_wrt (<) (candidates (node_view es T) s)"
    using node_view_ids_sorted [of es T] by (simp add: candidates_def sorted_wrt_map sorted_wrt_filter)
  moreover have "j \<in> set (candidates (node_view es T) s) \<longleftrightarrow> j \<in> offered E S s" for j
    using own [of j] unfolding candidates_def set_map set_filter image_iff Bex_def mem_Collect_eq members offered_def
    by (auto simp: services_of_def) force
  moreover have "finite (offered E S s)" using assms(2) by (simp add: offered_def)
  ultimately show ?thesis
    unfolding live by (intro strict_sorted_equal) auto
qed

subsection \<open>Convergence\<close>

definition runs :: "node \<Rightarrow> assignment \<Rightarrow> bool" where
  "runs n k \<longleftrightarrow> (\<exists>i. live (nd_process n) k i)"

definition settled ::
  "crates \<Rightarrow> (string \<Rightarrow> node_env) \<Rightarrow> string set \<Rightarrow> sleet_config \<Rightarrow> (string, database_config) btree \<Rightarrow> (string \<Rightarrow> node) \<Rightarrow> string \<Rightarrow> bool" where
  "settled X E S config dbs nodes i \<longleftrightarrow> (\<forall>k. runs (nodes i) k \<longleftrightarrow> duty X E S config dbs i k)"

lemma owned_duty:
  assumes wf: "bt_wf dbs" and h: "holds config dbs n" and T: "T = heartbeat_timeout (sc_node config)"
    and i: "no_node_id (ne_options Ei) = i" "ne_crates Ei = X"
    and cs: "\<And>s. candidates (live_nodes i (no_services (ne_options Ei)) es T) s = sorted_list_of_set (offered E S s)"
  shows "k \<in> dom (map_of (node_owned Ei es n)) \<longleftrightarrow> duty X E S config dbs i k"
proof -
  have fs: "fs_config (nd_fleet n) = config" "fs_databases (nd_fleet n) = dbs" using h by (simp_all add: holds_def)
  obtain url s t where k: "k = (url, s, t)" by (metis surj_pair)
  have "k \<in> dom (map_of (node_owned Ei es n)) \<longleftrightarrow> (\<exists>r. map_of (node_owned Ei es n) k = Some r)" by blast
  also have "\<dots> \<longleftrightarrow> duty X E S config dbs i k"
    unfolding node_owned_def k duty_def prod.case i
    using wf by (auto simp: owned_assignments_iff service_assignments_iff fs T [symmetric] cs)
  finally show ?thesis .
qed

context shared_root
begin

definition window :: "fleet_root \<Rightarrow> crates \<Rightarrow> (string \<Rightarrow> node_env) \<Rightarrow> string set \<Rightarrow> datetime \<Rightarrow> duration \<Rightarrow> 's fleet \<Rightarrow> bool" where
  "window root X E S t0 T F \<longleftrightarrow>
     finite S \<and> (\<forall>j \<in> S. member root (E j) j \<and> ne_crates (E j) = X \<and> node_reach (E j) (fl_nodes F j))
     \<and> ok (fl_root F) \<and> stale (held (fl_root F)) root E S t0 T"

lemma window_step:
  assumes w: "window root X E S t0 T F" and t: "rt_node t \<in> S" "in_window t0 T t"
    and A: "A \<subseteq> S" "announced (held (fl_root F)) root E A t0"
    and F': "F' = fleet_tick R json E t F" and h: "holds config dbs (fl_nodes F' (rt_node t))"
    and T: "T = heartbeat_timeout (sc_node config)"
  shows "window root X E S t0 T F' \<and> announced (held (fl_root F')) root E (insert (rt_node t) A) t0
    \<and> (\<forall>j. j \<noteq> rt_node t \<longrightarrow> fl_nodes F' j = fl_nodes F j)
    \<and> (bt_wf dbs \<and> A = S \<longrightarrow> settled X E S config dbs (fl_nodes F') (rt_node t))"
proof -
  let ?i = "rt_node t"
  let ?n = "work (rt_work t) (fl_nodes F ?i)"
  have S: "\<forall>j \<in> S. member root (E j) j" and fin: "finite S" and ok: "ok (fl_root F)"
    and st: "stale (held (fl_root F)) root E S t0 T" and reach: "\<forall>j \<in> S. node_reach (E j) (fl_nodes F j)"
    and X: "ne_crates (E ?i) = X"
    using w t(1) by (simp_all add: window_def)
  have mem: "member root (E ?i) ?i" using S t(1) by blast
  obtain s es where s: "ok s" "held s = (held (fl_root F))(own_path (E ?i) \<mapsto> rt_stamp t)"
    and es: "set es = listing (held s) root (rt_wall t)"
    and list: "list_heartbeats (ne_root (E ?i)) (ro_view R s) (rt_wall t) = Inr es"
    and nodes: "fl_nodes F' = (fl_nodes F)(?i := fst (tick (E ?i) (ro_view R s) (rt_now t) (rt_wall t) ?n))"
    and "ok (fl_root F')"
    and "held (fl_root F') = held s |` (- set (housekeeping root (ne_options (E ?i)) es (nd_fleet (fl_nodes F' ?i))))"
    by (rule tick_of [OF ok refl mem F' refl])
  have keeps: "ok (fl_root F') \<and> announced (held (fl_root F')) root E (insert ?i A) t0 \<and> stale (held (fl_root F')) root E S t0 T"
    using h T by (intro tick_keeps [OF ok S refl t(1,2) A st F']) (simp add: holds_def)
  have reach': "node_reach (E ?i) ?n" using reach t(1) work_reach by blast
  have "window root X E S t0 T F'"
    using w keeps node_reach.tick [OF reach'] by (auto simp: window_def nodes)
  moreover have "settled X E S config dbs (fl_nodes F') ?i" if "bt_wf dbs" "A = S"
  proof -
    have "fresh (held s) E S t0"
      using A(2) that(2) t(2) by (auto simp: announced_def fresh_def s(2) in_window_def)
    moreover have "stale (held s) root E S t0 T" using st t(1) by (auto simp: stale_def s(2))
    moreover have "t0 \<le> rt_wall t" "rt_wall t < t0 + int T" using t(2) by (simp_all add: in_window_def)
    ultimately have cs: "candidates (live_nodes ?i svc es T) x = sorted_list_of_set (offered E S x)" for svc x
      using window_candidates [OF es fin S] t(1) by blast
    have "no_node_id (ne_options (E ?i)) = ?i" using mem by (simp add: member_def)
    from owned_duty [OF that(1) h T this X cs] show ?thesis
      unfolding settled_def runs_def using tick_live(4) [OF reach' list, of "fl_nodes F' ?i"] by (simp add: nodes)
  qed
  ultimately show ?thesis using keeps by (auto simp: nodes)
qed

lemma announce:
  assumes "window root X E S t0 T F" and "A \<subseteq> S" "announced (held (fl_root F)) root E A t0"
    and "\<forall>t \<in> set ts. rt_node t \<in> S \<and> in_window t0 T t" and "agreed R json E config dbs ts F"
    and T: "T = heartbeat_timeout (sc_node config)"
  shows "window root X E S t0 T (fleet_run R json E ts F)
    \<and> announced (held (fl_root (fleet_run R json E ts F))) root E (A \<union> rt_node ` set ts) t0"
  using assms(1-5)
proof (induction ts arbitrary: F A)
  case (Cons t ts)
  let ?F = "fleet_tick R json E t F"
  have h: "holds config dbs (fl_nodes ?F (rt_node t))" and rest: "agreed R json E config dbs ts ?F"
    using Cons.prems(5) by (simp_all add: Let_def)
  have t: "rt_node t \<in> S" "in_window t0 T t" using Cons.prems(4) by simp_all
  note step = window_step [OF Cons.prems(1) t Cons.prems(2,3) refl h T]
  have "insert (rt_node t) A \<subseteq> S" using t Cons.prems(2) by blast
  then show ?case
    using Cons.IH [of ?F "insert (rt_node t) A"] step rest Cons.prems(4) by (simp add: fleet_run_def)
qed (simp add: fleet_run_def)

lemma settle:
  assumes "window root X E S t0 T F" and "announced (held (fl_root F)) root E S t0" and "\<forall>i \<in> B. settled X E S config dbs (fl_nodes F) i"
    and "\<forall>t \<in> set ts. rt_node t \<in> S \<and> in_window t0 T t" and "agreed R json E config dbs ts F"
    and T: "T = heartbeat_timeout (sc_node config)" and wf: "bt_wf dbs"
  shows "\<forall>i \<in> B \<union> rt_node ` set ts. settled X E S config dbs (fl_nodes (fleet_run R json E ts F)) i"
  using assms(1-5)
proof (induction ts arbitrary: F B)
  case (Cons t ts)
  let ?F = "fleet_tick R json E t F"
  have h: "holds config dbs (fl_nodes ?F (rt_node t))" and rest: "agreed R json E config dbs ts ?F"
    using Cons.prems(5) by (simp_all add: Let_def)
  have t: "rt_node t \<in> S" "in_window t0 T t" using Cons.prems(4) by simp_all
  note step = window_step [OF Cons.prems(1) t subset_refl Cons.prems(2) refl h T]
  have "announced (held (fl_root ?F)) root E S t0" using step t by (simp add: insert_absorb)
  moreover have "\<forall>i \<in> insert (rt_node t) B. settled X E S config dbs (fl_nodes ?F) i"
  proof
    fix i assume "i \<in> insert (rt_node t) B"
    then show "settled X E S config dbs (fl_nodes ?F) i"
      using step wf Cons.prems(3) by (cases "i = rt_node t") (auto simp: settled_def)
  qed
  ultimately show ?case
    using Cons.IH [of ?F "insert (rt_node t) B"] step rest Cons.prems(4) by (simp add: fleet_run_def)
qed (simp add: fleet_run_def)

text \<open>Two rounds: in the first every member announces itself, in the second every member decides.\<close>

lemma converges:
  assumes "window root X E S t0 T F" and T: "T = heartbeat_timeout (sc_node config)" and wf: "bt_wf dbs"
    and "\<forall>t \<in> set (ts @ us). rt_node t \<in> S \<and> in_window t0 T t" and "S \<subseteq> rt_node ` set ts" "S \<subseteq> rt_node ` set us"
    and "agreed R json E config dbs (ts @ us) F"
  shows "\<forall>i \<in> S. settled X E S config dbs (fl_nodes (fleet_run R json E (ts @ us) F)) i"
proof -
  have split: "agreed R json E config dbs (ts @ us) F \<longleftrightarrow>
      agreed R json E config dbs ts F \<and> agreed R json E config dbs us (fleet_run R json E ts F)"
    by (induction ts arbitrary: F) (auto simp: Let_def fleet_run_def)
  have "window root X E S t0 T (fleet_run R json E ts F)
      \<and> announced (held (fl_root (fleet_run R json E ts F))) root E ({} \<union> rt_node ` set ts) t0"
    using assms split by (intro announce [OF assms(1) _ _ _ _ T]) (auto simp: announced_def fresh_def tidy_def)
  moreover have "rt_node ` set ts = S" using assms(4,5) by auto
  ultimately have "\<forall>i \<in> {} \<union> rt_node ` set us. settled X E S config dbs (fl_nodes (fleet_run R json E us (fleet_run R json E ts F))) i"
    using assms split by (intro settle [OF _ _ _ _ _ T wf]) auto
  then show ?thesis using assms(6) by (auto simp: fleet_run_def)
qed

text \<open>When a member leaves, the others are still announced: one round is enough.\<close>

lemma leave:
  assumes w: "window root X E S t0 T F" and a: "announced (held (fl_root F)) root E S t0" and i: "i \<in> S"
    and G: "G = fleet_leave R json E i grace stamp F"
  shows "window root X E (S - {i}) t0 T G \<and> announced (held (fl_root G)) root E (S - {i}) t0"
proof -
  have S: "\<forall>j \<in> S. member root (E j) j" and ok: "ok (fl_root F)" and st: "stale (held (fl_root F)) root E S t0 T"
    using w by (simp_all add: window_def)
  have root: "fl_root G = ro_delete R (own_path (E i)) (fl_root F)" and nodes: "j \<noteq> i \<Longrightarrow> fl_nodes G j = fl_nodes F j" for j
    by (simp_all add: G fleet_leave_def shutdown_def)
  have h: "ok (fl_root G)" "held (fl_root G) = (held (fl_root F))(own_path (E i) := None)"
    using delete [OF ok] by (simp_all add: root)
  have others: "own_path (E j) \<noteq> own_path (E i)" if "j \<in> S - {i}" for j
    using own_path_inject [of root E j i] S i that by blast
  have "fresh (held (fl_root G)) E (S - {i}) t0"
    using a others by (auto simp: announced_def fresh_def h(2))
  moreover have "tidy (held (fl_root G)) root E (S - {i})"
    using a unfolding announced_def tidy_def h(2) by (metis DiffD1 fun_upd_apply)
  moreover have "stale (held (fl_root G)) root E (S - {i}) t0 T"
    unfolding stale_def h(2)
  proof (intro allI impI, elim conjE)
    fix p u j ss
    assume p: "((held (fl_root F))(own_path (E i) := None)) p = Some u" "under (nodes_prefix root) p" "beat p = Some (j, ss)"
      "p \<notin> (\<lambda>i. own_path (E i)) ` (S - {i})"
    then have held: "held (fl_root F) p = Some u" and out: "p \<notin> (\<lambda>i. own_path (E i)) ` S" by (auto split: if_splits)
    have "j \<noteq> i" using a p(2,3) held i out unfolding announced_def tidy_def by blast
    then show "if j \<in> S - {i} then u < t0 else u + int T \<le> t0"
      using st p(2,3) held out unfolding stale_def by fastforce
  qed
  ultimately show ?thesis using w h(1) nodes by (simp add: window_def announced_def)
qed

lemma hands_off:
  assumes "window root X E S t0 T F" and T: "T = heartbeat_timeout (sc_node config)" and wf: "bt_wf dbs" and i: "i \<in> S"
    and "\<forall>t \<in> set ts. rt_node t \<in> S \<and> in_window t0 T t" and "S \<subseteq> rt_node ` set ts" and "agreed R json E config dbs ts F"
    and G: "G = fleet_leave R json E i grace stamp (fleet_run R json E ts F)"
    and "\<forall>t \<in> set us. rt_node t \<in> S - {i} \<and> in_window t0 T t" and "S - {i} \<subseteq> rt_node ` set us" and "agreed R json E config dbs us G"
  shows "\<forall>j \<in> S - {i}. settled X E (S - {i}) config dbs (fl_nodes (fleet_run R json E us G)) j"
proof -
  have "window root X E S t0 T (fleet_run R json E ts F)
      \<and> announced (held (fl_root (fleet_run R json E ts F))) root E ({} \<union> rt_node ` set ts) t0"
    using assms by (intro announce [OF assms(1) _ _ _ _ T]) (auto simp: announced_def fresh_def tidy_def)
  moreover have "rt_node ` set ts = S" using assms(5,6) by auto
  ultimately have "window root X E (S - {i}) t0 T G \<and> announced (held (fl_root G)) root E (S - {i}) t0"
    using leave [OF _ _ i G, of root X t0 T] by simp
  then have "\<forall>j \<in> {} \<union> rt_node ` set us. settled X E (S - {i}) config dbs (fl_nodes (fleet_run R json E us G)) j"
    using assms(9,11) by (intro settle [OF _ _ _ _ _ T wf]) auto
  then show ?thesis using assms(10) by blast
qed

end

subsection \<open>The objects of a fleet root\<close>

definition object_ops :: "(stored \<Rightarrow> string option) \<Rightarrow> fleet_objects root_ops" where
  "object_ops tag =
     \<lparr>ro_put = (\<lambda>p b t. AList.update p \<lparr>so_bytes = b, so_modified = t\<rparr>), ro_delete = AList.delete,
      ro_view = objects_view tag\<rparr>"

definition stamps :: "fleet_objects \<Rightarrow> string \<Rightarrow> datetime option" where
  "stamps objs p = map_option so_modified (map_of objs p)"

interpretation object_root: shared_root "object_ops tag" stamps "\<lambda>objs. distinct (map fst objs)" for tag
proof unfold_locales
  fix objs :: fleet_objects and p b :: string and t :: datetime and pre :: string
  assume dist: "distinct (map fst objs)"
  show "distinct (map fst (ro_put (object_ops tag) p b t objs)) \<and> stamps (ro_put (object_ops tag) p b t objs) = (stamps objs)(p \<mapsto> t)"
    using dist by (simp add: object_ops_def stamps_def distinct_update update_conv' fun_eq_iff)
  show "distinct (map fst (ro_delete (object_ops tag) p objs)) \<and> stamps (ro_delete (object_ops tag) p objs) = (stamps objs)(p := None)"
    using dist by (simp add: object_ops_def stamps_def distinct_delete delete_conv' fun_eq_iff)
  have "(\<lambda>m. (om_location m, om_last_modified m)) ` set (map (object_meta_of tag) (filter (\<lambda>px. under pre (fst px)) objs))
      = {(q, u). stamps objs q = Some u \<and> under pre q}"
    using dist by (force simp: object_meta_of_def stamps_def image_iff map_of_eq_Some_iff)
  then show "\<exists>metas. sv_list (ro_view (object_ops tag) objs) pre = Inr metas
      \<and> (\<lambda>m. (om_location m, om_last_modified m)) ` set metas = {(q, u). stamps objs q = Some u \<and> under pre q}"
    by (intro exI [of _ "map (object_meta_of tag) (filter (\<lambda>px. under pre (fst px)) objs)"])
      (simp add: object_ops_def objects_view_def under_def)
qed

lemma duty_card:
  assumes "finite S" and "bt_get dbs url = Some db" and r: "r = resolve config (Some db)" and "configured X url r s t"
  shows "{i \<in> S. duty X E S config dbs i (url, s, t)} \<subseteq> offered E S s
    \<and> card {i \<in> S. duty X E S config dbs i (url, s, t)} = min (owner_count r s) (card (offered E S s))"
proof -
  let ?cs = "sorted_list_of_set (offered E S s)"
  have fin: "finite (offered E S s)" and sub: "offered E S s \<subseteq> S" using assms(1) by (auto simp: offered_def)
  have "entitled X ?cs url r s t i \<Longrightarrow> i \<in> offered E S s" for i
    using entitled_candidate [of X ?cs url r s t i] fin by simp
  moreover from this have "{i \<in> S. duty X E S config dbs i (url, s, t)} = {i. entitled X ?cs url r s t i}"
    using assms(2,4) sub by (auto simp: duty_def r configured_def)
  moreover have "card {i. entitled X ?cs url r s t i} = min (owner_count r s) (card (offered E S s))"
    using entitled_card [OF _ assms(4), of ?cs] by simp
  ultimately show ?thesis by auto
qed

text \<open>
  C2. The fleet converges. Let the members \<open>S\<close>, in whatever states they have got into, be the only
  nodes that tick for a while, over one store that also holds any dead heartbeats and any former
  names of members, and let them agree on the policy and the registry (they can disagree for good
  only on files that are invalid, where each keeps its own last good version). After two rounds in
  any order within one heartbeat timeout, however their tasks and clocks behave, every member runs
  exactly the assignments the ranking of all members gives it. So every service of every registered
  database runs on as many members as configured, or on all that offer it when they are fewer, every
  mirror target on exactly one, and nothing else runs.
\<close>

theorem fleet_converges:
  fixes F :: "fleet_objects fleet"
  assumes "finite S" and "\<forall>j \<in> S. member root (E j) j \<and> ne_crates (E j) = X \<and> node_reach (E j) (fl_nodes F j)"
    and "distinct (map fst (fl_root F))" and "stale (stamps (fl_root F)) root E S t0 T"
    and "T = heartbeat_timeout (sc_node config)" and "bt_wf dbs"
    and "\<forall>t \<in> set (ts @ us). rt_node t \<in> S \<and> in_window t0 T t" and "S \<subseteq> rt_node ` set ts" and "S \<subseteq> rt_node ` set us"
    and "agreed (object_ops tag) json E config dbs (ts @ us) F"
    and F': "F' = fleet_run (object_ops tag) json E (ts @ us) F"
  shows "(\<forall>i \<in> S. \<forall>k. runs (fl_nodes F' i) k \<longleftrightarrow> duty X E S config dbs i k)
    \<and> (\<forall>url db r s t. bt_get dbs url = Some db \<and> r = resolve config (Some db) \<and> configured X url r s t \<longrightarrow>
         {i \<in> S. runs (fl_nodes F' i) (url, s, t)} \<subseteq> offered E S s
         \<and> card {i \<in> S. runs (fl_nodes F' i) (url, s, t)} = min (owner_count r s) (card (offered E S s)))"
proof -
  have "object_root.window root X E S t0 T F" using assms(1-4) by (simp add: object_root.window_def)
  from object_root.converges [OF this assms(5-10)]
  have all: "\<forall>i \<in> S. \<forall>k. runs (fl_nodes F' i) k \<longleftrightarrow> duty X E S config dbs i k" by (simp add: settled_def F')
  then have "{i \<in> S. runs (fl_nodes F' i) k} = {i \<in> S. duty X E S config dbs i k}" for k by blast
  then show ?thesis using all duty_card [OF assms(1)] by simp
qed

lemma fleet_run_others:
  "i \<notin> rt_node ` set ts \<Longrightarrow> fl_nodes (fleet_run R json E ts F) i = fl_nodes F i"
  by (induction ts arbitrary: F) (auto simp: fleet_run_def fleet_tick_def Let_def split: prod.splits)

lemma fleet_run_reach:
  "node_reach (E i) (fl_nodes F i) \<Longrightarrow> node_reach (E i) (fl_nodes (fleet_run R json E ts F) i)"
proof (induction ts arbitrary: F)
  case (Cons t ts)
  have "node_reach (E i) (fl_nodes (fleet_tick R json E t F) i)"
    using Cons.prems node_reach.tick [OF work_reach [OF Cons.prems]]
    by (auto simp: fleet_tick_def Let_def split: prod.splits) (metis fst_conv)
  then show ?case using Cons.IH by (simp add: fleet_run_def)
qed (simp add: fleet_run_def)

text \<open>
  C4. Leaving hands everything over at once. After a round in which every member has ticked, member
  \<open>i\<close> is shut down: its tasks are stopped and its heartbeat deleted. One more round of the remaining
  members, without waiting for any timeout, and each of them runs exactly what the ranking without
  \<open>i\<close> gives it, while \<open>i\<close> runs nothing: the assignments of \<open>i\<close> have new owners, and no assignment
  has more owners than configured.
\<close>

theorem leaving_hands_over:
  fixes F :: "fleet_objects fleet"
  assumes "finite S" and members: "\<forall>j \<in> S. member root (E j) j \<and> ne_crates (E j) = X \<and> node_reach (E j) (fl_nodes F j)"
    and "distinct (map fst (fl_root F))" and "stale (stamps (fl_root F)) root E S t0 T"
    and "T = heartbeat_timeout (sc_node config)" and "bt_wf dbs" and i: "i \<in> S"
    and "\<forall>t \<in> set ts. rt_node t \<in> S \<and> in_window t0 T t" and "S \<subseteq> rt_node ` set ts"
    and "agreed (object_ops tag) json E config dbs ts F"
    and G: "G = fleet_leave (object_ops tag) json E i grace stamp (fleet_run (object_ops tag) json E ts F)"
    and us: "\<forall>t \<in> set us. rt_node t \<in> S - {i} \<and> in_window t0 T t" and "S - {i} \<subseteq> rt_node ` set us"
    and "agreed (object_ops tag) json E config dbs us G"
    and G': "G' = fleet_run (object_ops tag) json E us G"
  shows "(\<forall>k. \<not> runs (fl_nodes G' i) k)
    \<and> (\<forall>j \<in> S - {i}. \<forall>k. runs (fl_nodes G' j) k \<longleftrightarrow> duty X E (S - {i}) config dbs j k)
    \<and> (\<forall>url db r s t. bt_get dbs url = Some db \<and> r = resolve config (Some db) \<and> configured X url r s t \<longrightarrow>
         card {j \<in> S. runs (fl_nodes G' j) (url, s, t)} = min (owner_count r s) (card (offered E (S - {i}) s)))"
proof -
  have "object_root.window root X E S t0 T F" using assms(1-4) by (simp add: object_root.window_def)
  from object_root.hands_off [OF this assms(5-14)]
  have rest: "\<forall>j \<in> S - {i}. \<forall>k. runs (fl_nodes G' j) k \<longleftrightarrow> duty X E (S - {i}) config dbs j k" by (simp add: settled_def G')
  have "i \<notin> rt_node ` set us" using us by blast
  moreover have "node_reach (E i) (fl_nodes (fleet_run (object_ops tag) json E ts F) i)"
    using fleet_run_reach members i by blast
  then have "idle (nd_process (fl_nodes G i))"
    using idle_work cancelled_idle [OF node_reach_tasks_ok] by (simp add: G fleet_leave_def shutdown_def)
  ultimately have gone: "\<not> runs (fl_nodes G' i) k" for k
    using fleet_run_others [of i us "object_ops tag" json E G] unfolding G' runs_def idle_def by metis
  then have "{j \<in> S. runs (fl_nodes G' j) k} = {j \<in> S - {i}. duty X E (S - {i}) config dbs j k}" for k
    using rest by blast
  then show ?thesis using rest gone duty_card [of "S - {i}" dbs] assms(1) by auto
qed

subsection \<open>A fleet of two\<close>

lemma tick_fleet:
  "nd_fleet (fst (tick E V now wall n)) = nd_fleet (poll_if_due E V now n)
   \<and> nd_last_poll (fst (tick E V now wall n)) = nd_last_poll (poll_if_due E V now n)"
  by (simp add: tick_def Let_def split: sum.splits prod.splits)

text \<open>Members that agree and have no poll due go on agreeing.\<close>

lemma agreed_between_polls:
  assumes "\<forall>j \<in> S. holds config dbs (fl_nodes F j) \<and> nd_last_poll (fl_nodes F j) = p"
    and "\<forall>t \<in> set ts. rt_node t \<in> S \<and> rt_now t - p < int (config_poll (sc_node config))"
  shows "agreed R json E config dbs ts F
    \<and> (\<forall>j \<in> S. holds config dbs (fl_nodes (fleet_run R json E ts F) j)
         \<and> nd_last_poll (fl_nodes (fleet_run R json E ts F) j) = p)"
  using assms
proof (induction ts arbitrary: F)
  case (Cons t ts)
  let ?n = "work (rt_work t) (fl_nodes F (rt_node t))"
  have "holds config dbs ?n" "nd_last_poll ?n = p" using Cons.prems by (simp_all add: work_def holds_def)
  then have "poll_if_due (E (rt_node t)) V (rt_now t) ?n = ?n" for V
    using Cons.prems(2) by (simp add: poll_if_due_def holds_def)
  then have kept: "holds config dbs (fst (tick (E (rt_node t)) V (rt_now t) (rt_wall t) ?n))"
    "nd_last_poll (fst (tick (E (rt_node t)) V (rt_now t) (rt_wall t) ?n)) = p" for V
    using tick_fleet [of "E (rt_node t)" V "rt_now t" "rt_wall t" ?n] \<open>holds config dbs ?n\<close> \<open>nd_last_poll ?n = p\<close>
    by (simp_all add: holds_def)
  then have "\<forall>j \<in> S. holds config dbs (fl_nodes (fleet_tick R json E t F) j)
      \<and> nd_last_poll (fl_nodes (fleet_tick R json E t F) j) = p"
    using Cons.prems(1) by (auto simp: fleet_tick_def Let_def split: prod.splits) (metis fst_conv)+
  then show ?case using Cons.IH [of "fleet_tick R json E t F"] Cons.prems(2) by (auto simp: Let_def fleet_run_def)
qed (simp add: fleet_run_def)

definition pair_env :: "string \<Rightarrow> node_env" where
  "pair_env i = Node.demo_env\<lparr>ne_options := with_services [Gc] (new_node_options None i)\<rparr>"

text \<open>Two nodes have just started; a third left a heartbeat a minute ago.\<close>

definition pair_fleet :: "fleet_objects fleet" where
  "pair_fleet =
     \<lparr>fl_root = [(''fleet/dbs/s3%3A%2F%2Fb%2Fdb.toml'', \<lparr>so_bytes = [], so_modified = 0\<rparr>),
                 (''fleet/nodes/n0.g.json'', \<lparr>so_bytes = [], so_modified = - int (from_secs 60)\<rparr>)],
      fl_nodes = (\<lambda>i. node_start (pair_env i) demo_node_view 0)\<rparr>"

definition pair_round :: "round_turn list" where
  "pair_round = map (\<lambda>i. \<lparr>rt_node = i, rt_work = [], rt_now = 0, rt_wall = 0, rt_stamp = 0\<rparr>) [''n1'', ''n2'']"

lemma pair_members:
  "\<forall>j \<in> {''n1'', ''n2''}. member demo_root (pair_env j) j \<and> ne_crates (pair_env j) = demo_crates
     \<and> node_reach (pair_env j) (fl_nodes pair_fleet j)"
  using node_reach.start
  by (simp add: member_def pair_env_def Node.demo_env_def with_services_def new_node_options_def pair_fleet_def
      validate_node_id_def is_ascii_alphanumeric_def is_digit_def is_ascii_uppercase_def between_def byte_of_def)

lemma pair_stale: "stale (stamps (fl_root pair_fleet)) demo_root pair_env {''n1'', ''n2''} 0 (from_secs 30)"
proof -
  have "beat ''fleet/nodes/n0.g.json'' = Some (''n0'', [Gc])" by code_simp
  moreover have "\<not> under (nodes_prefix demo_root) ''fleet/dbs/s3%3A%2F%2Fb%2Fdb.toml''" by code_simp
  ultimately show ?thesis
    unfolding stale_def
    by (intro allI impI) (auto simp: stamps_def pair_fleet_def from_secs_def split: if_splits)
qed

lemma pair_turns:
  "t \<in> set pair_round \<Longrightarrow> in_window 0 (from_secs 30) t \<and> rt_node t \<in> {''n1'', ''n2''} \<and> rt_now t = 0"
  "rt_node ` set pair_round = {''n1'', ''n2''}"
  by (auto simp: pair_round_def in_window_def from_secs_def)

lemma pair_policy:
  "heartbeat_timeout (sc_node default_sleet_config) = from_secs 30" "0 < config_poll (sc_node default_sleet_config)"
  by (simp_all add: default_sleet_config_def default_node_config_def from_secs_def)

lemma pair_database:
  "bt_get (fs_databases Ownership.demo_state) ''s3://b/db'' = Some default_database_config" "bt_wf (fs_databases Ownership.demo_state)"
  "configured demo_crates ''s3://b/db'' (resolve default_sleet_config (Some default_database_config)) Gc None"
  "owner_count (resolve default_sleet_config (Some default_database_config)) Gc = 1"
  by (simp_all add: configured_def demo_resolve_services ALL_SERVICES_def owner_count_def bt_wf_def)

lemma pair_offered: "S \<subseteq> {''n1'', ''n2''} \<Longrightarrow> offered pair_env S Gc = S"
  by (auto simp: offered_def services_of_def pair_env_def with_services_def)

lemma pair_holds:
  "holds default_sleet_config (fs_databases Ownership.demo_state) (fl_nodes pair_fleet j) \<and> nd_last_poll (fl_nodes pair_fleet j) = 0"
proof -
  have "nd_fleet (node_start (pair_env j) demo_node_view 0) = nd_fleet (node_start Node.demo_env demo_node_view 0)"
    by (simp add: node_start_def pair_env_def split: prod.splits)
  then show ?thesis
    using demo_node_fleet by (simp add: holds_def pair_fleet_def) (simp add: node_start_def split: prod.splits)
qed

theorem fleet_converges_witness:
  "card {i \<in> {''n1'', ''n2''}. runs (fl_nodes (fleet_run (object_ops (\<lambda>_. None)) (\<lambda>_. []) pair_env (pair_round @ pair_round) pair_fleet) i)
     (''s3://b/db'', Gc, None)} = 1"
proof -
  have turns: "\<forall>t \<in> set (pair_round @ pair_round). rt_node t \<in> {''n1'', ''n2''} \<and> in_window 0 (from_secs 30) t"
    using pair_turns(1) by auto
  have cover: "{''n1'', ''n2''} \<subseteq> rt_node ` set pair_round" unfolding pair_turns(2) by simp
  have dist: "distinct (map fst (fl_root pair_fleet))" by (simp add: pair_fleet_def)
  have agree: "agreed (object_ops (\<lambda>_. None)) (\<lambda>_. []) pair_env default_sleet_config (fs_databases Ownership.demo_state)
      (pair_round @ pair_round) pair_fleet"
    using agreed_between_polls [of "{''n1'', ''n2''}" _ _ pair_fleet 0 "pair_round @ pair_round"] pair_holds pair_turns(1) pair_policy(2)
    by auto
  show ?thesis
    using fleet_converges [of "{''n1'', ''n2''}" demo_root pair_env demo_crates pair_fleet 0 "from_secs 30", OF _ pair_members
        dist pair_stale pair_policy(1) [symmetric] pair_database(2) turns cover cover agree refl] pair_database pair_offered [OF subset_refl]
    by simp
qed

text \<open>One of the two leaves, and the other one runs the collector.\<close>

theorem leaving_hands_over_witness:
  "runs (fl_nodes (fleet_run (object_ops (\<lambda>_. None)) (\<lambda>_. []) pair_env [pair_round ! 1]
      (fleet_leave (object_ops (\<lambda>_. None)) (\<lambda>_. []) pair_env ''n1'' [] 0
        (fleet_run (object_ops (\<lambda>_. None)) (\<lambda>_. []) pair_env pair_round pair_fleet))) ''n2'')
     (''s3://b/db'', Gc, None)"
proof -
  let ?S = "{''n1'', ''n2''}" and ?R = "object_ops (\<lambda>_. None)" and ?J = "\<lambda>_ :: heartbeat. [] :: string"
  let ?G = "fleet_leave ?R ?J pair_env ''n1'' [] 0 (fleet_run ?R ?J pair_env pair_round pair_fleet)"
  have rest: "?S - {''n1''} = {''n2''}" by auto
  have last: "pair_round ! 1 \<in> set pair_round" "rt_node (pair_round ! 1) = ''n2''" by (simp_all add: pair_round_def)
  have turns: "\<forall>t \<in> set pair_round. rt_node t \<in> ?S \<and> in_window 0 (from_secs 30) t"
    "\<forall>t \<in> set [pair_round ! 1]. rt_node t \<in> ?S - {''n1''} \<and> in_window 0 (from_secs 30) t"
    using pair_turns(1) last by auto
  have cover: "?S \<subseteq> rt_node ` set pair_round" "?S - {''n1''} \<subseteq> rt_node ` set [pair_round ! 1]"
    unfolding pair_turns(2) rest using last(2) by simp_all
  have dist: "distinct (map fst (fl_root pair_fleet))" by (simp add: pair_fleet_def)
  have first: "agreed ?R ?J pair_env default_sleet_config (fs_databases Ownership.demo_state) pair_round pair_fleet
      \<and> (\<forall>j \<in> ?S. holds default_sleet_config (fs_databases Ownership.demo_state) (fl_nodes (fleet_run ?R ?J pair_env pair_round pair_fleet) j)
         \<and> nd_last_poll (fl_nodes (fleet_run ?R ?J pair_env pair_round pair_fleet) j) = 0)"
    using pair_holds pair_turns(1) pair_policy(2) by (intro agreed_between_polls) auto
  then have "holds default_sleet_config (fs_databases Ownership.demo_state) (fl_nodes ?G ''n2'') \<and> nd_last_poll (fl_nodes ?G ''n2'') = 0"
    by (simp add: fleet_leave_def shutdown_def)
  then have second: "agreed ?R ?J pair_env default_sleet_config (fs_databases Ownership.demo_state) [pair_round ! 1] ?G"
    using agreed_between_polls [of "{''n2''}" _ _ ?G 0 "[pair_round ! 1]" ?R ?J pair_env] last pair_turns(1) pair_policy(2) by auto
  define nodes where "nodes = fl_nodes (fleet_run ?R ?J pair_env [pair_round ! 1] ?G)"
  have n1: "''n1'' \<in> ?S" by simp
  note run = leaving_hands_over [of ?S demo_root pair_env demo_crates pair_fleet 0 "from_secs 30", OF _ pair_members
      dist pair_stale pair_policy(1) [symmetric] pair_database(2) n1 turns(1) cover(1) conjunct1 [OF first] refl turns(2) cover(2) second refl,
      folded nodes_def]
  have "card {j \<in> ?S. runs (nodes j) (''s3://b/db'', Gc, None)}
      = min (owner_count (resolve default_sleet_config (Some default_database_config)) Gc) (card (offered pair_env (?S - {''n1''}) Gc))"
    using run pair_database(1,3) by blast
  then have one: "card {j \<in> ?S. runs (nodes j) (''s3://b/db'', Gc, None)} = 1"
    unfolding rest using pair_database(4) pair_offered [of "{''n2''}"] by simp
  have gone: "\<not> runs (nodes ''n1'') (''s3://b/db'', Gc, None)" using run by blast
  have "runs (nodes ''n2'') (''s3://b/db'', Gc, None)"
  proof (rule ccontr)
    assume "\<not> runs (nodes ''n2'') (''s3://b/db'', Gc, None)"
    then have "{j \<in> ?S. runs (nodes j) (''s3://b/db'', Gc, None)} = {}" using gone by blast
    then show False using one by (metis card.empty zero_neq_one)
  qed
  then show ?thesis unfolding nodes_def .
qed

end
