(* ===== verification/Render.thy ===== *)
theory Render
  imports Response Sleet_Text "HOL-Library.Monad_Syntax"
begin

text \<open>
  \<^verbatim>\<open>src/render.rs\<close>: the text form of the responses. A writer that accepts everything is the string
  written to it; a panic (a row that does not match the headers, an index past the widths) is
  \<open>None\<close>. Widths are byte lengths, as the source takes them, while \<^verbatim>\<open>{cell:<width$}\<close> pads by
  characters: \<open>char_count\<close> counts the bytes of a UTF-8 text that begin a character. The theorems say
  that rendering never panics and that the columns of a table line up whatever the cells hold.
  \<open>fmt\<close> is \<^verbatim>\<open>humantime::format_duration\<close>.
\<close>

definition newline :: string where
  "newline = [CHR 0x0A]"

definition char_count :: "string \<Rightarrow> nat" where
  "char_count s = length (filter (\<lambda>c. \<not> between 128 191 c) s)"

definition pad_to :: "nat \<Rightarrow> string \<Rightarrow> string" where
  "pad_to width cell = cell @ replicate (width - char_count cell) (CHR '' '')"

subsection \<open>Tables\<close>

record table =
  tb_headers :: "string list"
  tb_rows :: "string list list"

definition table_new :: "string list \<Rightarrow> table" where
  "table_new headers = \<lparr>tb_headers = headers, tb_rows = []\<rparr>"

definition table_row :: "string list \<Rightarrow> table \<Rightarrow> table option" where
  "table_row cells self =
     (if length cells = length (tb_headers self) then Some (self\<lparr>tb_rows := tb_rows self @ [cells]\<rparr>) else None)"

fun table_fill :: "string list list \<Rightarrow> table \<Rightarrow> table option" where
  "table_fill [] self = Some self"
| "table_fill (cells # rows) self = do { self \<leftarrow> table_row cells self; table_fill rows self }"

fun widen :: "nat list \<Rightarrow> string list \<Rightarrow> nat list option" where
  "widen widths [] = Some widths"
| "widen [] (cell # cells) = None"
| "widen (w # widths) (cell # cells) = do { ws \<leftarrow> widen widths cells; Some (max w (length cell) # ws) }"

fun widen_rows :: "nat list \<Rightarrow> string list list \<Rightarrow> nat list option" where
  "widen_rows widths [] = Some widths"
| "widen_rows widths (row # rows) = do { widths \<leftarrow> widen widths row; widen_rows widths rows }"

fun write_row :: "nat list \<Rightarrow> string list \<Rightarrow> string option" where
  "write_row widths [] = None"
| "write_row widths [cell] = Some (cell @ newline)"
| "write_row [] (cell # cells) = None"
| "write_row (w # widths) (cell # cells) = do { rest \<leftarrow> write_row widths cells; Some (pad_to w cell @ ''  '' @ rest) }"

fun write_rows :: "nat list \<Rightarrow> string list list \<Rightarrow> string option" where
  "write_rows widths [] = Some []"
| "write_rows widths (row # rows) =
     do { line \<leftarrow> write_row widths row; rest \<leftarrow> write_rows widths rows; Some (line @ rest) }"

definition table_write :: "table \<Rightarrow> string option" where
  "table_write self =
     do { widths \<leftarrow> widen_rows (map length (tb_headers self)) (tb_rows self);
          write_rows widths (tb_headers self # tb_rows self) }"

subsection \<open>Responses\<close>

definition join_services :: "service list \<Rightarrow> string" where
  "join_services services = join '','' (map as_str services)"

definition dash :: string where
  "dash = ''-''"

definition node_row :: "(duration \<Rightarrow> string) \<Rightarrow> node_status \<Rightarrow> string list" where
  "node_row fmt n =
     [ns_node_id n, if ns_live n then ''yes'' else ''no'', fmt (ns_heartbeat_age n), join_services (ns_services n),
      unwrap_or (ns_sleet_version n) dash, unwrap_or (ns_slatedb_version n) dash]"

definition nodes_headers :: "string list" where
  "nodes_headers = [''NODE'', ''LIVE'', ''HEARTBEAT'', ''SERVICES'', ''SLEET'', ''SLATEDB'']"

definition services_headers :: "bool \<Rightarrow> string list" where
  "services_headers with_queues =
     (if with_queues then [''DATABASE'', ''SERVICE'', ''NODES'', ''QUEUE''] else [''DATABASE'', ''SERVICE'', ''NODES''])"

definition placement_row :: "bool \<Rightarrow> database_status \<Rightarrow> service_placement \<Rightarrow> string list" where
  "placement_row with_queues db s =
     [ds_url db, as_str (sp_service s), if sp_nodes s = [] then dash else join '','' (sp_nodes s)]
     @ (if with_queues
        then [case ds_queue db of
                Some q \<Rightarrow> show_nat (qs_claimable q) @ '' waiting, '' @ show_nat (qs_running q) @ '' running''
              | None \<Rightarrow> dash]
        else [])"

definition mirrors_headers :: "string list" where
  "mirrors_headers = [''DATABASE'', ''TARGET'', ''DESTINATION'', ''MANIFESTS'', ''WAL'', ''SECONDS'']"

definition behind :: "nat option \<Rightarrow> string" where
  "behind v = (case v of None \<Rightarrow> dash | Some n \<Rightarrow> show_nat n)"

definition mirror_row :: "mirror_status_response \<Rightarrow> string list" where
  "mirror_row m =
     [ms_database m, ms_target m, ms_destination m, behind (ms_manifests_behind m), behind (ms_wal_behind m),
      behind (ms_seconds_behind m)]"

definition mirror_error_lines :: "mirror_status_response list \<Rightarrow> string" where
  "mirror_error_lines mirrors =
     concat (map (\<lambda>m. case ms_error m of
         None \<Rightarrow> []
       | Some error \<Rightarrow> ''error: '' @ ms_database m @ '' target '' @ ms_target m @ '': '' @ error @ newline) mirrors)"

definition nodes_table :: "(duration \<Rightarrow> string) \<Rightarrow> status_response \<Rightarrow> table option" where
  "nodes_table fmt self = table_fill (map (node_row fmt) (sr_nodes self)) (table_new nodes_headers)"

definition services_table :: "status_response \<Rightarrow> table option" where
  "services_table self =
     (let with_queues = list_ex (\<lambda>db. ds_queue db \<noteq> None) (sr_databases self) in
      table_fill (concat (map (\<lambda>db. map (placement_row with_queues db) (ds_services db)) (sr_databases self)))
        (table_new (services_headers with_queues)))"

definition mirrors_table :: "status_response \<Rightarrow> table option" where
  "mirrors_table self = table_fill (map mirror_row (sr_mirrors self)) (table_new mirrors_headers)"

definition mirrors_section :: "status_response \<Rightarrow> string option" where
  "mirrors_section self =
     (if sr_mirrors self = [] then Some []
      else do { mirrors \<leftarrow> mirrors_table self; text \<leftarrow> table_write mirrors;
                Some (newline @ text @ mirror_error_lines (sr_mirrors self)) })"

definition warnings_section :: "status_response \<Rightarrow> string" where
  "warnings_section self =
     (if sr_warnings self = [] then []
      else newline @ concat (map (\<lambda>warning. ''warning: '' @ warning @ newline) (sr_warnings self)))"

definition render_status :: "(duration \<Rightarrow> string) \<Rightarrow> status_response \<Rightarrow> string option" where
  "render_status fmt self =
     do { nodes \<leftarrow> nodes_table fmt self; nodes_text \<leftarrow> table_write nodes;
          services \<leftarrow> services_table self; services_text \<leftarrow> table_write services;
          mirrors_text \<leftarrow> mirrors_section self;
          Some (nodes_text @ newline @ services_text @ mirrors_text @ warnings_section self) }"

definition render_register :: "register_response \<Rightarrow> string" where
  "render_register self =
     (if rr_created self then ''registered '' @ rr_url self @ '' at '' @ rr_file self @ newline
      else rr_url self @ '' already registered at '' @ rr_file self @ newline)"

definition render_mirror_sync :: "mirror_sync_response \<Rightarrow> string" where
  "render_mirror_sync self =
     (if \<not> sy_committed self
      then sy_database self @ '' target '' @ sy_target self @ '' is caught up at manifest '' @ show_nat (sy_head self)
             @ '' ('' @ sy_destination self @ '')'' @ newline
      else ''synced '' @ sy_database self @ '' target '' @ sy_target self @ '' to manifest '' @ show_nat (sy_head self)
             @ '' ('' @ sy_destination self @ ''): '' @ show_nat (sy_manifests_committed self) @ '' manifests, ''
             @ show_nat (sy_objects_copied self) @ '' objects, '' @ show_nat (sy_bytes_copied self) @ '' bytes'' @ newline
           @ (if 0 < sy_pruned_manifests self \<or> 0 < sy_pruned_objects self
              then ''pruned '' @ show_nat (sy_pruned_manifests self) @ '' manifests, ''
                     @ show_nat (sy_pruned_objects self) @ '' objects'' @ newline
              else []))"

definition render_mirror_restore :: "mirror_restore_response \<Rightarrow> string" where
  "render_mirror_restore self =
     ''restored '' @ rp_backup self @ '' at manifest '' @ show_nat (rp_manifest_id self) @ '' into '' @ rp_destination self
       @ '': '' @ show_nat (rp_manifests_committed self) @ '' manifests, '' @ show_nat (rp_objects_copied self)
       @ '' objects, '' @ show_nat (rp_bytes_copied self) @ '' bytes'' @ newline"

fun render :: "(duration \<Rightarrow> string) \<Rightarrow> response \<Rightarrow> string option" where
  "render fmt (StatusOf r) = render_status fmt r"
| "render fmt (RegisterOf r) = Some (render_register r)"
| "render fmt (MirrorSyncOf r) = Some (render_mirror_sync r)"
| "render fmt (MirrorRestoreOf r) = Some (render_mirror_restore r)"

subsection \<open>Columns\<close>

lemma char_count_append [simp]: "char_count (a @ b) = char_count a + char_count b"
  by (simp add: char_count_def)

lemma char_count_Nil [simp]: "char_count [] = 0"
  by (simp add: char_count_def)

lemma char_count_le: "char_count s \<le> length s"
  by (simp add: char_count_def)

lemma char_count_spaces [simp]: "char_count (replicate n (CHR '' '')) = n"
  by (induction n) (simp_all add: char_count_def between_def byte_of_def)

lemma char_count_pad: "char_count cell \<le> w \<Longrightarrow> char_count (pad_to w cell @ ''  '') = w + 2"
  by (simp add: pad_to_def) (simp add: char_count_def between_def byte_of_def)

text \<open>A line is split at each of its cells, and the cell starts where the widths before it end.\<close>

definition cells_at :: "nat list \<Rightarrow> string list \<Rightarrow> string \<Rightarrow> bool" where
  "cells_at widths cells line \<longleftrightarrow>
     (\<forall>i < length cells. \<exists>before after. line = before @ cells ! i @ after
        \<and> char_count before = (\<Sum>j<i. widths ! j + 2) \<and> (Suc i = length cells \<longrightarrow> after = []))"

lemma cells_at_last: "cells_at widths [cell] cell"
  by (auto simp: cells_at_def intro: exI [of _ "[]"])

lemma cells_at_Cons:
  assumes "cells_at widths cells line" and "char_count cell \<le> w" and "cells \<noteq> []"
  shows "cells_at (w # widths) (cell # cells) (pad_to w cell @ ''  '' @ line)"
  unfolding cells_at_def
proof (intro allI impI)
  fix i assume i: "i < length (cell # cells)"
  show "\<exists>before after. pad_to w cell @ ''  '' @ line = before @ (cell # cells) ! i @ after
        \<and> char_count before = (\<Sum>j<i. (w # widths) ! j + 2) \<and> (Suc i = length (cell # cells) \<longrightarrow> after = [])"
  proof (cases i)
    case 0
    then show ?thesis using assms(3)
      by (intro exI [of _ "[]"] exI [of _ "replicate (w - char_count cell) (CHR '' '') @ ''  '' @ line"])
        (simp add: pad_to_def)
  next
    case (Suc k)
    then obtain before after where *: "line = before @ cells ! k @ after"
      "char_count before = (\<Sum>j<k. widths ! j + 2)" "Suc k = length cells \<longrightarrow> after = []"
      using assms(1) i unfolding cells_at_def by (metis Suc_less_eq length_Cons)
    have "char_count ((pad_to w cell @ ''  '') @ before) = (\<Sum>j<i. (w # widths) ! j + 2)"
      unfolding char_count_append [of "pad_to w cell @ ''  ''"] char_count_pad [OF assms(2)] *(2) Suc
      by (simp add: sum.lessThan_Suc_shift del: sum.lessThan_Suc)
    then show ?thesis using * Suc
      by (intro exI [of _ "(pad_to w cell @ ''  '') @ before"] exI [of _ after]) auto
  qed
qed

lemma write_row_cells:
  assumes "length widths = length cells" and "cells \<noteq> []" and "\<forall>i < length cells. length (cells ! i) \<le> widths ! i"
  shows "\<exists>line. write_row widths cells = Some (line @ newline) \<and> cells_at widths cells line"
  using assms
proof (induction widths cells rule: write_row.induct)
  case (4 w widths cell cell' cells)
  have "\<forall>i < length (cell' # cells). length ((cell' # cells) ! i) \<le> widths ! i"
    using "4.prems"(3) by (auto simp: nth_Cons')
  then obtain line where line: "write_row widths (cell' # cells) = Some (line @ newline)"
    "cells_at widths (cell' # cells) line"
    using "4.IH" "4.prems"(1) by auto
  have "char_count cell \<le> w" using "4.prems"(3) char_count_le [of cell] by force
  then show ?case using line cells_at_Cons [OF line(2), of cell w] by (auto intro!: exI [of _ "pad_to w cell @ ''  '' @ line"])
qed (auto simp: cells_at_last)

lemma widen_exact:
  "length widths = length cells \<Longrightarrow> widen widths cells = Some (map2 (\<lambda>w c. max w (length c)) widths cells)"
  by (induction widths cells rule: widen.induct) auto

lemma widen_rows_exact:
  assumes "\<forall>r \<in> set rows. length r = length widths"
  shows "\<exists>ws. widen_rows widths rows = Some ws \<and> length ws = length widths
    \<and> (\<forall>i < length widths. ws ! i = Max (insert (widths ! i) ((\<lambda>r. length (r ! i)) ` set rows)))"
  using assms
proof (induction rows arbitrary: widths)
  case (Cons r rows)
  let ?w = "map2 (\<lambda>w c. max w (length c)) widths r"
  have len: "length r = length widths" using Cons.prems by simp
  obtain ws where ws: "widen_rows ?w rows = Some ws" "length ws = length widths"
    "\<forall>i < length widths. ws ! i = Max (insert (?w ! i) ((\<lambda>r. length (r ! i)) ` set rows))"
    using Cons.IH [of ?w] Cons.prems len by auto
  have "Max (insert (?w ! i) ((\<lambda>r. length (r ! i)) ` set rows))
      = Max (insert (widths ! i) ((\<lambda>r. length (r ! i)) ` set (r # rows)))" if "i < length widths" for i
    using that len by (cases "rows = []") (simp_all add: max.assoc)
  then show ?case using ws len widen_exact [of widths r] by auto
qed simp

definition table_ok :: "table \<Rightarrow> bool" where
  "table_ok t \<longleftrightarrow> tb_headers t \<noteq> [] \<and> (\<forall>r \<in> set (tb_rows t). length r = length (tb_headers t))"

definition col_width :: "table \<Rightarrow> nat \<Rightarrow> nat" where
  "col_width t i = Max (insert (length (tb_headers t ! i)) ((\<lambda>r. length (r ! i)) ` set (tb_rows t)))"

definition col_start :: "table \<Rightarrow> nat \<Rightarrow> nat" where
  "col_start t i = (\<Sum>j<i. col_width t j + 2)"

lemma table_write_lines:
  assumes "table_ok t"
  shows "\<exists>lines. table_write t = Some (concat (map (\<lambda>l. l @ newline) lines))
    \<and> length lines = Suc (length (tb_rows t))
    \<and> (\<forall>k < length lines. \<forall>i < length (tb_headers t). \<exists>before after.
         lines ! k = before @ (tb_headers t # tb_rows t) ! k ! i @ after \<and> char_count before = col_start t i
         \<and> (Suc i = length (tb_headers t) \<longrightarrow> after = []))"
proof -
  let ?n = "length (tb_headers t)"
  obtain ws where ws: "widen_rows (map length (tb_headers t)) (tb_rows t) = Some ws" "length ws = ?n"
    "\<forall>i < ?n. ws ! i = col_width t i"
    using widen_rows_exact [of "tb_rows t" "map length (tb_headers t)"] assms
    by (auto simp: table_ok_def col_width_def)
  have fits: "length (r ! i) \<le> ws ! i" if "r \<in> set (tb_headers t # tb_rows t)" "i < ?n" for r i
    using that ws(3) by (auto simp: col_width_def intro!: Max_ge)
  have sums: "(\<Sum>j<i. ws ! j + 2) = col_start t i" if "i < ?n" for i
    using that ws(3) by (auto simp: col_start_def intro!: sum.cong)
  have rows: "\<exists>lines. write_rows ws rows = Some (concat (map (\<lambda>l. l @ newline) lines)) \<and> list_all2 (cells_at ws) rows lines"
    if "\<forall>r \<in> set rows. length r = ?n \<and> (\<forall>i < ?n. length (r ! i) \<le> ws ! i)" for rows
    using that
  proof (induction rows)
    case (Cons r rows)
    have "r \<noteq> []" using Cons.prems assms by (auto simp: table_ok_def)
    then obtain line where "write_row ws r = Some (line @ newline)" "cells_at ws r line"
      using write_row_cells [of ws r] Cons.prems ws(2) by auto
    moreover obtain lines where "write_rows ws rows = Some (concat (map (\<lambda>l. l @ newline) lines))"
      "list_all2 (cells_at ws) rows lines"
      using Cons by auto
    ultimately show ?case by (intro exI [of _ "line # lines"]) simp
  qed (auto intro: exI [of _ "[]"])
  obtain lines where lines: "write_rows ws (tb_headers t # tb_rows t) = Some (concat (map (\<lambda>l. l @ newline) lines))"
    "list_all2 (cells_at ws) (tb_headers t # tb_rows t) lines"
    using rows [of "tb_headers t # tb_rows t"] fits assms by (auto simp: table_ok_def)
  have len: "length ((tb_headers t # tb_rows t) ! k) = ?n" if "k < Suc (length (tb_rows t))" for k
    using that assms nth_mem [of k "tb_headers t # tb_rows t"] by (auto simp: table_ok_def)
  have n: "length lines = Suc (length (tb_rows t))" using lines(2) list_all2_lengthD by fastforce
  have "cells_at ws ((tb_headers t # tb_rows t) ! k) (lines ! k)" if "k < length lines" for k
    using list_all2_nthD2 [OF lines(2) that] .
  then have "\<exists>before after. lines ! k = before @ (tb_headers t # tb_rows t) ! k ! i @ after
      \<and> char_count before = col_start t i \<and> (Suc i = ?n \<longrightarrow> after = [])" if "k < length lines" "i < ?n" for k i
    using that len [of k] n sums [of i] unfolding cells_at_def by metis
  then show ?thesis using ws(1) lines(1) n by (intro exI [of _ lines]) (simp add: table_write_def)
qed

lemma table_fill_ok:
  assumes "\<forall>r \<in> set rows. length r = length (tb_headers t)" and "table_ok t"
  shows "\<exists>t'. table_fill rows t = Some t' \<and> table_ok t' \<and> tb_headers t' = tb_headers t \<and> tb_rows t' = tb_rows t @ rows"
  using assms
proof (induction rows arbitrary: t)
  case (Cons r rows)
  let ?t = "t\<lparr>tb_rows := tb_rows t @ [r]\<rparr>"
  have "table_row r t = Some ?t" "table_ok ?t" using Cons.prems by (auto simp: table_row_def table_ok_def)
  then show ?case using Cons.IH [of ?t] Cons.prems(1) by auto
qed simp

lemma table_new_fill:
  assumes "\<forall>r \<in> set rows. length r = length headers" and "headers \<noteq> []"
  shows "table_fill rows (table_new headers) = Some \<lparr>tb_headers = headers, tb_rows = rows\<rparr>
    \<and> table_ok \<lparr>tb_headers = headers, tb_rows = rows\<rparr>"
proof -
  have "table_ok (table_new headers)" using assms(2) by (simp add: table_new_def table_ok_def)
  then obtain t' where t': "table_fill rows (table_new headers) = Some t'" "table_ok t'" "tb_headers t' = headers" "tb_rows t' = rows"
    using table_fill_ok [of rows "table_new headers"] assms(1) by (auto simp: table_new_def)
  then have "t' = \<lparr>tb_headers = headers, tb_rows = rows\<rparr>" by simp
  then show ?thesis using t'(1, 2) by simp
qed

text \<open>
  The text of every table lines up: each of its lines holds the cells of one row (the headers
  first), the \<open>i\<close>-th cell of every line starts at the same character, where the widest cells of the
  columns before it and two spaces each end, and nothing follows the last cell. It holds of cells
  with any UTF-8 text, although widths are counted in bytes.
\<close>

theorem table_columns_align:
  assumes "table_ok t"
  shows "\<exists>lines. table_write t = Some (concat (map (\<lambda>l. l @ newline) lines))
    \<and> length lines = Suc (length (tb_rows t))
    \<and> (\<forall>k < length lines. \<forall>i < length (tb_headers t). \<exists>before after.
         lines ! k = before @ (tb_headers t # tb_rows t) ! k ! i @ after \<and> char_count before = col_start t i
         \<and> (Suc i = length (tb_headers t) \<longrightarrow> after = []))"
  by (rule table_write_lines [OF assms])

theorem table_columns_align_witness:
  "\<exists>lines. table_write \<lparr>tb_headers = [''A'', ''B''], tb_rows = [[''xyz'', ''1'']]\<rparr>
      = Some (concat (map (\<lambda>l. l @ newline) lines)) \<and> length lines = 2"
  using table_columns_align [of "\<lparr>tb_headers = [''A'', ''B''], tb_rows = [[''xyz'', ''1'']]\<rparr>"]
  by (auto simp: table_ok_def)


text \<open>
  A sync that committed nothing prints the same line whatever its prune deleted: the counts of the
  prune are in the response, not in its text.
\<close>

lemma sync_text_omits_prune:
  "\<not> sy_committed r \<Longrightarrow> render_mirror_sync (r\<lparr>sy_pruned_manifests := a, sy_pruned_objects := b\<rparr>) = render_mirror_sync r"
  by (simp add: render_mirror_sync_def)

end
