(* ===== verification/Cli.thy ===== *)
theory Cli
  imports Fleet Render
begin

text \<open>
  \<^verbatim>\<open>src/api.rs\<close> and \<^verbatim>\<open>src/main.rs\<close>: the facade over a fleet root with its error type and options,
  and the dispatch of a parsed command line to it. Reading the command line is clap's work, so a
  command is a value of \<open>cli_command\<close>; JSON is serde's (\<open>ce_json\<close>). A command works on a \<open>machine\<close>,
  the fleet root's objects and the world of the mirror it touches, and ends with an exit code, what
  it printed and what it reported; \<open>None\<close> is a panic. A node runs through the script \<open>ce_script\<close>, at
  whose end the interrupt signal arrives, and its writes change the root's objects; \<open>ce_takes\<close> says
  which of them the store carries out.
\<close>

subsection \<open>Errors\<close>

datatype api_error =
    FleetRootUrl url_error
  | FleetRootStore store_error
  | AUrl url_error
  | AStore store_error
  | ANotRegistered string
  | NoSuchMirrorTarget string string
  | AService service_error
  | AMirror mirror_error
  | InvalidNodeId string
  | ADuplicateService service

fun api_error_text :: "displays \<Rightarrow> api_error \<Rightarrow> string" where
  "api_error_text D (FleetRootUrl e) = ''invalid fleet root: '' @ url_error_text e"
| "api_error_text D (FleetRootStore e) = ''failed to open fleet root store: '' @ dp_store D e"
| "api_error_text D (AUrl e) = url_error_text e"
| "api_error_text D (AStore e) = ''object store error: '' @ dp_store D e"
| "api_error_text D (ANotRegistered url) = url @ '' is not registered; `sleet register` it first''"
| "api_error_text D (NoSuchMirrorTarget target url) =
     ''no enabled mirror target '' @ debug_str target @ '' applies to '' @ url"
| "api_error_text D (AService e) = service_error_text D e"
| "api_error_text D (AMirror e) = mirror_error_text D e"
| "api_error_text D (InvalidNodeId e) = ''invalid node id: '' @ e"
| "api_error_text D (ADuplicateService s) = ''services lists '' @ debug_str (as_str s) @ '' more than once''"

fun from_open :: "open_error \<Rightarrow> api_error" where
  "from_open (RootUrl e) = FleetRootUrl e"
| "from_open (RootStore e) = FleetRootStore e"

fun from_ops :: "ops_error \<Rightarrow> api_error" where
  "from_ops (OUrl e) = AUrl e"
| "from_ops (OStore e) = AStore e"
| "from_ops (NotRegistered url) = ANotRegistered url"
| "from_ops (NoSuchTarget target url) = NoSuchMirrorTarget target url"
| "from_ops (OService e) = AService e"
| "from_ops (OMirror e) = AMirror e"

fun from_daemon :: "daemon_error \<Rightarrow> api_error" where
  "from_daemon (BadNodeId reason) = InvalidNodeId reason"
| "from_daemon (RootError e) = from_open e"

fun stop_map :: "('e \<Rightarrow> 'f) \<Rightarrow> 'e stop \<Rightarrow> 'f stop" where
  "stop_map f Panicked = Panicked"
| "stop_map f TimedOut = TimedOut"
| "stop_map f (Failed e) = Failed (f e)"

subsection \<open>Options\<close>

record status_options =
  so_compactions :: bool
  so_mirrors :: bool

definition default_status_options :: status_options where
  "default_status_options = \<lparr>so_compactions = False, so_mirrors = False\<rparr>"

definition with_compactions :: "bool \<Rightarrow> status_options \<Rightarrow> status_options" where
  "with_compactions enabled self = self\<lparr>so_compactions := enabled\<rparr>"

definition with_mirrors :: "bool \<Rightarrow> status_options \<Rightarrow> status_options" where
  "with_mirrors enabled self = self\<lparr>so_mirrors := enabled\<rparr>"

record mirror_sync_options =
  mso_rclone :: "string option"

definition default_mirror_sync_options :: mirror_sync_options where
  "default_mirror_sync_options = \<lparr>mso_rclone = None\<rparr>"

definition sync_with_rclone :: "string \<Rightarrow> mirror_sync_options \<Rightarrow> mirror_sync_options" where
  "sync_with_rclone rclone self = self\<lparr>mso_rclone := Some rclone\<rparr>"

subsection \<open>The facade\<close>

record cli_env =
  ce_status :: status_env
  ce_view :: store_view
  ce_now :: datetime
  ce_put :: put_answer
  ce_mirror :: mirror_env
  ce_time :: time_format
  ce_node :: node_env
  ce_script :: script
  ce_heartbeat_json :: "heartbeat \<Rightarrow> string"
  ce_takes :: "datetime \<times> effect \<Rightarrow> bool"
  ce_parallelism :: "nat option"
  ce_json :: "response \<Rightarrow> string"

record machine =
  mc_objects :: fleet_objects
  mc_world :: world

abbreviation ce_crates :: "cli_env \<Rightarrow> crates" where
  "ce_crates C \<equiv> se_crates (ce_status C)"

abbreviation ce_stores :: "cli_env \<Rightarrow> object_store_crate" where
  "ce_stores C \<equiv> se_stores (ce_status C)"

definition fleet_open :: "cli_env \<Rightarrow> string \<Rightarrow> api_error stop + fleet_root" where
  "fleet_open C url =
     (case fleet_root_open (ce_crates C) (ce_stores C) url of
        Inl e \<Rightarrow> Inl (stop_map from_open e)
      | Inr root \<Rightarrow> Inr root)"

definition fleet_register :: "cli_env \<Rightarrow> fleet_root \<Rightarrow> string \<Rightarrow> machine \<Rightarrow> (api_error stop + register_response) \<times> machine" where
  "fleet_register C root url m =
     (case register (ce_crates C) root (ce_put C) (ce_now C) url (mc_objects m) of
        (Inl e, objs) \<Rightarrow> (Inl (Failed (from_ops e)), m\<lparr>mc_objects := objs\<rparr>)
      | (Inr r, objs) \<Rightarrow> (Inr r, m\<lparr>mc_objects := objs\<rparr>))"

definition fleet_status :: "cli_env \<Rightarrow> fleet_root \<Rightarrow> status_options \<Rightarrow> api_error stop + status_response" where
  "fleet_status C root options =
     (case status ((ce_status C)\<lparr>se_root := root\<rparr>) (ce_view C) (ce_now C) (so_compactions options) (so_mirrors options) of
        Inl e \<Rightarrow> Inl (stop_map from_ops e)
      | Inr r \<Rightarrow> Inr r)"

definition sync_mirror ::
  "cli_env \<Rightarrow> fleet_root \<Rightarrow> string \<Rightarrow> string \<Rightarrow> mirror_sync_options \<Rightarrow> machine \<Rightarrow> (api_error stop + mirror_sync_response) \<times> machine" where
  "sync_mirror C root url target options m =
     (case mirror_sync (ce_crates C) (se_toml (ce_status C)) (ce_stores C) root (ce_view C) (ce_mirror C) url target
             (mso_rclone options) (mc_world m) of
        (Inl e, w) \<Rightarrow> (Inl (stop_map from_ops e), m\<lparr>mc_world := w\<rparr>)
      | (Inr r, w) \<Rightarrow> (Inr r, m\<lparr>mc_world := w\<rparr>))"

definition api_mirror_restore ::
  "cli_env \<Rightarrow> string \<Rightarrow> string \<Rightarrow> restore_at \<Rightarrow> machine \<Rightarrow> (api_error stop + mirror_restore_response) \<times> machine" where
  "api_mirror_restore C backup destination point m =
     (case mirror_restore (ce_crates C) (ce_stores C) (ce_mirror C) (ce_time C) backup destination point (mc_world m) of
        (Inl e, w) \<Rightarrow> (Inl (stop_map from_ops e), m\<lparr>mc_world := w\<rparr>)
      | (Inr r, w) \<Rightarrow> (Inr r, m\<lparr>mc_world := w\<rparr>))"

fun first_duplicate :: "service set \<Rightarrow> service list \<Rightarrow> service option" where
  "first_duplicate seen [] = None"
| "first_duplicate seen (s # ss) = (if s \<in> seen then Some s else first_duplicate (insert s seen) ss)"

definition run_node :: "cli_env \<Rightarrow> fleet_root \<Rightarrow> node_options \<Rightarrow> api_error + node \<times> timed_effects" where
  "run_node C root options =
     (case first_duplicate {} (no_services options) of
        Some duplicate \<Rightarrow> Inl (ADuplicateService duplicate)
      | None \<Rightarrow>
          (case daemon_run ((ce_node C)\<lparr>ne_root := root, ne_options := options\<rparr>) (ce_script C) of
             Inl e \<Rightarrow> Inl (from_daemon e)
           | Inr run \<Rightarrow> Inr run))"

subsection \<open>The command line\<close>

datatype output_format = TextFormat | JsonFormat

datatype cli_command =
    Run string string "service list" "nat option" "string option"
  | Status string bool bool output_format
  | Register string string output_format
  | MirrorSync string string string "string option" output_format
  | MirrorRestore string string "string option" output_format

datatype exit_code = ExitSuccess | ExitFailure

record ended =
  ed_code :: exit_code
  ed_stdout :: string
  ed_stderr :: string

definition fail_with :: "string \<Rightarrow> ended" where
  "fail_with e = \<lparr>ed_code = ExitFailure, ed_stdout = [], ed_stderr = ''error: '' @ e @ newline\<rparr>"

definition emit :: "cli_env \<Rightarrow> response \<Rightarrow> output_format \<Rightarrow> ended option" where
  "emit C response format =
     map_option (\<lambda>out. \<lparr>ed_code = ExitSuccess, ed_stdout = out, ed_stderr = []\<rparr>)
       (case format of
          TextFormat \<Rightarrow> render (dp_duration (se_displays (ce_status C))) response
        | JsonFormat \<Rightarrow> Some (ce_json C response @ newline))"

definition conclude :: "cli_env \<Rightarrow> ('r \<Rightarrow> response) \<Rightarrow> output_format \<Rightarrow> api_error stop + 'r \<Rightarrow> ended option" where
  "conclude C wrap format result =
     (case result of
        Inr r \<Rightarrow> emit C (wrap r) format
      | Inl (Failed e) \<Rightarrow> Some (fail_with (api_error_text (se_displays (ce_status C)) e))
      | Inl TimedOut \<Rightarrow> None
      | Inl Panicked \<Rightarrow> None)"

definition run_command ::
  "cli_env \<Rightarrow> string \<Rightarrow> string \<Rightarrow> service list \<Rightarrow> nat option \<Rightarrow> string option
     \<Rightarrow> ended option \<times> timed_effects" where
  "run_command C root node_id services max_mirror_jobs rclone =
     (case first_duplicate {} services of
        Some dup \<Rightarrow> (Some (fail_with (''--services lists '' @ [CHR 0x22] @ as_str dup @ [CHR 0x22] @ '' more than once'')), [])
      | None \<Rightarrow>
          (let options = with_services services (new_node_options (ce_parallelism C) node_id);
               options = (case max_mirror_jobs of None \<Rightarrow> options | Some n \<Rightarrow> with_max_mirror_jobs n options);
               options = (case rclone of None \<Rightarrow> options | Some path \<Rightarrow> with_rclone path options)
           in case fleet_open C root of
                Inl (Failed e) \<Rightarrow> (Some (fail_with (api_error_text (se_displays (ce_status C)) e)), [])
              | Inl TimedOut \<Rightarrow> (None, [])
              | Inl Panicked \<Rightarrow> (None, [])
              | Inr root \<Rightarrow>
                  (case run_node C root options of
                     Inl e \<Rightarrow> (Some (fail_with (api_error_text (se_displays (ce_status C)) e)), [])
                   | Inr (_, effects) \<Rightarrow> (Some \<lparr>ed_code = ExitSuccess, ed_stdout = [], ed_stderr = []\<rparr>, effects))))"

definition write_objects :: "cli_env \<Rightarrow> timed_effects \<Rightarrow> machine \<Rightarrow> machine" where
  "write_objects C effects m =
     m\<lparr>mc_objects := fold (carry_out (object_ops (\<lambda>_. None)) (ce_heartbeat_json C)) (filter (ce_takes C) effects) (mc_objects m)\<rparr>"

fun run_main :: "cli_env \<Rightarrow> cli_command \<Rightarrow> machine \<Rightarrow> ended option \<times> machine" where
  "run_main C (Run root node_id services max_mirror_jobs rclone) m =
     (case run_command C root node_id services max_mirror_jobs rclone of (e, effects) \<Rightarrow> (e, write_objects C effects m))"
| "run_main C (Status root compactions mirrors format) m =
     (case fleet_open C root of
        Inl e \<Rightarrow> (conclude C StatusOf format (Inl e), m)
      | Inr fleet \<Rightarrow>
          (conclude C StatusOf format
             (fleet_status C fleet (with_mirrors mirrors (with_compactions compactions default_status_options))), m))"
| "run_main C (Register root db format) m =
     (case fleet_open C root of
        Inl e \<Rightarrow> (conclude C RegisterOf format (Inl e), m)
      | Inr fleet \<Rightarrow> (case fleet_register C fleet db m of (r, m') \<Rightarrow> (conclude C RegisterOf format r, m')))"
| "run_main C (MirrorSync root db target rclone format) m =
     (case fleet_open C root of
        Inl e \<Rightarrow> (conclude C MirrorSyncOf format (Inl e), m)
      | Inr fleet \<Rightarrow>
          (let options = (case rclone of None \<Rightarrow> default_mirror_sync_options
                 | Some path \<Rightarrow> sync_with_rclone path default_mirror_sync_options)
           in case sync_mirror C fleet db target options m of (r, m') \<Rightarrow> (conclude C MirrorSyncOf format r, m')))"
| "run_main C (MirrorRestore backup dest at_arg format) m =
     (case (case at_arg of None \<Rightarrow> Inr Latest | Some a \<Rightarrow> restore_parse (ce_time C) a) of
        Inl e \<Rightarrow> (Some (fail_with e), m)
      | Inr point \<Rightarrow> (case api_mirror_restore C backup dest point m of (r, m') \<Rightarrow> (conclude C MirrorRestoreOf format r, m')))"

subsection \<open>Error texts and exit codes\<close>

text \<open>The facade's errors keep the messages of the operations they come from.\<close>

lemma from_ops_text: "api_error_text D (from_ops e) = ops_error_text D e"
  by (cases e) simp_all

lemma first_duplicate_iff: "first_duplicate seen ss = None \<longleftrightarrow> distinct ss \<and> set ss \<inter> seen = {}"
  by (induction seen ss rule: first_duplicate.induct) auto

text \<open>A node is started only with distinct services and a valid id.\<close>

lemma run_node_accepts:
  "(\<exists>run. run_node C root options = Inr run) \<longleftrightarrow>
     distinct (no_services options) \<and> (\<exists>i. validate_node_id (no_node_id options) = Inr i)"
  using first_duplicate_iff [of "{}" "no_services options"]
  by (auto simp: run_node_def daemon_run_def split: option.splits sum.splits)

text \<open>A command that fails prints nothing and reports one line that starts with \<^verbatim>\<open>error:\<close>.\<close>

lemma conclude_failure:
  assumes "conclude C wrap format result = Some d" and "ed_code d = ExitFailure"
  shows "ed_stdout d = [] \<and> (\<exists>e. result = Inl (Failed e) \<and> d = fail_with (api_error_text (se_displays (ce_status C)) e))"
  using assms by (auto simp: conclude_def emit_def fail_with_def split: sum.splits stop.splits option.splits)

text \<open>
  A node that runs to its end leaves no heartbeat of its own behind: when the store carries out the
  last deletion there is no object under its name, whatever happened to the writes before.
\<close>

lemma run_leaves_no_heartbeat:
  assumes "run_node C root options = Inr (n, effects)"
    and "ce_takes C (st_wall (ce_script C), DeleteObject (node_path root (object_name (no_node_id options) (no_services options))))"
  shows "map_of (mc_objects (write_objects C effects m)) (node_path root (object_name (no_node_id options) (no_services options))) = None"
proof -
  let ?E = "(ce_node C)\<lparr>ne_root := root, ne_options := options\<rparr>"
  have run: "daemon_run ?E (ce_script C) = Inr (n, effects)"
    using assms(1) by (auto simp: run_node_def split: option.splits sum.splits)
  obtain earlier where "effects = earlier @ [(st_wall (ce_script C), DeleteObject (own_path ?E))]"
    using run by (auto simp: daemon_run_def node_run_def shutdown_def split: sum.splits prod.splits)
  then show ?thesis
    using assms(2) by (simp add: write_objects_def own_path_def object_ops_def delete_conv')
qed

text \<open>The only object a node ever puts is the heartbeat under its own name.\<close>

lemma run_writes_own_heartbeat:
  assumes "(t, PutHeartbeat p b) \<in> set (snd (node_loop E ts n))"
  shows "p = own_path E"
  using assms
proof (induction ts arbitrary: n)
  case (Cons t' ts)
  then show ?case using tick_effects [of E "tn_view t'" "tn_now t'" "tn_wall t'" n] by (auto simp: node_loop_Cons)
qed simp

end
