(* ===== verification/Test_Store.thy ===== *)
theory Test_Store
  imports Complex_Main Fleet_Root
begin

text \<open>
  \<^verbatim>\<open>src/testing.rs\<close>: the store decorator and the clock of the project's simulation tests. The
  decorated store is any \<open>object_store\<close>: its operations on a state of its own are a parameter. A
  call is counted, may be failed by injection, and reads carry the simulated modification times.
  The seed of the random faults is a 64-bit word; the roll it gives is exact in an \<^verbatim>\<open>f64\<close>, so it is
  a real number here. Sleeping (\<open>latency\<close>) does not change the state of the store.
\<close>

unbundle bit_operations_syntax

datatype store_op = OpGet | OpPut | OpList | OpDelete | OpCopy

record 's object_store =
  os_put :: "string \<Rightarrow> string \<Rightarrow> bool \<Rightarrow> 's \<Rightarrow> (store_error + unit) \<times> 's"
  os_put_multipart :: "string \<Rightarrow> 's \<Rightarrow> (store_error + nat) \<times> 's"
  os_get :: "string \<Rightarrow> 's \<Rightarrow> store_error + (object_meta \<times> string)"
  os_get_ranges :: "string \<Rightarrow> (nat \<times> nat) list \<Rightarrow> 's \<Rightarrow> store_error + string list"
  os_delete :: "string list \<Rightarrow> 's \<Rightarrow> (store_error + string) list \<times> 's"
  os_list :: "string option \<Rightarrow> 's \<Rightarrow> (store_error + object_meta) list"
  os_list_with_offset :: "string option \<Rightarrow> string \<Rightarrow> 's \<Rightarrow> (store_error + object_meta) list"
  os_list_with_delimiter :: "string option \<Rightarrow> 's \<Rightarrow> store_error + (object_meta list \<times> string list)"
  os_copy :: "string \<Rightarrow> string \<Rightarrow> bool \<Rightarrow> 's \<Rightarrow> (store_error + unit) \<times> 's"

record counters =
  ct_get :: nat
  ct_put :: nat
  ct_list :: nat
  ct_delete :: nat
  ct_copy :: nat

fun counter :: "store_op \<Rightarrow> counters \<Rightarrow> nat" where
  "counter OpGet c = ct_get c"
| "counter OpPut c = ct_put c"
| "counter OpList c = ct_list c"
| "counter OpDelete c = ct_delete c"
| "counter OpCopy c = ct_copy c"

fun bump :: "store_op \<Rightarrow> counters \<Rightarrow> counters" where
  "bump OpGet c = c\<lparr>ct_get := u64_add (ct_get c) 1\<rparr>"
| "bump OpPut c = c\<lparr>ct_put := u64_add (ct_put c) 1\<rparr>"
| "bump OpList c = c\<lparr>ct_list := u64_add (ct_list c) 1\<rparr>"
| "bump OpDelete c = c\<lparr>ct_delete := u64_add (ct_delete c) 1\<rparr>"
| "bump OpCopy c = c\<lparr>ct_copy := u64_add (ct_copy c) 1\<rparr>"

record faults =
  ft_next :: "(store_op, nat) hmap"
  ft_always :: "(store_op, bool) hmap"
  ft_probability :: "(real \<times> 64 word) option"
  ft_latency :: "(store_op, duration) hmap"

definition no_faults :: faults where
  "no_faults = \<lparr>ft_next = [], ft_always = [], ft_probability = None, ft_latency = []\<rparr>"

record 's test_store =
  ts_inner :: 's
  ts_counters :: counters
  ts_faults :: faults
  ts_clock :: "datetime option"
  ts_times :: "(string, datetime) hmap"

definition test_store_new :: "'s \<Rightarrow> datetime option \<Rightarrow> 's test_store" where
  "test_store_new inner clock =
     \<lparr>ts_inner = inner, ts_counters = \<lparr>ct_get = 0, ct_put = 0, ct_list = 0, ct_delete = 0, ct_copy = 0\<rparr>,
      ts_faults = no_faults, ts_clock = clock, ts_times = []\<rparr>"

definition clock_advance :: "duration \<Rightarrow> datetime \<Rightarrow> datetime" where
  "clock_advance by_time now = now + int by_time"

subsection \<open>Injecting faults\<close>

definition fail_next :: "store_op \<Rightarrow> nat \<Rightarrow> faults \<Rightarrow> faults" where
  "fail_next op n f =
     f\<lparr>ft_next := AList.update op (u64_add (case map_of (ft_next f) op of None \<Rightarrow> 0 | Some k \<Rightarrow> k) n) (ft_next f)\<rparr>"

definition fail_all :: "store_op \<Rightarrow> faults \<Rightarrow> faults" where
  "fail_all op f = f\<lparr>ft_always := AList.update op True (ft_always f)\<rparr>"

definition fail_probability :: "real \<Rightarrow> 64 word \<Rightarrow> faults \<Rightarrow> faults" where
  "fail_probability p seed f = f\<lparr>ft_probability := Some (p, max seed 1)\<rparr>"

definition set_latency :: "store_op \<Rightarrow> duration \<Rightarrow> faults \<Rightarrow> faults" where
  "set_latency op by_time f = f\<lparr>ft_latency := AList.update op by_time (ft_latency f)\<rparr>"

definition heal :: "faults \<Rightarrow> faults" where
  "heal f = no_faults"

definition latency :: "store_op \<Rightarrow> faults \<Rightarrow> duration option" where
  "latency op f = map_of (ft_latency f) op"

definition op_name :: "store_op \<Rightarrow> string" where
  "op_name op = (case op of OpGet \<Rightarrow> ''Get'' | OpPut \<Rightarrow> ''Put'' | OpList \<Rightarrow> ''List'' | OpDelete \<Rightarrow> ''Delete'' | OpCopy \<Rightarrow> ''Copy'')"

definition fault :: "store_op \<Rightarrow> store_error" where
  "fault op = OtherError (''injected '' @ op_name op @ '' fault'')"

definition xorshift :: "64 word \<Rightarrow> 64 word" where
  "xorshift seed =
     (let seed = seed XOR push_bit 13 seed;
          seed = seed XOR drop_bit 7 seed
      in seed XOR push_bit 17 seed)"

definition roll :: "64 word \<Rightarrow> real" where
  "roll seed = real (unat (drop_bit 11 seed)) / 2 ^ 53"

definition check_faults :: "store_op \<Rightarrow> faults \<Rightarrow> (store_error + unit) \<times> faults" where
  "check_faults op f =
     (if map_of (ft_always f) op = Some True then (Inl (fault op), f)
      else
        (case map_of (ft_next f) op of
           Some (Suc n) \<Rightarrow> (Inl (fault op), f\<lparr>ft_next := AList.update op n (ft_next f)\<rparr>)
         | _ \<Rightarrow>
             (case ft_probability f of
                None \<Rightarrow> (Inr (), f)
              | Some (p, seed) \<Rightarrow>
                  (let seed = xorshift seed; f = f\<lparr>ft_probability := Some (p, seed)\<rparr>
                   in if roll seed < p then (Inl (fault op), f) else (Inr (), f)))))"

definition check :: "store_op \<Rightarrow> 's test_store \<Rightarrow> (store_error + unit) \<times> 's test_store" where
  "check op t =
     (case check_faults op (ts_faults t) of
        (r, f) \<Rightarrow> (r, t\<lparr>ts_counters := bump op (ts_counters t), ts_faults := f\<rparr>))"

subsection \<open>Simulated modification times\<close>

definition stamp :: "string \<Rightarrow> 's test_store \<Rightarrow> 's test_store" where
  "stamp location t =
     (case ts_clock t of None \<Rightarrow> t | Some now \<Rightarrow> t\<lparr>ts_times := AList.update location now (ts_times t)\<rparr>)"

definition set_modified :: "string \<Rightarrow> datetime \<Rightarrow> 's test_store \<Rightarrow> 's test_store" where
  "set_modified location time t = t\<lparr>ts_times := AList.update location time (ts_times t)\<rparr>"

definition restamp :: "'s test_store \<Rightarrow> object_meta \<Rightarrow> object_meta" where
  "restamp t meta =
     (if ts_clock t = None then meta
      else (case map_of (ts_times t) (om_location meta) of None \<Rightarrow> meta | Some time \<Rightarrow> meta\<lparr>om_last_modified := time\<rparr>))"

subsection \<open>The decorated operations\<close>

definition ts_put :: "'s object_store \<Rightarrow> string \<Rightarrow> string \<Rightarrow> bool \<Rightarrow> 's test_store \<Rightarrow> (store_error + unit) \<times> 's test_store" where
  "ts_put I location payload create t =
     (case check OpPut t of
        (Inl e, t) \<Rightarrow> (Inl e, t)
      | (Inr _, t) \<Rightarrow>
          (case os_put I location payload create (ts_inner t) of
             (Inl e, s) \<Rightarrow> (Inl e, t\<lparr>ts_inner := s\<rparr>)
           | (Inr r, s) \<Rightarrow> (Inr r, stamp location (t\<lparr>ts_inner := s\<rparr>))))"

definition ts_put_multipart :: "'s object_store \<Rightarrow> string \<Rightarrow> 's test_store \<Rightarrow> (store_error + nat) \<times> 's test_store" where
  "ts_put_multipart I location t =
     (case check OpPut t of
        (Inl e, t) \<Rightarrow> (Inl e, t)
      | (Inr _, t) \<Rightarrow>
          (case os_put_multipart I location (ts_inner t) of
             (Inl e, s) \<Rightarrow> (Inl e, t\<lparr>ts_inner := s\<rparr>)
           | (Inr upload, s) \<Rightarrow> (Inr upload, stamp location (t\<lparr>ts_inner := s\<rparr>))))"

definition ts_get :: "'s object_store \<Rightarrow> string \<Rightarrow> 's test_store \<Rightarrow> (store_error + (object_meta \<times> string)) \<times> 's test_store" where
  "ts_get I location t =
     (case check OpGet t of
        (Inl e, t) \<Rightarrow> (Inl e, t)
      | (Inr _, t) \<Rightarrow>
          (case os_get I location (ts_inner t) of
             Inl e \<Rightarrow> (Inl e, t)
           | Inr (meta, body) \<Rightarrow> (Inr (restamp t meta, body), t)))"

definition ts_get_ranges ::
  "'s object_store \<Rightarrow> string \<Rightarrow> (nat \<times> nat) list \<Rightarrow> 's test_store \<Rightarrow> (store_error + string list) \<times> 's test_store" where
  "ts_get_ranges I location ranges t =
     (case check OpGet t of
        (Inl e, t) \<Rightarrow> (Inl e, t)
      | (Inr _, t) \<Rightarrow> (os_get_ranges I location ranges (ts_inner t), t))"

definition forget :: "(store_error + string) list \<Rightarrow> 's test_store \<Rightarrow> 's test_store" where
  "forget results t =
     t\<lparr>ts_times := fold (\<lambda>r times. case r of Inl _ \<Rightarrow> times | Inr path \<Rightarrow> AList.delete path times) results (ts_times t)\<rparr>"

definition ts_delete ::
  "'s object_store \<Rightarrow> string list \<Rightarrow> 's test_store \<Rightarrow> (store_error + string) list \<times> 's test_store" where
  "ts_delete I locations t =
     (case check OpDelete t of
        (Inl e, t) \<Rightarrow> ([Inl e], t)
      | (Inr _, t) \<Rightarrow>
          (case os_delete I locations (ts_inner t) of (results, s) \<Rightarrow> (results, forget results (t\<lparr>ts_inner := s\<rparr>))))"

definition ts_list :: "'s object_store \<Rightarrow> string option \<Rightarrow> 's test_store \<Rightarrow> (store_error + object_meta) list \<times> 's test_store" where
  "ts_list I pre t =
     (case check OpList t of
        (Inl e, t) \<Rightarrow> ([Inl e], t)
      | (Inr _, t) \<Rightarrow> (map (map_sum id (restamp t)) (os_list I pre (ts_inner t)), t))"

definition ts_list_with_offset ::
  "'s object_store \<Rightarrow> string option \<Rightarrow> string \<Rightarrow> 's test_store \<Rightarrow> (store_error + object_meta) list \<times> 's test_store" where
  "ts_list_with_offset I pre offset t =
     (case check OpList t of
        (Inl e, t) \<Rightarrow> ([Inl e], t)
      | (Inr _, t) \<Rightarrow> (os_list_with_offset I pre offset (ts_inner t), t))"

definition ts_list_with_delimiter ::
  "'s object_store \<Rightarrow> string option \<Rightarrow> 's test_store \<Rightarrow> (store_error + (object_meta list \<times> string list)) \<times> 's test_store" where
  "ts_list_with_delimiter I pre t =
     (case check OpList t of
        (Inl e, t) \<Rightarrow> (Inl e, t)
      | (Inr _, t) \<Rightarrow>
          (case os_list_with_delimiter I pre (ts_inner t) of
             Inl e \<Rightarrow> (Inl e, t)
           | Inr (objects, prefixes) \<Rightarrow> (Inr (map (restamp t) objects, prefixes), t)))"

definition ts_copy ::
  "'s object_store \<Rightarrow> string \<Rightarrow> string \<Rightarrow> bool \<Rightarrow> 's test_store \<Rightarrow> (store_error + unit) \<times> 's test_store" where
  "ts_copy I source dest create t =
     (case check OpCopy t of
        (Inl e, t) \<Rightarrow> (Inl e, t)
      | (Inr _, t) \<Rightarrow>
          (case os_copy I source dest create (ts_inner t) of
             (Inl e, s) \<Rightarrow> (Inl e, t\<lparr>ts_inner := s\<rparr>)
           | (Inr r, s) \<Rightarrow> (Inr r, stamp dest (t\<lparr>ts_inner := s\<rparr>))))"

subsection \<open>The random faults\<close>

lemma push_bit_fixed:
  fixes x :: "64 word"
  assumes "x = push_bit n x" and "0 < n"
  shows "x = 0"
proof (rule bit_eqI)
  have "\<not> bit x k" for k
  proof (induction k rule: less_induct)
    case (less k)
    have "bit x k \<longleftrightarrow> bit (push_bit n x) k" using assms(1) by simp
    moreover have "bit (push_bit n x) k \<Longrightarrow> n \<le> k \<and> bit x (k - n)" by (simp add: bit_push_bit_iff)
    ultimately show ?case using less [of "k - n"] assms(2) by auto
  qed
  then show "bit x k = bit 0 k" for k by simp
qed

lemma drop_bit_fixed:
  fixes x :: "64 word"
  assumes "x = drop_bit n x" and "0 < n"
  shows "x = 0"
proof (rule bit_eqI)
  have step: "bit x k \<longleftrightarrow> bit x (n + k)" for k using assms(1) by (metis bit_drop_bit_eq comp_apply)
  have none: "\<not> bit x k" if "64 - k \<le> m" for k m
    using that
  proof (induction m arbitrary: k)
    case 0
    then show ?case using bit_imp_le_length [of x k] by auto
  next
    case (Suc m)
    then show ?case using step [of k] assms(2) by (cases "64 - k \<le> m") auto
  qed
  show "bit x k = bit 0 k" for k using none [of k 64] by simp
qed

lemma xor_eq_0: "a XOR b = 0 \<longleftrightarrow> a = (b :: 64 word)"
  by (auto simp: bit_eq_iff bit_xor_iff)

lemma shifts_nonzero:
  fixes x :: "64 word"
  assumes "x \<noteq> 0" and "0 < n"
  shows "x XOR push_bit n x \<noteq> 0" "x XOR drop_bit n x \<noteq> 0"
  using assms push_bit_fixed drop_bit_fixed unfolding xor_eq_0 by blast+

text \<open>A seed that is not zero never becomes zero, so the sequence of rolls never gets stuck.\<close>

lemma xorshift_nonzero: "seed \<noteq> 0 \<Longrightarrow> xorshift seed \<noteq> 0"
  unfolding xorshift_def Let_def by (intro shifts_nonzero) simp_all

lemma roll_range: "0 \<le> roll seed \<and> roll seed < 1"
proof -
  have "unat (drop_bit 11 seed) = unat seed div 2 ^ 11" by (simp only: unat_drop_bit_eq) (simp only: drop_bit_eq_div)
  also have "\<dots> < 2 ^ 53" using unsigned_less [of seed, where 'a = nat] by (simp add: less_mult_imp_div_less)
  finally have "real (unat (drop_bit 11 seed)) < real (2 ^ 53)" by (rule of_nat_less_iff [THEN iffD2])
  then have "real (unat (drop_bit 11 seed)) / 2 ^ 53 < 1" by simp
  moreover have "0 \<le> real (unat (drop_bit 11 seed)) / 2 ^ 53" by (rule divide_nonneg_nonneg) (rule of_nat_0_le_iff, simp)
  ultimately show ?thesis unfolding roll_def by blast
qed

definition seeded :: "faults \<Rightarrow> bool" where
  "seeded f \<longleftrightarrow> (\<forall>p seed. ft_probability f = Some (p, seed) \<longrightarrow> seed \<noteq> 0)"

lemma seeded_kept:
  "seeded no_faults" "seeded (fail_probability p seed f)"
  "seeded f \<Longrightarrow> seeded (fail_next op n f)" "seeded f \<Longrightarrow> seeded (fail_all op f)" "seeded f \<Longrightarrow> seeded (set_latency op d f)"
  "seeded f \<Longrightarrow> seeded (snd (check_faults op f))"
  using xorshift_nonzero
  by (auto simp: seeded_def no_faults_def fail_probability_def fail_next_def fail_all_def set_latency_def check_faults_def
      Let_def max_def word_le_nat_alt split: option.splits nat.splits prod.splits)

subsection \<open>Counted and injected faults\<close>

lemma check_counts:
  "check op t = (r, t') \<Longrightarrow> ts_counters t' = bump op (ts_counters t) \<and> ts_inner t' = ts_inner t \<and> ts_times t' = ts_times t
     \<and> ts_clock t' = ts_clock t"
  by (auto simp: check_def split: prod.splits)

lemma bump_counter: "counter op' (bump op c) = (if op' = op then u64_add (counter op c) 1 else counter op' c)"
  by (cases op; cases op') simp_all

fun checks :: "store_op list \<Rightarrow> faults \<Rightarrow> (store_error + unit) list" where
  "checks [] f = []"
| "checks (op # ops) f = (case check_faults op f of (r, f') \<Rightarrow> r # checks ops f')"

text \<open>
  After \<open>fail_next op n\<close> on a healed store the next \<open>n\<close> calls of \<open>op\<close> fail with its fault and
  every call after them succeeds, however calls of other operations come in between.
\<close>

lemma pending_fails_exactly:
  assumes "ft_always f = []" and "ft_probability f = None"
    and "\<forall>o'. o' \<noteq> op \<longrightarrow> map_of (ft_next f) o' = None" and "unwrap_or (map_of (ft_next f) op) 0 = n"
  shows "map snd (filter (\<lambda>e. fst e = op) (zip ops (checks ops f)))
      = replicate (min n (count_list ops op)) (Inl (fault op)) @ replicate (count_list ops op - n) (Inr ())
    \<and> (\<forall>e \<in> set (zip ops (checks ops f)). fst e \<noteq> op \<longrightarrow> snd e = Inr ())"
  using assms
proof (induction ops arbitrary: f n)
  case (Cons a ops)
  show ?case
  proof (cases "a = op \<and> 0 < n")
    case True
    then obtain k where n: "n = Suc k" by (cases n) auto
    then have next_op: "map_of (ft_next f) op = Some (Suc k)" using Cons.prems(4) by (cases "map_of (ft_next f) op") (auto simp: unwrap_or_def)
    let ?f = "f\<lparr>ft_next := AList.update op k (ft_next f)\<rparr>"
    have step: "check_faults op f = (Inl (fault op), ?f)" using Cons.prems(1) next_op by (simp add: check_faults_def)
    show ?thesis using Cons.IH [of ?f k] Cons.prems True n step by (auto simp: update_conv' unwrap_or_def)
  next
    case False
    then have "map_of (ft_next f) a = None \<or> map_of (ft_next f) a = Some 0"
      using Cons.prems(3, 4) by (cases "a = op") (auto simp: unwrap_or_def split: option.splits)
    then have step: "check_faults a f = (Inr (), f)" using Cons.prems(1, 2) by (auto simp: check_faults_def)
    show ?thesis using Cons.IH [of f n] Cons.prems False step by (cases "a = op") auto
  qed
qed simp

lemma fail_next_exact:
  assumes "n < 2 ^ 64"
  shows "map snd (filter (\<lambda>e. fst e = op) (zip ops (checks ops (fail_next op n no_faults))))
      = replicate (min n (count_list ops op)) (Inl (fault op)) @ replicate (count_list ops op - n) (Inr ())
    \<and> (\<forall>e \<in> set (zip ops (checks ops (fail_next op n no_faults))). fst e \<noteq> op \<longrightarrow> snd e = Inr ())"
  by (rule pending_fails_exactly) (use assms in \<open>simp_all add: fail_next_def no_faults_def unwrap_or_def\<close>)

subsection \<open>Virtual time\<close>

text \<open>
  With a clock, an object that was just written reads back with the clock's time, whatever the
  decorated store recorded, and a failed call leaves the decorated store and the times alone.
\<close>

lemma put_then_get_time:
  assumes "ts_put I p b create t = (Inr (), t1)" and "ts_clock t = Some now"
    and "ts_get I p t1 = (Inr (meta, body), t2)" and "\<forall>s m x. os_get I p s = Inr (m, x) \<longrightarrow> om_location m = p"
  shows "om_last_modified meta = now"
proof -
  have times: "map_of (ts_times t1) p = Some now" "ts_clock t1 = Some now"
    using assms(1, 2) by (auto simp: ts_put_def stamp_def update_conv' split: prod.splits sum.splits dest!: check_counts)
  obtain r u where u: "check OpGet t1 = (r, u)" by fastforce
  have "map_of (ts_times u) p = Some now" "ts_clock u = Some now" using check_counts [OF u] times by simp_all
  moreover obtain m where "os_get I p (ts_inner u) = Inr (m, body)" "meta = restamp u m"
    using assms(3) u by (auto simp: ts_get_def split: sum.splits prod.splits)
  moreover from this have "om_location m = p" using assms(4) by blast
  ultimately show ?thesis by (simp add: restamp_def)
qed

lemma failed_put_changes_nothing:
  assumes "check OpPut t = (Inl e, t0)" and "ts_put I p b create t = (r, t1)"
  shows "r = Inl e \<and> ts_inner t1 = ts_inner t \<and> ts_times t1 = ts_times t"
  using assms check_counts [OF assms(1)] by (simp add: ts_put_def)

text \<open>A listing with an offset is the one read that does not show the simulated times.\<close>

lemma offset_listing_is_raw:
  assumes "check OpList t = (Inr (), t0)"
  shows "fst (ts_list_with_offset I pre offset t) = os_list_with_offset I pre offset (ts_inner t)"
  using assms check_counts [OF assms] by (simp add: ts_list_with_offset_def)

end
