(* ===== verification/Test_Root.thy ===== *)
theory Test_Root
  imports Fleet Test_Store
begin

text \<open>
  The simulation tests run fleets of nodes over a \<open>TestStore\<close> around an in-memory store, with a virtual
  clock. Here that store is shown to keep the contract \<open>shared_root\<close> the fleet's convergence rests on,
  so what the simulations exercise is what the theorem is about: the virtual modification times
  are the ages the nodes see. \<open>memory_store\<close> is the in-memory store as its crate documents it.
\<close>

definition memory_store :: "datetime \<Rightarrow> fleet_objects object_store" where
  "memory_store now =
     \<lparr>os_put = (\<lambda>p b create s. if create \<and> map_of s p \<noteq> None then (Inl AlreadyExists, s)
          else (Inr (), AList.update p \<lparr>so_bytes = b, so_modified = now\<rparr> s)),
      os_put_multipart = (\<lambda>p s. (Inr 0, s)),
      os_get = (\<lambda>p s. case map_of s p of None \<Rightarrow> Inl NotFound | Some x \<Rightarrow> Inr (object_meta_of (\<lambda>_. None) (p, x), so_bytes x)),
      os_get_ranges = (\<lambda>p ranges s. case map_of s p of None \<Rightarrow> Inl NotFound
          | Some x \<Rightarrow> Inr (map (\<lambda>(a, b). take (b - a) (drop a (so_bytes x))) ranges)),
      os_delete = (\<lambda>ps s. (map Inr ps, fold AList.delete ps s)),
      os_list = (\<lambda>pre s. map (\<lambda>px. Inr (object_meta_of (\<lambda>_. None) px))
          (filter (\<lambda>px. case pre of None \<Rightarrow> True | Some d \<Rightarrow> under d (fst px)) s)),
      os_list_with_offset = (\<lambda>pre offset s. map (\<lambda>px. Inr (object_meta_of (\<lambda>_. None) px))
          (filter (\<lambda>px. (case pre of None \<Rightarrow> True | Some d \<Rightarrow> under d (fst px)) \<and> offset < fst px) s)),
      os_list_with_delimiter = (\<lambda>pre s. Inr (map (object_meta_of (\<lambda>_. None))
          (filter (\<lambda>px. case pre of None \<Rightarrow> True | Some d \<Rightarrow> under d (fst px)) s), [])),
      os_copy = (\<lambda>a b create s. case map_of s a of None \<Rightarrow> (Inl NotFound, s)
          | Some x \<Rightarrow> if create \<and> map_of s b \<noteq> None then (Inl AlreadyExists, s)
              else (Inr (), AList.update b \<lparr>so_bytes = so_bytes x, so_modified = now\<rparr> s))\<rparr>"

text \<open>A listing is read to its end, or to its first error.\<close>

fun try_collect :: "(store_error + 'a) list \<Rightarrow> store_error + 'a list" where
  "try_collect [] = Inr []"
| "try_collect (Inl e # xs) = Inl e"
| "try_collect (Inr x # xs) = (case try_collect xs of Inl e \<Rightarrow> Inl e | Inr ys \<Rightarrow> Inr (x # ys))"

definition test_view :: "datetime \<Rightarrow> fleet_objects test_store \<Rightarrow> store_view" where
  "test_view now t =
     \<lparr>sv_list = (\<lambda>pre. try_collect (fst (ts_list (memory_store now) (Some pre) t))),
      sv_get = (\<lambda>p. case fst (ts_get (memory_store now) p t) of
          Inl e \<Rightarrow> Inl e
        | Inr (meta, body) \<Rightarrow> Inr \<lparr>ga_e_tag = om_e_tag meta, ga_bytes = Inr body\<rparr>)\<rparr>"

text \<open>A node of a simulation writes at the time the virtual clock shows.\<close>

definition test_ops :: "datetime \<Rightarrow> fleet_objects test_store root_ops" where
  "test_ops now =
     \<lparr>ro_put = (\<lambda>p b u t. snd (ts_put (memory_store now) p b False (t\<lparr>ts_clock := Some u\<rparr>))),
      ro_delete = (\<lambda>p t. snd (ts_delete (memory_store now) [p] t)),
      ro_view = test_view now\<rparr>"

definition test_stamps :: "fleet_objects test_store \<Rightarrow> string \<Rightarrow> datetime option" where
  "test_stamps t p = map_option (\<lambda>x. om_last_modified (restamp t (object_meta_of (\<lambda>_. None) (p, x)))) (map_of (ts_inner t) p)"

definition healthy :: "fleet_objects test_store \<Rightarrow> bool" where
  "healthy t \<longleftrightarrow> ts_faults t = no_faults \<and> ts_clock t \<noteq> None \<and> distinct (map fst (ts_inner t))"

lemma check_healthy:
  "ts_faults t = no_faults \<Longrightarrow> check op t = (Inr (), t\<lparr>ts_counters := bump op (ts_counters t)\<rparr>)"
  by (simp add: check_def check_faults_def no_faults_def)

lemma restamp_counters: "restamp (t\<lparr>ts_counters := c\<rparr>) = restamp t"
  by (simp add: restamp_def fun_eq_iff)

lemma try_collect_Inr: "try_collect (map Inr xs) = Inr xs"
  by (induction xs) simp_all

lemma test_put:
  assumes "healthy t"
  shows "healthy (ro_put (test_ops now) p b u t)
    \<and> test_stamps (ro_put (test_ops now) p b u t) = (test_stamps t)(p \<mapsto> u)"
  using assms
  by (auto simp: test_ops_def ts_put_def check_healthy memory_store_def stamp_def healthy_def test_stamps_def restamp_def
      object_meta_of_def update_conv' distinct_update fun_eq_iff split: option.splits)

lemma test_delete:
  assumes "healthy t"
  shows "healthy (ro_delete (test_ops now) p t) \<and> test_stamps (ro_delete (test_ops now) p t) = (test_stamps t)(p := None)"
  using assms
  by (auto simp: test_ops_def ts_delete_def check_healthy memory_store_def forget_def healthy_def test_stamps_def restamp_def
      object_meta_of_def delete_conv' distinct_delete fun_eq_iff split: option.splits)

lemma test_list:
  assumes "healthy t"
  shows "\<exists>metas. sv_list (ro_view (test_ops now) t) pre = Inr metas
    \<and> (\<lambda>m. (om_location m, om_last_modified m)) ` set metas = {(p, u). test_stamps t p = Some u \<and> under pre p}"
proof -
  let ?metas = "map (\<lambda>px. restamp t (object_meta_of (\<lambda>_. None) px)) (filter (\<lambda>px. under pre (fst px)) (ts_inner t))"
  have faults: "ts_faults t = no_faults" and dist: "distinct (map fst (ts_inner t))" using assms by (simp_all add: healthy_def)
  have "sv_list (ro_view (test_ops now) t) pre = try_collect (map Inr ?metas)"
    by (simp add: test_ops_def test_view_def ts_list_def check_healthy [OF faults] memory_store_def comp_def restamp_counters)
  moreover have "om_location (restamp t (object_meta_of (\<lambda>_. None) px)) = fst px" for px
    by (simp add: restamp_def object_meta_of_def split: option.splits)
  then have "(\<lambda>m. (om_location m, om_last_modified m)) ` set ?metas = {(p, u). test_stamps t p = Some u \<and> under pre p}"
    using map_of_eq_Some_iff [OF dist] by (force simp: test_stamps_def image_iff)
  ultimately show ?thesis unfolding try_collect_Inr by blast
qed

interpretation test_root: shared_root "test_ops now" test_stamps healthy for now
  by unfold_locales (use test_put test_delete test_list in blast)+

text \<open>A simulated fleet converges, like one on a plain store.\<close>

lemma simulated_fleet_converges:
  fixes F :: "fleet_objects test_store fleet"
  assumes "finite S" and "\<forall>j \<in> S. member at_root (E j) j \<and> ne_crates (E j) = X \<and> node_reach (E j) (fl_nodes F j)"
    and "healthy (fl_root F)" and "stale (test_stamps (fl_root F)) at_root E S t0 T"
    and "T = heartbeat_timeout (sc_node config)" and "bt_wf dbs"
    and "\<forall>t \<in> set (ts @ us). rt_node t \<in> S \<and> in_window t0 T t" and "S \<subseteq> rt_node ` set ts" and "S \<subseteq> rt_node ` set us"
    and "agreed (test_ops now) json E config dbs (ts @ us) F" and "i \<in> S"
  shows "runs (fl_nodes (fleet_run (test_ops now) json E (ts @ us) F) i) k \<longleftrightarrow> duty X E S config dbs i k"
proof -
  have "test_root.window at_root X E S t0 T F" using assms(1-4) by (simp add: test_root.window_def)
  from test_root.converges [OF this assms(5-10)] assms(11) show ?thesis unfolding settled_def by blast
qed

end
