(* ===== verification/Spec2Isabelle.thy ===== *)
theory Spec2Isabelle
  imports Task_Body Cli Test_Root
begin

text \<open>
  \<^bold>\<open>A verification development for sleet\<close>, a fleet manager that runs the background services of
  SlateDB databases (garbage collection, compaction, mirroring) outside the writer process.

  \<^bold>\<open>The program.\<close> All fleet state is a tree in an object store: \<^verbatim>\<open>sleet.toml\<close> holds the policy,
  \<^verbatim>\<open>dbs/\<close> one file per registered database, \<^verbatim>\<open>nodes/\<close> one heartbeat object per node. A node
  (\<^verbatim>\<open>src/daemon.rs\<close>) writes its heartbeat, polls the policy and registry (\<^verbatim>\<open>src/root.rs\<close>,
  \<^verbatim>\<open>src/config.rs\<close>, \<^verbatim>\<open>src/registry.rs\<close>), lists the heartbeats (\<^verbatim>\<open>src/heartbeat.rs\<close>), ranks the
  live nodes for every database and service (\<^verbatim>\<open>src/placement.rs\<close>) and supervises one task per
  assignment it owns (\<^verbatim>\<open>src/services.rs\<close>, \<^verbatim>\<open>src/mirror/\<close>). Nodes never talk to each other: what
  the fleet gets is what every node decides alone. The mirror copies a database's immutable objects
  to another root and commits manifests as the atomic step; it also prunes old restore points and
  restores a backup. Operators use the one-shot commands of \<^verbatim>\<open>src/ops.rs\<close> through \<^verbatim>\<open>src/api.rs\<close>
  and \<^verbatim>\<open>src/main.rs\<close>, whose responses (\<^verbatim>\<open>src/response.rs\<close>) \<^verbatim>\<open>src/render.rs\<close> prints.

  \<^bold>\<open>Theories and sources.\<close>
  \<^item> \<open>Sleet_Prelude\<close>, \<open>Sleet_Collections\<close>, \<open>Sleet_Text\<close>: strings as byte lists, durations in
    nanoseconds, \<^verbatim>\<open>u64\<close> arithmetic; stable sorting by a total preorder and \<^verbatim>\<open>BTreeMap\<close> (locales
    interpreted on the lists the components use); decimal printing and parsing, UTF-8.
  \<^item> \<open>Registry\<close>: \<^verbatim>\<open>registry.rs\<close>, canonical URLs and registry file names.
  \<^item> \<open>Config\<close>, \<open>Config_Resolve\<close>, \<open>Config_Validate\<close>: \<^verbatim>\<open>config.rs\<close>, the policy and its overrides,
    their layering and their validation.
  \<^item> \<open>Heartbeat\<close>, \<open>Placement\<close>: \<^verbatim>\<open>heartbeat.rs\<close> and \<^verbatim>\<open>placement.rs\<close>, with FNV-1a at 64 bits.
  \<^item> \<open>Fleet_Root\<close>, \<open>Config_Poller\<close>: \<^verbatim>\<open>root.rs\<close>, the live set and the poll with its caches.
  \<^item> \<open>Services\<close>, \<open>Ownership\<close>, \<open>Supervision\<close>, \<open>Node\<close>: \<^verbatim>\<open>services.rs\<close> and \<^verbatim>\<open>daemon.rs\<close>. Supervision
    is a transition system of any number of interleaved tasks; a node is the state its loop carries
    from tick to tick. \<open>Node_Run\<close>: the whole of \<^verbatim>\<open>Node::run\<close>, from the first poll to the shutdown, with
    the tasks' steps as executable events. \<open>Task_Body\<close>: what one run of a supervised task does,
    where the assignment meets the services and the mirror.
  \<^item> \<open>Fleet\<close>: any number of these nodes over the objects of one fleet root.
  \<^item> \<open>Mirror_Layout\<close>, \<open>Mirror_Store\<close>, \<open>Mirror_Copier\<close>, \<open>Mirror_Pass\<close>, \<open>Mirror_Prune\<close>, \<open>Mirror_Restore\<close>,
    \<open>Mirror_Target\<close>, \<open>Mirror_Loops\<close>: the files of \<^verbatim>\<open>src/mirror/\<close>. \<open>Mirror_Invariant\<close>, \<open>Mirror_Safety\<close>
    and \<open>Mirror_Tail\<close> hold the invariant of a target and the proofs about passes and tails.
  \<^item> \<open>Messages\<close>: the texts of errors and warnings. \<open>Response\<close>, \<open>Render\<close>: \<^verbatim>\<open>response.rs\<close>, \<^verbatim>\<open>render.rs\<close>.
    \<open>Ops\<close>, \<open>Ops_Correct\<close>: \<^verbatim>\<open>ops.rs\<close>, \<^verbatim>\<open>store.rs\<close> and their theorems. \<open>Cli\<close>: \<^verbatim>\<open>api.rs\<close>, \<^verbatim>\<open>main.rs\<close>.
  \<^item> \<open>Test_Store\<close>: \<^verbatim>\<open>testing.rs\<close>, the store decorator of the simulation tests, with its injected
    faults (a 64-bit xorshift) and virtual modification times. \<open>Test_Root\<close>: a simulated fleet on it.

  \<^bold>\<open>How the state and the effects correspond.\<close> A struct is a record with a prefix on its fields, an
  enum a datatype, a \<^verbatim>\<open>BTreeMap\<close> a sorted association list, a \<^verbatim>\<open>HashMap\<close> an association list read
  through \<open>map_of\<close>, an \<^verbatim>\<open>Err\<close> the left side of a sum, an early return or \<^verbatim>\<open>?\<close> a branch. Reads of the
  fleet root go through a \<open>store_view\<close>, an arbitrary answer per request, so every statement about a
  poll or a tick holds for any fault and any interleaving with writers. A mirror works in a \<open>world\<close>
  of two roots and its computations are \<open>act\<close>s: before each request the environment \<open>mirror_env\<close>
  takes a step of its own and may make the request fail, so writers, garbage collection, other tasks
  and the clock interleave with a pass at every request, and a fault anywhere is a crash point.

  \<^bold>\<open>What the theorems show.\<close>
  \<^item> Mirror: a target is a mirror at every point of a pass, a prune, a loop and a command (every
    object is the source's, every manifest has its data), it never goes back, a successful pass has
    caught up, commits never overwrite, the log tail copies densely and ends, a prune keeps every
    restore point and deletes only garbage, a restore is complete and refuses a root with anything in it.
  \<^item> Fleet: nodes that only share a store converge, after two rounds of ticks within one timeout, to
    each running exactly what the ranking gives it, and a node that shuts down hands everything over
    in one round. The nodes' own decisions cover every assignment exactly once on a shared view and never
    orphan one on skewed views; ranking is a permutation that moves minimally; a tick runs exactly
    what the node owns, one live task per assignment; a node's run starts with its heartbeat and ends
    with its deletion and no task left; its heartbeats count its tasks truthfully; the body of a task
    never panics and keeps a target a mirror; backoff and housekeeping obey their bounds.
  \<^item> Intent: settings take the most specific layer, accepted files are sound, what a node acts on was
    validated, the registry read is exact and failed reads keep the last good state.
  \<^item> Names: registry files, heartbeats and the mirror's layout read back what was written.
  \<^item> Commands: registering is create-only and seen by the next poll, status shows exactly what the
    nodes compute and survives every failing probe, a sync from the command line is a sound pass,
    rendering never panics and its columns line up.

  The theorems that carry a claim number are the properties; each with hypotheses has a witness that
  applies it to a concrete fleet, database or store. Interfaces between components are locales (total
  preorders and ordered maps in \<open>Sleet_Collections\<close>, the ranking in \<open>Placement\<close>, the rely-guarantee
  rules of mirror computations in \<open>Mirror_Store\<close>, the store the nodes of a fleet share in \<open>Fleet\<close>),
  interpreted on the model's own definitions.

  \<^bold>\<open>Bounds and fuel.\<close> Restarts of a pass are bounded by the source's own \<^verbatim>\<open>MAX_RESTARTS\<close>. The loop of
  the log tail takes fuel and is proved to return before using it up once the source holds no log
  object from some id below the fuel's reach on. The mode loops
  run for a given number of turns and a node for a given script of them: what is proved of every
  number and every script holds of the loop. Identifiers are
  natural numbers with the 64-bit wrap-around written where the source adds; counters of a report
  and durations do not wrap, which the source's types make unreachable or a panic.

  \<^bold>\<open>Hypotheses on other code.\<close> \<open>percent_documented\<close>: percent encoding as its crate documents it.
  \<open>env_ok\<close>, \<open>honest\<close>, \<open>alone\<close>: SlateDB publishes immutable objects before the manifest that names
  them, keeps what a live checkpoint pins, reads back what was written; the store's listings and
  conditional writes are consistent, and nobody else writes to the target. \<open>reparses\<close>: a canonical
  URL parses. Each is satisfied by a concrete instance in a witness.

  \<^bold>\<open>Not modelled.\<close> The decoding of TOML, JSON, RFC 3339 times and the command line (toml, serde,
  chrono, clap), the JSON schemas, SlateDB itself, the object stores and rclone: they are parameters.
  The tokio runtime and logging have no effect on the state, the interrupt signal is the end of a
  node's script, and \<^verbatim>\<open>src/lib.rs\<close> only re-exports. Writers other than a string (an I/O error while
  printing) are left out.
\<close>

end
